(* ===== verification/Bano_Prelude.thy ===== *)
theory Bano_Prelude
  imports Main "HOL-Library.Word" "HOL-Library.Monad_Syntax"
begin

text \<open>
  What every component of the base station shares: the machine integers of the C code
  (\<open>uint8_t\<close>, \<open>uint16_t\<close>, \<open>uint32_t\<close> as words, so that arithmetic wraps as it does
  there), the return code \<open>0\<close> or \<open>-1\<close>, addresses with \<open>NULL\<close> as 0, the results of
  \<open>malloc\<close> as an input of the model, the early-exit iteration over a list, little endian
  byte access, and the lemma collections of the development.
\<close>

unbundle bit_operations_syntax

section \<open>Types\<close>

type_synonym u8 = "8 word"
type_synonym u16 = "16 word"
type_synonym u32 = "32 word"

text \<open>The return code of almost every function: \<open>0\<close> is \<open>Ok\<close>, \<open>-1\<close> is \<open>Err\<close>.\<close>

datatype rc = Ok | Err

text \<open>An address; 0 is \<open>NULL\<close>.\<close>

type_synonym addr = nat

text \<open>
  \<open>malloc\<close> belongs to libc. What the calls return, in order, is an input of the model: a
  stream \<open>mallocs\<close> of addresses, where 0 is a failed allocation and an exhausted stream fails.
  That an address is fresh is a hypothesis of the theorems that need it.
\<close>

type_synonym mallocs = "addr list"

fun malloc :: "mallocs \<Rightarrow> addr \<times> mallocs" where
  "malloc [] = (0, [])"
| "malloc (a # ms) = (a, ms)"

lemma unat_u8_less [simp]: "unat (x :: u8) < 256"
  using unsigned_less [of x, where ?'a = nat] by simp

lemma unat_u16_less [simp]: "unat (x :: u16) < 65536"
  using unsigned_less [of x, where ?'a = nat] by simp

lemma unat_u32_less [simp]: "unat (x :: u32) < 4294967296"
  using unsigned_less [of x, where ?'a = nat] by simp

text \<open>An unsigned 32 bit value fits an \<open>unsigned long\<close> of \<open>W \<ge> 32\<close> bits.\<close>

lemma unat_u32_less_pow: "32 \<le> W \<Longrightarrow> unat (x :: u32) < 2 ^ W"
  by (rule order_less_le_trans [OF unat_u32_less]) (use power_increasing [of 32 W "2 :: nat"] in simp)

lemma unat_u8_less_pow: "8 \<le> W \<Longrightarrow> unat (x :: u8) < 2 ^ W"
  by (rule order_less_le_trans [OF unat_u8_less]) (use power_increasing [of 8 W "2 :: nat"] in simp)

section \<open>Collections of lemmas\<close>

named_theorems heap_simps \<open>reading and writing the item heap\<close>
named_theorems bytes_simps \<open>lengths and access of byte encodings\<close>
named_theorems cstr_simps \<open>comparison of counted strings with C strings\<close>

section \<open>Iteration with early exit\<close>

text \<open>
  \<open>bano_list_foreach\<close> on the sequence of a list's items: the visitor returns whether it
  stops the walk (a non-zero result in C), and the state it leaves.
\<close>

fun foreach_until :: "('a \<Rightarrow> 's \<Rightarrow> bool \<times> 's) \<Rightarrow> 'a list \<Rightarrow> 's \<Rightarrow> rc \<times> 's" where
  "foreach_until f [] s = (Ok, s)"
| "foreach_until f (x # xs) s =
     (case f x s of (stop, s') \<Rightarrow> if stop then (Err, s') else foreach_until f xs s')"

lemma foreach_until_append:
  "foreach_until f (xs @ ys) s =
     (case foreach_until f xs s of (Err, s') \<Rightarrow> (Err, s') | (Ok, s') \<Rightarrow> foreach_until f ys s')"
  by (induction xs arbitrary: s) (auto split: prod.splits rc.splits)

lemma foreach_until_invariant:
  assumes "P s" and "\<And>x s. x \<in> set xs \<Longrightarrow> P s \<Longrightarrow> P (snd (f x s))"
  shows "P (snd (foreach_until f xs s))"
  using assms by (induction xs arbitrary: s) (auto split: prod.splits, fastforce+)

lemma foreach_until_never_stops:
  assumes "\<And>x s. x \<in> set xs \<Longrightarrow> \<not> fst (f x s)"
  shows "foreach_until f xs s = (Ok, fold (\<lambda>x s. snd (f x s)) xs s)"
  using assms
proof (induction xs arbitrary: s)
  case (Cons x xs)
  have "\<not> fst (f x s)" by (rule Cons.prems) simp
  then obtain t where t: "f x s = (False, t)" by (cases "f x s") auto
  have "foreach_until f xs t = (Ok, fold (\<lambda>x s. snd (f x s)) xs t)"
    by (rule Cons.IH) (simp add: Cons.prems)
  with t show ?case by simp
qed simp

text \<open>A search: stop at the first element that satisfies the test, remembering it.\<close>

lemma foreach_until_find:
  "foreach_until (\<lambda>x r. if P x then (True, Some x) else (False, r)) xs r =
     (case find P xs of None \<Rightarrow> (Ok, r) | Some x \<Rightarrow> (Err, Some x))"
  by (induction xs) auto

section \<open>Little endian bytes\<close>

text \<open>
  The programs read and write multi-byte fields of packed structs directly, on little
  endian machines.
\<close>

definition u16_bytes :: "u16 \<Rightarrow> u8 list" where
  "u16_bytes x = [ucast x, ucast (drop_bit 8 x)]"

definition u32_bytes :: "u32 \<Rightarrow> u8 list" where
  "u32_bytes x = [ucast x, ucast (drop_bit 8 x), ucast (drop_bit 16 x), ucast (drop_bit 24 x)]"

definition bytes_u16 :: "u8 list \<Rightarrow> u16" where
  "bytes_u16 bs = ucast (bs ! 0) OR push_bit 8 (ucast (bs ! 1))"

definition bytes_u32 :: "u8 list \<Rightarrow> u32" where
  "bytes_u32 bs = ucast (bs ! 0) OR push_bit 8 (ucast (bs ! 1))
     OR push_bit 16 (ucast (bs ! 2)) OR push_bit 24 (ucast (bs ! 3))"

lemma length_u16_bytes [simp, bytes_simps]: "length (u16_bytes x) = 2"
  by (simp add: u16_bytes_def)

lemma length_u32_bytes [simp, bytes_simps]: "length (u32_bytes x) = 4"
  by (simp add: u32_bytes_def)

lemma bytes_u16_u16_bytes [simp]: "bytes_u16 (u16_bytes x) = x"
  unfolding bytes_u16_def u16_bytes_def
  by (rule bit_word_eqI) (auto simp: bit_simps)

lemma bytes_u32_u32_bytes [simp]: "bytes_u32 (u32_bytes x) = x"
  unfolding bytes_u32_def u32_bytes_def
proof (rule bit_word_eqI)
  fix n assume "n < LENGTH(32)"
  then consider "n < 8" | "8 \<le> n" "n < 16" | "16 \<le> n" "n < 24" | "24 \<le> n" "n < 32"
    by (auto simp: not_less) linarith
  then show "bit (ucast ([ucast x, ucast (drop_bit 8 x), ucast (drop_bit 16 x),
      ucast (drop_bit 24 x)] ! 0 :: u8) OR push_bit 8 (ucast ([ucast x, ucast (drop_bit 8 x),
      ucast (drop_bit 16 x), ucast (drop_bit 24 x)] ! 1 :: u8)) OR
      push_bit 16 (ucast ([ucast x, ucast (drop_bit 8 x), ucast (drop_bit 16 x),
      ucast (drop_bit 24 x)] ! 2 :: u8)) OR push_bit 24 (ucast ([ucast x, ucast (drop_bit 8 x),
      ucast (drop_bit 16 x), ucast (drop_bit 24 x)] ! 3 :: u8)) :: u32) n = bit x n"
    by cases (auto simp: bit_simps)
qed

lemma list4_expand: "length bs = 4 \<Longrightarrow> bs = [bs ! 0, bs ! 1, bs ! 2, bs ! 3]"
  by (cases bs; cases "tl bs"; cases "tl (tl bs)"; cases "tl (tl (tl bs))") auto

lemma not_bit_u8 [simp]: "8 \<le> n \<Longrightarrow> \<not> bit (w :: u8) n"
  by (auto dest: bit_imp_le_length)

lemma u32_bytes_of_4:
  "u32_bytes (ucast b0 OR push_bit 8 (ucast b1) OR push_bit 16 (ucast b2)
     OR push_bit 24 (ucast b3)) = [b0, b1, b2, b3]"
  unfolding u32_bytes_def
  by (auto intro!: bit_word_eqI simp: bit_simps)

lemma u32_bytes_bytes_u32 [simp]: "length bs = 4 \<Longrightarrow> u32_bytes (bytes_u32 bs) = bs"
  unfolding bytes_u32_def
  using u32_bytes_of_4 list4_expand by metis

end
