(* ===== verification/Bano_List.thy ===== *)
theory Bano_List
  imports Bano_Prelude
begin

text \<open>
  The intrusive doubly linked list of \<open>src/base/bano_list.c\<close>, at the level of its pointers.
  A heap maps the address of an allocated item to its fields; reading or writing an address
  that is not allocated (\<open>NULL\<close>, or an item already freed) is undefined behaviour in C and
  \<open>None\<close> here, and so is a walk that never ends. The second half relates the heap to
  sequences of \<open>(item address, data)\<close> pairs, the view the other components have of a list,
  and states that view as an interface, \<open>item_seq\<close>.
\<close>

section \<open>Items, lists, the heap\<close>

record 'd list_item =
  it_data :: 'd
  it_next :: addr
  it_prev :: addr

record blist =
  l_head :: addr
  l_tail :: addr

type_synonym 'd heap = "addr \<Rightarrow> 'd list_item option"

text \<open>Assignments through an item pointer.\<close>

definition set_next :: "'d heap \<Rightarrow> addr \<Rightarrow> addr \<Rightarrow> 'd heap option" where
  "set_next h a v = (case h a of None \<Rightarrow> None | Some it \<Rightarrow> Some (h(a \<mapsto> it\<lparr>it_next := v\<rparr>)))"

definition set_prev :: "'d heap \<Rightarrow> addr \<Rightarrow> addr \<Rightarrow> 'd heap option" where
  "set_prev h a v = (case h a of None \<Rightarrow> None | Some it \<Rightarrow> Some (h(a \<mapsto> it\<lparr>it_prev := v\<rparr>)))"

section \<open>Operations\<close>

definition bano_list_init :: blist where
  "bano_list_init = \<lparr>l_head = 0, l_tail = 0\<rparr>"

text \<open>
  \<open>alloc_item\<close> leaves the data field for its caller to write: the data is an argument here.
\<close>

definition alloc_item :: "mallocs \<Rightarrow> 'd \<Rightarrow> 'd heap \<Rightarrow> addr \<times> mallocs \<times> 'd heap" where
  "alloc_item ms p h =
     (case malloc ms of (i, ms') \<Rightarrow>
       if i = 0 then (0, ms', h)
       else (i, ms', h(i \<mapsto> \<lparr>it_data = p, it_next = 0, it_prev = 0\<rparr>)))"

definition bano_list_add_tail ::
  "mallocs \<Rightarrow> blist \<Rightarrow> 'd \<Rightarrow> 'd heap \<Rightarrow> (rc \<times> mallocs \<times> blist \<times> 'd heap) option" where
  "bano_list_add_tail ms l p h =
     (case alloc_item ms p h of (i, ms', h1) \<Rightarrow>
       if i = 0 then Some (Err, ms', l, h1)
       else do {
         h2 \<leftarrow> set_prev h1 i (l_tail l);
         if l_tail l \<noteq> 0 then do {
           h3 \<leftarrow> set_next h2 (l_tail l) i;
           Some (Ok, ms', l\<lparr>l_tail := i\<rparr>, h3)
         } else Some (Ok, ms', l\<lparr>l_head := i, l_tail := i\<rparr>, h2)
       })"

definition bano_list_add_head ::
  "mallocs \<Rightarrow> blist \<Rightarrow> 'd \<Rightarrow> 'd heap \<Rightarrow> (rc \<times> mallocs \<times> blist \<times> 'd heap) option" where
  "bano_list_add_head ms l p h =
     (case alloc_item ms p h of (i, ms', h1) \<Rightarrow>
       if i = 0 then Some (Err, ms', l, h1)
       else do {
         h2 \<leftarrow> set_next h1 i (l_head l);
         if l_head l \<noteq> 0 then do {
           h3 \<leftarrow> set_prev h2 (l_head l) i;
           Some (Ok, ms', l\<lparr>l_head := i\<rparr>, h3)
         } else Some (Ok, ms', l\<lparr>l_head := i, l_tail := i\<rparr>, h2)
       })"

definition bano_list_add_before ::
  "mallocs \<Rightarrow> blist \<Rightarrow> addr \<Rightarrow> 'd \<Rightarrow> 'd heap \<Rightarrow> (rc \<times> mallocs \<times> blist \<times> 'd heap) option" where
  "bano_list_add_before ms li it_nxt p h =
     (case alloc_item ms p h of (it, ms', h1) \<Rightarrow>
       if it = 0 then Some (Err, ms', li, h1)
       else do {
         (li1, h2) \<leftarrow>
           (if it_nxt = l_head li then Some (li\<lparr>l_head := it\<rparr>, h1)
            else do {
              nx \<leftarrow> h1 it_nxt;
              h2 \<leftarrow> set_next h1 (it_prev nx) it;
              Some (li, h2)
            });
         h3 \<leftarrow> set_next h2 it it_nxt;
         h4 \<leftarrow> set_prev h3 it_nxt it;
         Some (Ok, ms', li1, h4)
       })"

definition bano_list_del :: "blist \<Rightarrow> addr \<Rightarrow> 'd heap \<Rightarrow> (blist \<times> 'd heap) option" where
  "bano_list_del l i h = do {
     it \<leftarrow> h i;
     (l1, h1) \<leftarrow>
       (if it_prev it \<noteq> 0 then do {h1 \<leftarrow> set_next h (it_prev it) (it_next it); Some (l, h1)}
        else Some (l\<lparr>l_head := it_next it\<rparr>, h));
     it1 \<leftarrow> h1 i;
     (l2, h2) \<leftarrow>
       (if it_next it1 \<noteq> 0 then do {h2 \<leftarrow> set_prev h1 (it_next it1) (it_prev it1); Some (l1, h2)}
        else Some (l1\<lparr>l_tail := it_prev it1\<rparr>, h1));
     Some (l2, h2(i := None))
   }"

definition bano_list_is_empty :: "blist \<Rightarrow> bool" where
  "bano_list_is_empty li = (l_head li = 0)"

text \<open>
  The walks. The visitor of \<open>bano_list_foreach_at\<close> gets the item and a state made of the
  heap and whatever else it works on; the link to the next item is read before it is called.
\<close>

partial_function (option) bano_list_foreach_at ::
  "(addr \<Rightarrow> 'd heap \<times> 's \<Rightarrow> (bool \<times> 'd heap \<times> 's) option) \<Rightarrow> addr \<Rightarrow> 'd heap \<times> 's
     \<Rightarrow> (rc \<times> 'd heap \<times> 's) option" where
  "bano_list_foreach_at fn pos s =
     (if pos = 0 then Some (Ok, s)
      else Option.bind (fst s pos) (\<lambda>it.
        Option.bind (fn pos s) (\<lambda>r.
          if fst r then Some (Err, snd r)
          else bano_list_foreach_at fn (it_next it) (snd r))))"

definition bano_list_foreach ::
  "blist \<Rightarrow> (addr \<Rightarrow> 'd heap \<times> 's \<Rightarrow> (bool \<times> 'd heap \<times> 's) option) \<Rightarrow> 'd heap \<times> 's
     \<Rightarrow> (rc \<times> 'd heap \<times> 's) option" where
  "bano_list_foreach l f s = bano_list_foreach_at f (l_head l) s"

partial_function (option) list_find_at ::
  "'d heap \<Rightarrow> (addr \<Rightarrow> bool) \<Rightarrow> addr \<Rightarrow> (rc \<times> addr) option" where
  "list_find_at h f pos =
     (if pos = 0 then Some (Err, 0)
      else if f pos then Some (Ok, pos)
      else Option.bind (h pos) (\<lambda>it. list_find_at h f (it_next it)))"

definition bano_list_find :: "'d heap \<Rightarrow> blist \<Rightarrow> (addr \<Rightarrow> bool) \<Rightarrow> (rc \<times> addr) option" where
  "bano_list_find h l f = list_find_at h f (l_head l)"

partial_function (option) list_fini_at ::
  "(addr \<Rightarrow> 'd heap \<times> 's \<Rightarrow> ('d heap \<times> 's) option) \<Rightarrow> addr \<Rightarrow> 'd heap \<times> 's
     \<Rightarrow> ('d heap \<times> 's) option" where
  "list_fini_at f pos s =
     (if pos = 0 then Some s
      else Option.bind (fst s pos) (\<lambda>it.
        Option.bind (f pos s) (\<lambda>s1.
          list_fini_at f (it_next it) ((fst s1)(pos := None), snd s1))))"

definition bano_list_fini ::
  "blist \<Rightarrow> (addr \<Rightarrow> 'd heap \<times> 's \<Rightarrow> ('d heap \<times> 's) option) \<Rightarrow> 'd heap \<times> 's
     \<Rightarrow> (blist \<times> 'd heap \<times> 's) option" where
  "bano_list_fini l f s = do {
     s' \<leftarrow> list_fini_at f (l_head l) s;
     Some (\<lparr>l_head = 0, l_tail = 0\<rparr>, s')
   }"

section \<open>Segments\<close>

text \<open>
  \<open>dseg h q p xs e\<close>: from \<open>p\<close>, the items \<open>xs\<close> follow one another, the first one's
  predecessor is \<open>q\<close>, each later one's is the item before it, and the last one's successor
  is \<open>e\<close>. \<open>fseg\<close> keeps the forward links only.
\<close>

primrec dseg :: "'d heap \<Rightarrow> addr \<Rightarrow> addr \<Rightarrow> addr list \<Rightarrow> addr \<Rightarrow> bool" where
  "dseg h q p [] e \<longleftrightarrow> p = e"
| "dseg h q p (a # as) e \<longleftrightarrow>
     p = a \<and> a \<noteq> 0 \<and> (\<exists>it. h a = Some it \<and> it_prev it = q \<and> dseg h a (it_next it) as e)"

primrec fseg :: "'d heap \<Rightarrow> addr \<Rightarrow> addr list \<Rightarrow> addr \<Rightarrow> bool" where
  "fseg h p [] e \<longleftrightarrow> p = e"
| "fseg h p (a # as) e \<longleftrightarrow> p = a \<and> a \<noteq> 0 \<and> (\<exists>it. h a = Some it \<and> fseg h (it_next it) as e)"

definition last_or :: "addr \<Rightarrow> addr list \<Rightarrow> addr" where
  "last_or q xs = (if xs = [] then q else last xs)"

text \<open>\<open>dll h l xs\<close>: the list \<open>l\<close> is well linked both ways and holds exactly the items \<open>xs\<close>.\<close>

definition dll :: "'d heap \<Rightarrow> blist \<Rightarrow> addr list \<Rightarrow> bool" where
  "dll h l xs \<longleftrightarrow> dseg h 0 (l_head l) xs 0 \<and> l_tail l = last_or 0 xs \<and> distinct xs"

text \<open>\<open>fll\<close>: the forward view, which is all that the walks read.\<close>

definition fll :: "'d heap \<Rightarrow> blist \<Rightarrow> addr list \<Rightarrow> bool" where
  "fll h l xs \<longleftrightarrow> fseg h (l_head l) xs 0 \<and> distinct xs"

type_synonym 'd items = "(addr \<times> 'd) list"

definition items :: "'d heap \<Rightarrow> addr list \<Rightarrow> 'd items" where
  "items h xs = map (\<lambda>a. (a, it_data (the (h a)))) xs"

lemma last_or_simps [simp]:
  "last_or q [] = q" "last_or q (x # xs) = last_or x xs" "last_or q (xs @ y # ys) = last_or y ys"
  by (auto simp: last_or_def)

lemma dseg_append:
  "dseg h q p (xs @ ys) e \<longleftrightarrow> (\<exists>m. dseg h q p xs m \<and> dseg h (last_or q xs) m ys e)"
  by (induction xs arbitrary: q p) auto

lemma fseg_append: "fseg h p (xs @ ys) e \<longleftrightarrow> (\<exists>m. fseg h p xs m \<and> fseg h m ys e)"
  by (induction xs arbitrary: p) auto

lemma dseg_upd [simp, heap_simps]:
  "a \<notin> set xs \<Longrightarrow> dseg (h(a := v)) q p xs e = dseg h q p xs e"
  by (induction xs arbitrary: q p) auto

lemma fseg_upd [simp, heap_simps]:
  "a \<notin> set xs \<Longrightarrow> fseg (h(a := v)) p xs e = fseg h p xs e"
  by (induction xs arbitrary: p) auto

lemma dseg_fseg: "dseg h q p xs e \<Longrightarrow> fseg h p xs e"
  by (induction xs arbitrary: q p) auto

lemma dll_fll: "dll h l xs \<Longrightarrow> fll h l xs"
  by (auto simp: dll_def fll_def dest: dseg_fseg)

lemma fseg_alloc: "fseg h p xs e \<Longrightarrow> a \<in> set xs \<Longrightarrow> h a \<noteq> None \<and> a \<noteq> 0"
  by (induction xs arbitrary: p) auto

lemma dll_alloc: "dll h l xs \<Longrightarrow> a \<in> set xs \<Longrightarrow> h a \<noteq> None \<and> a \<noteq> 0"
  by (metis dll_fll fll_def fseg_alloc)

lemma fseg_unique: "fseg h p xs 0 \<Longrightarrow> fseg h p ys 0 \<Longrightarrow> xs = ys"
proof (induction xs arbitrary: p ys)
  case Nil then show ?case by (cases ys) auto
next
  case (Cons x xs) then show ?case by (cases ys) auto
qed

lemma items_upd [simp, heap_simps]: "a \<notin> set xs \<Longrightarrow> items (h(a := v)) xs = items h xs"
  by (auto simp: items_def)

lemma items_relink [heap_simps]:
  "h a = Some it \<Longrightarrow> it_data it' = it_data it \<Longrightarrow> items (h(a \<mapsto> it')) xs = items h xs"
  by (auto simp: items_def)

lemma items_append [simp, heap_simps]: "items h (xs @ ys) = items h xs @ items h ys"
  by (simp add: items_def)

lemma items_simps [simp, heap_simps]:
  "items h [] = []" "items h (a # xs) = (a, it_data (the (h a))) # items h xs"
  by (simp_all add: items_def)

lemma map_fst_items [simp]: "map fst (items h xs) = xs"
  by (simp add: items_def comp_def)

section \<open>The operations on well linked lists\<close>

lemma set_next_alloc [simp, heap_simps]:
  "h a = Some it \<Longrightarrow> set_next h a v = Some (h(a \<mapsto> it\<lparr>it_next := v\<rparr>))"
  by (simp add: set_next_def)

lemma set_prev_alloc [simp, heap_simps]:
  "h a = Some it \<Longrightarrow> set_prev h a v = Some (h(a \<mapsto> it\<lparr>it_prev := v\<rparr>))"
  by (simp add: set_prev_def)

lemma set_link_freed [simp, heap_simps]:
  "h a = None \<Longrightarrow> set_next h a v = None" "h a = None \<Longrightarrow> set_prev h a v = None"
  by (simp_all add: set_next_def set_prev_def)

lemma dseg_last_relink:
  "dseg h q p (xs @ [t]) e \<Longrightarrow> t \<notin> set xs \<Longrightarrow> h t = Some it \<Longrightarrow>
     dseg (h(t \<mapsto> it\<lparr>it_next := e'\<rparr>)) q p (xs @ [t]) e'"
  by (auto simp: dseg_append)

lemma dseg_first_relink:
  "dseg h q p (a # xs) e \<Longrightarrow> a \<notin> set xs \<Longrightarrow> h a = Some it \<Longrightarrow>
     dseg (h(a \<mapsto> it\<lparr>it_prev := q'\<rparr>)) q' p (a # xs) e"
  by auto

lemma bano_list_init_dll: "dll h bano_list_init []"
  by (simp add: dll_def bano_list_init_def)

lemma bano_list_add_tail_oom:
  "malloc ms = (0, ms') \<Longrightarrow> bano_list_add_tail ms l p h = Some (Err, ms', l, h)"
  by (simp add: bano_list_add_tail_def alloc_item_def)

lemma bano_list_add_tail_dll:
  assumes l: "dll h l xs" and m: "malloc ms = (i, ms')" "i \<noteq> 0" and f: "h i = None"
  obtains l' h' where "bano_list_add_tail ms l p h = Some (Ok, ms', l', h')"
    "dll h' l' (xs @ [i])" "items h' (xs @ [i]) = items h xs @ [(i, p)]"
    "\<And>a. a \<notin> set (xs @ [i]) \<Longrightarrow> h' a = h a"
proof -
  have new: "i \<notin> set xs" using dll_alloc [OF l] f by blast
  show thesis
  proof (cases xs rule: rev_cases)
    case Nil
    with l have "l_head l = 0" "l_tail l = 0" by (auto simp: dll_def)
    with m Nil show thesis
      by (intro that [of "\<lparr>l_head = i, l_tail = i\<rparr>"
            "h(i \<mapsto> \<lparr>it_data = p, it_next = 0, it_prev = 0\<rparr>)"])
        (auto simp: bano_list_add_tail_def alloc_item_def dll_def)
  next
    case (snoc ys t)
    let ?h1 = "h(i \<mapsto> \<lparr>it_data = p, it_next = 0, it_prev = t\<rparr>)"
    from l snoc have t: "l_tail l = t" "t \<notin> set ys" by (auto simp: dll_def)
    from dll_alloc [OF l, of t] snoc obtain it where it: "h t = Some it" "t \<noteq> 0" by auto
    from new snoc have ti: "t \<noteq> i" by auto
    let ?h2 = "?h1(t \<mapsto> it\<lparr>it_next := i\<rparr>)"
    have "dseg ?h1 0 (l_head l) (ys @ [t]) 0" using l snoc new by (simp add: dll_def)
    then have seg: "dseg ?h2 0 (l_head l) (ys @ [t]) i"
      using dseg_last_relink [of ?h1 0 "l_head l" ys t 0 it i] t it ti by simp
    have "dll ?h2 (l\<lparr>l_tail := i\<rparr>) (xs @ [i])"
      using seg l snoc new ti m(2) by (auto simp: dll_def dseg_append)
    moreover have "items ?h2 (xs @ [i]) = items h xs @ [(i, p)]"
      using new ti it by (auto simp: items_def)
    ultimately show thesis
      using m t it ti snoc
      by (intro that [of "l\<lparr>l_tail := i\<rparr>" ?h2])
        (auto simp: bano_list_add_tail_def alloc_item_def)
  qed
qed

lemma bano_list_add_head_dll:
  assumes l: "dll h l xs" and m: "malloc ms = (i, ms')" "i \<noteq> 0" and f: "h i = None"
  obtains l' h' where "bano_list_add_head ms l p h = Some (Ok, ms', l', h')"
    "dll h' l' (i # xs)" "items h' (i # xs) = (i, p) # items h xs"
proof -
  have new: "i \<notin> set xs" using dll_alloc [OF l] f by blast
  show thesis
  proof (cases xs)
    case Nil
    with l have "l_head l = 0" "l_tail l = 0" by (auto simp: dll_def)
    with m Nil show thesis
      by (intro that [of "\<lparr>l_head = i, l_tail = i\<rparr>"
            "h(i \<mapsto> \<lparr>it_data = p, it_next = 0, it_prev = 0\<rparr>)"])
        (auto simp: bano_list_add_head_def alloc_item_def dll_def)
  next
    case (Cons x ys)
    let ?h1 = "h(i \<mapsto> \<lparr>it_data = p, it_next = x, it_prev = 0\<rparr>)"
    from l Cons have hd: "l_head l = x" "x \<notin> set ys" by (auto simp: dll_def)
    from dll_alloc [OF l, of x] Cons obtain it where it: "h x = Some it" "x \<noteq> 0" by auto
    from new Cons have xi: "x \<noteq> i" by auto
    let ?h2 = "?h1(x \<mapsto> it\<lparr>it_prev := i\<rparr>)"
    have "dseg ?h1 0 x (x # ys) 0" using l Cons new by (auto simp: dll_def)
    then have seg: "dseg ?h2 i x (x # ys) 0"
      using dseg_first_relink [of ?h1 0 x x ys 0 it i] hd it xi by simp
    have "dll ?h2 (l\<lparr>l_head := i\<rparr>) (i # xs)"
      using seg l Cons new xi m(2) by (auto simp: dll_def)
    moreover have "items ?h2 (i # xs) = (i, p) # items h xs"
      using new xi it by (auto simp: items_def)
    ultimately show thesis
      using m hd it xi Cons
      by (intro that [of "l\<lparr>l_head := i\<rparr>" ?h2])
        (auto simp: bano_list_add_head_def alloc_item_def)
  qed
qed

lemma bano_list_del_dll:
  assumes l: "dll h l xs" and i: "i \<in> set xs"
  obtains l' h' where "bano_list_del l i h = Some (l', h')" "dll h' l' (remove1 i xs)"
    "items h' (remove1 i xs) = filter (\<lambda>x. fst x \<noteq> i) (items h xs)" "h' i = None"
    "\<And>a. a \<notin> set xs \<Longrightarrow> h' a = h a" "\<And>a. h a = None \<Longrightarrow> h' a = None"
proof -
  from i obtain ys zs where xs: "xs = ys @ i # zs" by (auto simp: in_set_conv_decomp)
  from l xs have d: "i \<notin> set ys" "i \<notin> set zs" "distinct ys" "distinct zs" "set ys \<inter> set zs = {}"
    by (auto simp: dll_def)
  from l xs obtain it where it: "h i = Some it" "i \<noteq> 0" "it_prev it = last_or 0 ys"
    and segs: "dseg h 0 (l_head l) ys i" "dseg h i (it_next it) zs 0"
    by (auto simp: dll_def dseg_append)
  have ys0: "last_or 0 ys = 0 \<longleftrightarrow> ys = []"
    using dll_alloc [OF l] xs by (cases ys rule: rev_cases) auto
  have zs0: "it_next it = 0 \<longleftrightarrow> zs = []" using segs(2) by (cases zs) auto
  define h1 where "h1 = (if ys = [] then h
    else h(last ys \<mapsto> (the (h (last ys)))\<lparr>it_next := it_next it\<rparr>))"
  define h2 where "h2 = (if zs = [] then h1
    else h1(hd zs \<mapsto> (the (h (hd zs)))\<lparr>it_prev := last_or 0 ys\<rparr>))"
  define l' where "l' = \<lparr>l_head = (if ys = [] then it_next it else l_head l),
    l_tail = (if zs = [] then last_or 0 ys else l_tail l)\<rparr>"
  have al: "ys \<noteq> [] \<Longrightarrow> h (last ys) \<noteq> None" "zs \<noteq> [] \<Longrightarrow> h (hd zs) \<noteq> None"
    using dll_alloc [OF l] xs by auto
  have ne: "ys \<noteq> [] \<Longrightarrow> last ys \<noteq> i" "zs \<noteq> [] \<Longrightarrow> hd zs \<noteq> i"
      "ys \<noteq> [] \<Longrightarrow> zs \<noteq> [] \<Longrightarrow> last ys \<noteq> hd zs"
    using d by (auto dest: last_in_set hd_in_set)
  have hz: "zs \<noteq> [] \<Longrightarrow> it_next it = hd zs" using segs(2) by (cases zs) auto
  have run: "bano_list_del l i h = Some (l', h2(i := None))"
    using it ys0 zs0 al ne hz
    by (cases "ys = []"; cases "zs = []")
      (auto simp: bano_list_del_def h1_def h2_def l'_def last_or_def)
  have seg1: "dseg h1 0 (if ys = [] then it_next it else l_head l) ys (it_next it)"
  proof (cases ys rule: rev_cases)
    case (snoc y t)
    then show ?thesis
      using dseg_last_relink [of h 0 "l_head l" y t i _ "it_next it"] segs(1) d al
      by (auto simp: h1_def)
  qed (simp add: h1_def)
  have seg1': "dseg h2 0 (if ys = [] then it_next it else l_head l) ys (it_next it)"
    using seg1 d by (cases zs) (auto simp: h2_def)
  have z1: "dseg h1 i (it_next it) zs 0"
    using segs(2) d by (cases ys rule: rev_cases) (auto simp: h1_def)
  have seg2: "dseg h2 (last_or 0 ys) (it_next it) zs 0"
  proof (cases zs)
    case (Cons z zt)
    then have "h1 z = Some (the (h z))" using al(2) ne(3) by (auto simp: h1_def)
    with Cons show ?thesis
      using dseg_first_relink [of h1 i "it_next it" z zt 0 "the (h z)" "last_or 0 ys"] z1 d
      by (simp add: h2_def)
  qed (use z1 in simp)
  have rem: "remove1 i xs = ys @ zs" using xs d by (simp add: remove1_append)
  have A: "dll (h2(i := None)) l' (ys @ zs)"
    unfolding dll_def dseg_append
    using seg1' seg2 d l xs by (auto simp: l'_def dll_def last_or_def split: if_splits)
  have B: "items (h2(i := None)) (ys @ zs) = filter (\<lambda>x. fst x \<noteq> i) (items h xs)"
  proof -
    have same: "\<And>a. a \<in> set (ys @ zs) \<Longrightarrow> it_data (the (h2 a)) = it_data (the (h a))"
      using al ne by (auto simp: h2_def h1_def)
    have "items (h2(i := None)) (ys @ zs) = items h (ys @ zs)"
      using d same by (auto simp: items_def)
    moreover have "filter (\<lambda>x. x \<noteq> i) ys = ys" "filter (\<lambda>x. x \<noteq> i) zs = zs"
      using d by (auto intro!: filter_True)
    then have "items h (ys @ zs) = filter (\<lambda>x. fst x \<noteq> i) (items h xs)"
      using xs by (simp add: items_def filter_map comp_def)
    ultimately show ?thesis by simp
  qed
  have keep: "h2 a = h a" if "ys \<noteq> [] \<Longrightarrow> a \<noteq> last ys" "zs \<noteq> [] \<Longrightarrow> a \<noteq> hd zs" for a
    using that by (simp add: h1_def h2_def)
  have C: "h2 a = h a" if "a \<notin> set xs" for a
    using that xs by (intro keep) auto
  have D: "h2 a = None" if "h a = None" for a
    using that keep [of a] al by fastforce
  show thesis
  proof (rule that [of l' "h2(i := None)"])
    show "bano_list_del l i h = Some (l', h2(i := None))" by (rule run)
    show "dll (h2(i := None)) l' (remove1 i xs)" using A by (simp only: rem)
    show "items (h2(i := None)) (remove1 i xs) = filter (\<lambda>x. fst x \<noteq> i) (items h xs)"
      using B by (simp only: rem)
    show "(h2(i := None)) i = None" by simp
    show "\<And>a. a \<notin> set xs \<Longrightarrow> (h2(i := None)) a = h a" using C i by auto
    show "\<And>a. h a = None \<Longrightarrow> (h2(i := None)) a = None" using D by simp
  qed
qed

text \<open>
  \<open>bano_list_add_before\<close> at the head keeps the list well linked. Anywhere else it links the
  new item forward, but never sets its \<open>prev\<close> field, which \<open>alloc_item\<close> left \<open>NULL\<close>.
\<close>

lemma bano_list_add_before_head_dll:
  assumes l: "dll h l (x # xs)" and m: "malloc ms = (i, ms')" "i \<noteq> 0" and f: "h i = None"
  obtains l' h' where "bano_list_add_before ms l x p h = Some (Ok, ms', l', h')"
    "dll h' l' (i # x # xs)" "items h' (i # x # xs) = (i, p) # items h (x # xs)"
    "\<And>a. a \<notin> {i, x} \<Longrightarrow> h' a = h a"
proof -
  have new: "i \<notin> set (x # xs)" using dll_alloc [OF l] f by blast
  from l obtain it where x: "l_head l = x" "x \<notin> set xs" "h x = Some it" "x \<noteq> 0"
    by (auto simp: dll_def)
  let ?h1 = "h(i \<mapsto> \<lparr>it_data = p, it_next = x, it_prev = 0\<rparr>)"
  let ?h2 = "?h1(x \<mapsto> it\<lparr>it_prev := i\<rparr>)"
  have "dseg ?h1 0 x (x # xs) 0" using l new by (auto simp: dll_def)
  then have "dseg ?h2 i x (x # xs) 0"
    using dseg_first_relink [of ?h1 0 x x xs 0 it i] x new by simp
  then have "dll ?h2 (l\<lparr>l_head := i\<rparr>) (i # x # xs)"
    using l new m(2) by (auto simp: dll_def)
  moreover have "items ?h2 (i # x # xs) = (i, p) # items h (x # xs)"
    using new x by (auto simp: items_def)
  ultimately show thesis
    using m x new by (intro that [of "l\<lparr>l_head := i\<rparr>" ?h2])
      (auto simp: bano_list_add_before_def alloc_item_def)
qed

lemma bano_list_add_before_mid:
  assumes l: "dll h l (ys @ x # zs)" and ys: "ys \<noteq> []" and m: "malloc ms = (i, ms')" "i \<noteq> 0"
    and f: "h i = None"
  obtains h' where "bano_list_add_before ms l x p h = Some (Ok, ms', l, h')"
    "fll h' l (ys @ i # x # zs)"
    "items h' (ys @ i # x # zs) = items h ys @ (i, p) # items h (x # zs)"
    "h' i = Some \<lparr>it_data = p, it_next = x, it_prev = 0\<rparr>"
    "\<And>a. a \<notin> {i, x, last ys} \<Longrightarrow> h' a = h a"
    "\<exists>it. h' x = Some it \<and> it_prev it = i" "l_tail l = last (x # zs)"
proof -
  have new: "i \<notin> set (ys @ x # zs)" using dll_alloc [OF l] f by blast
  obtain vs t where ys': "ys = vs @ [t]" using ys by (cases ys rule: rev_cases) auto
  from l ys' obtain it where x: "h x = Some it" "x \<noteq> 0" "it_prev it = t"
      "dseg h 0 (l_head l) (vs @ [t]) x" "dseg h x (it_next it) zs 0"
    by (auto simp: dll_def dseg_append)
  from l ys' have d: "x \<notin> set ys" "x \<notin> set zs" "t \<notin> set vs" "t \<notin> set zs" "distinct (ys @ x # zs)"
    by (auto simp: dll_def)
  obtain itt where t: "h t = Some itt" using dll_alloc [OF l, of t] ys' by auto
  have hd: "x \<noteq> l_head l" using x(4) d by (cases vs) (auto simp: ys')
  let ?h1 = "h(i \<mapsto> \<lparr>it_data = p, it_next = x, it_prev = 0\<rparr>)"
  let ?h2 = "?h1(t \<mapsto> itt\<lparr>it_next := i\<rparr>)"
  let ?h3 = "?h2(x \<mapsto> it\<lparr>it_prev := i\<rparr>)"
  have tx: "t \<noteq> i" "t \<noteq> x" "x \<noteq> i" using new d ys' by auto
  have "dseg ?h1 0 (l_head l) (vs @ [t]) x" using x(4) new ys' by simp
  then have "dseg ?h2 0 (l_head l) ys i"
    using dseg_last_relink [of ?h1 0 "l_head l" vs t x itt i] t d tx ys' by simp
  then have "fseg ?h3 (l_head l) ys i" using d by (auto dest: dseg_fseg)
  moreover have "fseg ?h3 i (i # x # zs) 0"
    using x(2,5) tx d new m(2) by (auto dest: dseg_fseg)
  ultimately have "fll ?h3 l (ys @ i # x # zs)"
    using new d by (auto simp: fll_def fseg_append)
  moreover have "items ?h3 (ys @ i # x # zs) = items h ys @ (i, p) # items h (x # zs)"
    using new t x tx by (auto simp: items_def)
  moreover have "bano_list_add_before ms l x p h = Some (Ok, ms', l, ?h3)"
    using m hd x(1,3) t tx
    by (auto simp: bano_list_add_before_def alloc_item_def fun_upd_twist)
  ultimately show thesis
    using tx ys' l by (intro that [of ?h3]) (auto simp: dll_def last_or_def)
qed

lemma bano_list_add_before_any:
  assumes l: "dll h l (ys @ x # zs)" and m: "malloc ms = (i, ms')" "i \<noteq> 0" and f: "h i = None"
  obtains l' h' where "bano_list_add_before ms l x p h = Some (Ok, ms', l', h')"
    "fll h' l' (ys @ i # x # zs)"
    "items h' (ys @ i # x # zs) = items h ys @ (i, p) # items h (x # zs)"
    "\<exists>it. h' x = Some it \<and> it_prev it = i" "ys = [] \<Longrightarrow> dll h' l' (i # x # zs)"
proof (cases "ys = []")
  case True
  with l have l0: "dll h l (x # zs)" by simp
  obtain l' h' where *: "bano_list_add_before ms l x p h = Some (Ok, ms', l', h')"
      "dll h' l' (i # x # zs)" "items h' (i # x # zs) = (i, p) # items h (x # zs)"
    by (rule bano_list_add_before_head_dll [OF l0 m f, of p]) blast
  show thesis
  proof (rule that [OF *(1)])
    show "fll h' l' (ys @ i # x # zs)" using dll_fll [OF *(2)] True by simp
    show "items h' (ys @ i # x # zs) = items h ys @ (i, p) # items h (x # zs)"
      using *(3) True by simp
    show "\<exists>it. h' x = Some it \<and> it_prev it = i" using *(2) by (auto simp: dll_def)
    show "dll h' l' (i # x # zs)" by (rule *(2))
  qed
next
  case False
  show thesis
    by (rule bano_list_add_before_mid [OF l False m f, of p]) (rule that, assumption+, simp add: False)
qed

lemma items_same_data:
  "items h' xs = items h xs \<Longrightarrow> a \<in> set xs \<Longrightarrow> it_data (the (h' a)) = it_data (the (h a))"
  by (auto simp: items_def)

text \<open>
  Two consequences of the missing \<open>prev\<close>. Deleting an item inserted in the middle takes it
  for the head: every item before it is lost. Inserting before such an item writes through
  \<open>NULL\<close>.
\<close>

lemma add_before_mid_del_loses_prefix:
  assumes l: "dll h l (ys @ x # zs)" and ys: "ys \<noteq> []" and m: "malloc ms = (i, ms')" "i \<noteq> 0"
    and f: "h i = None"
  obtains h' l'' h'' where "bano_list_add_before ms l x p h = Some (Ok, ms', l, h')"
    "bano_list_del l i h' = Some (l'', h'')" "dll h'' l'' (x # zs)"
proof -
  obtain h' where h': "bano_list_add_before ms l x p h = Some (Ok, ms', l, h')"
      "fll h' l (ys @ i # x # zs)" "h' i = Some \<lparr>it_data = p, it_next = x, it_prev = 0\<rparr>"
      "\<And>a. a \<notin> {i, x, last ys} \<Longrightarrow> h' a = h a"
      "\<exists>it. h' x = Some it \<and> it_prev it = i" "l_tail l = last (x # zs)"
    by (rule bano_list_add_before_mid [OF l ys m f, of p]) blast
  then obtain itx where itx: "h' x = Some itx" "it_prev itx = i" by blast
  from l have d: "x \<notin> set zs" "x \<noteq> 0" "distinct (ys @ x # zs)" by (auto simp: dll_def dseg_append)
  have new: "i \<notin> set (ys @ x # zs)" using dll_alloc [OF l] f by blast
  let ?l = "l\<lparr>l_head := x\<rparr>" and ?h = "(h'(x \<mapsto> itx\<lparr>it_prev := 0\<rparr>))(i := None)"
  from l obtain it where "h x = Some it" "dseg h x (it_next it) zs 0"
    by (auto simp: dll_def dseg_append)
  moreover have "fseg h' (it_next itx) zs 0" using h'(2) itx by (auto simp: fll_def fseg_append)
  moreover have same: "\<And>a. a \<in> set zs \<Longrightarrow> h' a = h a"
    using d new ys h'(4) by (metis Un_iff disjoint_iff distinct_append empty_iff insert_iff
        last_in_set list.set_intros(2) set_append)
  ultimately have "dseg h' x (it_next itx) zs 0"
  proof -
    assume a: "dseg h x (it_next it) zs 0" "fseg h' (it_next itx) zs 0"
    have eq: "\<And>q p e. dseg h q p zs e \<Longrightarrow> dseg h' q p zs e"
      using same by (induction zs) auto
    have "it_next it = it_next itx" using a by (cases zs) auto
    with a(1) eq show ?thesis by simp
  qed
  then have "dll ?h ?l (x # zs)"
    using d new h'(6) by (auto simp: dll_def last_or_def)
  moreover have "bano_list_del l i h' = Some (?l, ?h)"
    using h'(3) itx d new by (auto simp: bano_list_del_def)
  ultimately show thesis using that h'(1) by blast
qed

lemma add_before_mid_item_faults:
  assumes "h i = Some \<lparr>it_data = p, it_next = x, it_prev = 0\<rparr>" and "i \<noteq> l_head l"
    and "malloc ms = (j, ms')" "j \<noteq> 0" "h j = None" "h 0 = None"
  shows "bano_list_add_before ms l i q h = None"
  using assms by (auto simp: bano_list_add_before_def alloc_item_def set_next_def split: option.splits)

section \<open>The walks on linked lists\<close>

text \<open>
  A visitor may change anything but the items it has not reached yet; in particular it may
  unlink and free the item it is given.
\<close>

lemma bano_list_foreach_at_spec:
  assumes "fseg h p xs 0" "distinct xs"
    and f: "\<And>a h s. a \<in> set xs \<Longrightarrow> f a (h, s) = Some (g a (h, s))"
    and frame: "\<And>a b h s. a \<in> set xs \<Longrightarrow> b \<in> set xs \<Longrightarrow> b \<noteq> a \<Longrightarrow> fst (snd (g a (h, s))) b = h b"
  shows "bano_list_foreach_at f p (h, s) = Some (foreach_until g xs (h, s))"
  using assms
proof (induction xs arbitrary: p h s)
  case Nil
  then show ?case by (simp add: bano_list_foreach_at.simps)
next
  case (Cons x xs)
  from Cons.prems(1) obtain it where x: "p = x" "x \<noteq> 0" "h x = Some it" "fseg h (it_next it) xs 0"
    by auto
  obtain stop h' s' where g: "g x (h, s) = (stop, h', s')" by (cases "g x (h, s)") auto
  have same: "\<And>b. b \<in> set xs \<Longrightarrow> h' b = h b"
    using Cons.prems(2) Cons.prems(4) [of x _ h s] g by fastforce
  have "\<And>p. fseg h p xs 0 \<Longrightarrow> fseg h' p xs 0"
    using same by (induction xs) auto
  with x have "bano_list_foreach_at f (it_next it) (h', s') = Some (foreach_until g xs (h', s'))"
    using Cons.prems by (intro Cons.IH) auto
  with x g show ?case
    using Cons.prems(3) [of x h s] by (subst bano_list_foreach_at.simps) auto
qed

lemma bano_list_foreach_spec:
  assumes "fll h l xs"
    and "\<And>a h s. a \<in> set xs \<Longrightarrow> f a (h, s) = Some (g a (h, s))"
    and "\<And>a b h s. a \<in> set xs \<Longrightarrow> b \<in> set xs \<Longrightarrow> b \<noteq> a \<Longrightarrow> fst (snd (g a (h, s))) b = h b"
  shows "bano_list_foreach l f (h, s) = Some (foreach_until g xs (h, s))"
  using assms by (simp add: bano_list_foreach_def fll_def bano_list_foreach_at_spec)

lemma list_find_at_spec:
  "fseg h p xs 0 \<Longrightarrow>
     list_find_at h f p = Some (case find f xs of None \<Rightarrow> (Err, 0) | Some a \<Rightarrow> (Ok, a))"
proof (induction xs arbitrary: p)
  case Nil
  then show ?case by (simp add: list_find_at.simps)
next
  case (Cons x xs)
  then show ?case by (subst list_find_at.simps) auto
qed

lemma bano_list_find_spec:
  "fll h l xs \<Longrightarrow>
     bano_list_find h l f = Some (case find f xs of None \<Rightarrow> (Err, 0) | Some a \<Rightarrow> (Ok, a))"
  by (simp add: bano_list_find_def fll_def list_find_at_spec)

text \<open>\<open>bano_list_fini\<close> calls the callback once per item, in order, and frees all of them.\<close>

lemma list_fini_at_spec:
  assumes "fseg h p xs 0" "distinct xs"
    and f: "\<And>a h s. a \<in> set xs \<Longrightarrow> h a \<noteq> None \<Longrightarrow> f a (h, s) = Some (h, g a s)"
  shows "list_fini_at f p (h, s) = Some (\<lambda>a. if a \<in> set xs then None else h a, fold g xs s)"
  using assms
proof (induction xs arbitrary: p h s)
  case Nil
  then show ?case by (simp add: list_fini_at.simps)
next
  case (Cons x xs)
  from Cons.prems(1) obtain it where x: "p = x" "x \<noteq> 0" "h x = Some it" "fseg h (it_next it) xs 0"
    by auto
  from Cons.prems x have "list_fini_at f (it_next it) (h(x := None), g x s) =
      Some (\<lambda>a. if a \<in> set xs then None else (h(x := None)) a, fold g xs (g x s))"
    by (intro Cons.IH [of "h(x := None)"]) (simp_all del: fun_upd_apply)
  moreover have "(\<lambda>a. if a \<in> set xs then None else (h(x := None)) a) =
      (\<lambda>a. if a \<in> set (x # xs) then None else h a)"
    by auto
  ultimately show ?case using x Cons.prems(3) [of x h s] by (subst list_fini_at.simps) auto
qed

lemma bano_list_fini_spec:
  assumes "fll h l xs"
    and "\<And>a h s. a \<in> set xs \<Longrightarrow> h a \<noteq> None \<Longrightarrow> f a (h, s) = Some (h, g a s)"
  shows "bano_list_fini l f (h, s) =
     Some (bano_list_init, \<lambda>a. if a \<in> set xs then None else h a, fold g xs s)"
  using assms list_fini_at_spec [of h "l_head l" xs f g s]
  by (simp add: bano_list_fini_def bano_list_init_def fll_def)

section \<open>Lists as sequences of items\<close>

text \<open>
  What the rest of the program sees of a list: a sequence of items, each an address and the
  data it holds. Deleting an item that is not in the sequence has no meaning.
\<close>

definition seq_add_tail :: "mallocs \<Rightarrow> 'd \<Rightarrow> 'd items \<Rightarrow> rc \<times> mallocs \<times> 'd items" where
  "seq_add_tail ms d xs =
     (case malloc ms of (a, ms') \<Rightarrow> if a = 0 then (Err, ms', xs) else (Ok, ms', xs @ [(a, d)]))"

definition seq_del :: "addr \<Rightarrow> 'd items \<Rightarrow> 'd items" where
  "seq_del a xs = filter (\<lambda>x. fst x \<noteq> a) xs"

lemma seq_del_simps [simp]:
  "seq_del a [] = []" "seq_del a ((b, d) # xs) = (if b = a then seq_del a xs else (b, d) # seq_del a xs)"
  "seq_del a (xs @ ys) = seq_del a xs @ seq_del a ys"
  by (simp_all add: seq_del_def)

lemma seq_del_absent [simp]: "a \<notin> fst ` set xs \<Longrightarrow> seq_del a xs = xs"
  by (induction xs) auto

lemma set_seq_del [simp]: "set (seq_del a xs) = {x \<in> set xs. fst x \<noteq> a}"
  by (simp add: seq_del_def)

lemma distinct_seq_del: "distinct (map fst xs) \<Longrightarrow> distinct (map fst (seq_del a xs))"
  by (induction xs) (auto simp: seq_del_def)

datatype 'd seq_op = Push 'd | Drop addr

fun seq_run :: "(mallocs \<Rightarrow> 'd \<Rightarrow> 's \<Rightarrow> (rc \<times> mallocs \<times> 's) option) \<Rightarrow> (addr \<Rightarrow> 's \<Rightarrow> 's option)
    \<Rightarrow> 'd seq_op list \<Rightarrow> mallocs \<Rightarrow> 's \<Rightarrow> (mallocs \<times> 's) option" where
  "seq_run add del [] ms s = Some (ms, s)"
| "seq_run add del (Push d # ops) ms s =
     Option.bind (add ms d s) (\<lambda>(r, ms', s'). seq_run add del ops ms' s')"
| "seq_run add del (Drop a # ops) ms s =
     Option.bind (del a s) (\<lambda>s'. seq_run add del ops ms s')"

definition items_del :: "addr \<Rightarrow> 'd items \<Rightarrow> 'd items option" where
  "items_del a xs = (if a \<in> fst ` set xs then Some (seq_del a xs) else None)"

definition items_run :: "'d seq_op list \<Rightarrow> mallocs \<Rightarrow> 'd items \<Rightarrow> (mallocs \<times> 'd items) option" where
  "items_run = seq_run (\<lambda>ms d xs. Some (seq_add_tail ms d xs)) items_del"

text \<open>
  The interface: \<open>repr s xs\<close> says that the state \<open>s\<close> holds the items \<open>xs\<close>, \<open>fresh a s\<close>
  that \<open>malloc\<close> may return \<open>a\<close>.
\<close>

locale item_seq =
  fixes repr :: "'s \<Rightarrow> 'd items \<Rightarrow> bool"
    and fresh :: "addr \<Rightarrow> 's \<Rightarrow> bool"
    and add :: "mallocs \<Rightarrow> 'd \<Rightarrow> 's \<Rightarrow> (rc \<times> mallocs \<times> 's) option"
    and del :: "addr \<Rightarrow> 's \<Rightarrow> 's option"
  assumes add_ok: "repr s xs \<Longrightarrow> malloc ms = (a, ms') \<Longrightarrow> a \<noteq> 0 \<Longrightarrow> fresh a s \<Longrightarrow>
      \<exists>s'. add ms d s = Some (Ok, ms', s') \<and> repr s' (xs @ [(a, d)])
        \<and> (\<forall>b. b \<noteq> a \<longrightarrow> fresh b s \<longrightarrow> fresh b s')"
    and add_oom: "repr s xs \<Longrightarrow> malloc ms = (0, ms') \<Longrightarrow> add ms d s = Some (Err, ms', s)"
    and del_ok: "repr s xs \<Longrightarrow> a \<in> fst ` set xs \<Longrightarrow>
      \<exists>s'. del a s = Some s' \<and> repr s' (seq_del a xs) \<and> (\<forall>b. fresh b s \<longrightarrow> fresh b s')"
begin

lemma add_repr:
  assumes "repr s xs" "\<And>a ms'. malloc ms = (a, ms') \<Longrightarrow> a \<noteq> 0 \<Longrightarrow> fresh a s"
  obtains r ms' xs' s' where "seq_add_tail ms d xs = (r, ms', xs')"
    "add ms d s = Some (r, ms', s')" "repr s' xs'"
    "\<And>b. b \<noteq> fst (malloc ms) \<Longrightarrow> fresh b s \<Longrightarrow> fresh b s'"
proof (cases "malloc ms")
  case (Pair a ms')
  show thesis
  proof (cases "a = 0")
    case True
    with Pair assms(1) add_oom [of s xs ms ms' d] show thesis
      by (intro that) (auto simp: seq_add_tail_def)
  next
    case False
    with Pair assms add_ok [of s xs ms a ms' d] obtain s' where
      "add ms d s = Some (Ok, ms', s')" "repr s' (xs @ [(a, d)])"
      "\<forall>b. b \<noteq> a \<longrightarrow> fresh b s \<longrightarrow> fresh b s'" by blast
    with Pair False show thesis
      by (intro that [of Ok ms' "xs @ [(a, d)]" s']) (auto simp: seq_add_tail_def)
  qed
qed

lemma run_refines:
  assumes "repr s xs" "items_run ops ms xs = Some (ms', xs')"
    and "distinct (filter (\<lambda>a. a \<noteq> 0) ms)" "\<And>a. a \<in> set ms \<Longrightarrow> a \<noteq> 0 \<Longrightarrow> fresh a s"
  shows "\<exists>s'. seq_run add del ops ms s = Some (ms', s') \<and> repr s' xs'"
  using assms
proof (induction ops arbitrary: ms s xs)
  case Nil
  then show ?case by (auto simp: items_run_def)
next
  case (Cons op ops)
  show ?case
  proof (cases op)
    case (Push d)
    have fr: "\<And>a m. malloc ms = (a, m) \<Longrightarrow> a \<noteq> 0 \<Longrightarrow> fresh a s"
      using Cons.prems(4) by (cases ms) auto
    obtain r m1 xs1 s1 where 1: "seq_add_tail ms d xs = (r, m1, xs1)"
        "add ms d s = Some (r, m1, s1)" "repr s1 xs1"
        "\<And>b. b \<noteq> fst (malloc ms) \<Longrightarrow> fresh b s \<Longrightarrow> fresh b s1"
      by (rule add_repr [OF Cons.prems(1) fr]) blast+
    have m1: "distinct (filter (\<lambda>a. a \<noteq> 0) m1)" "\<And>a. a \<in> set m1 \<Longrightarrow> a \<noteq> 0 \<Longrightarrow> fresh a s1"
      using 1(1,4) Cons.prems(3,4)
      by (cases ms; fastforce simp: seq_add_tail_def split: if_splits)+
    have "items_run ops m1 xs1 = Some (ms', xs')"
      using Cons.prems(2) 1(1) Push by (simp add: items_run_def)
    then have "\<exists>s'. seq_run add del ops m1 s1 = Some (ms', s') \<and> repr s' xs'"
      by (rule Cons.IH [OF 1(3) _ m1])
    with Push 1 show ?thesis by simp
  next
    case (Drop a)
    with Cons.prems(2) have a: "a \<in> fst ` set xs" "items_run ops ms (seq_del a xs) = Some (ms', xs')"
      by (auto simp: items_run_def items_del_def split: if_splits)
    with del_ok [OF Cons.prems(1) a(1)] obtain s1 where
      s1: "del a s = Some s1" "repr s1 (seq_del a xs)" "\<forall>b. fresh b s \<longrightarrow> fresh b s1" by blast
    then have "\<exists>s'. seq_run add del ops ms s1 = Some (ms', s') \<and> repr s' xs'"
      using a Cons.prems by (intro Cons.IH) auto
    with Drop s1 show ?thesis by simp
  qed
qed

end

text \<open>The heap lists of \<open>bano_list.c\<close> provide the interface.\<close>

definition list_repr :: "blist \<times> 'd heap \<Rightarrow> 'd items \<Rightarrow> bool" where
  "list_repr s xs \<longleftrightarrow> dll (snd s) (fst s) (map fst xs) \<and> items (snd s) (map fst xs) = xs"

definition list_push :: "mallocs \<Rightarrow> 'd \<Rightarrow> blist \<times> 'd heap \<Rightarrow> (rc \<times> mallocs \<times> blist \<times> 'd heap) option" where
  "list_push ms d s = bano_list_add_tail ms (fst s) d (snd s)"

definition list_drop :: "addr \<Rightarrow> blist \<times> 'd heap \<Rightarrow> (blist \<times> 'd heap) option" where
  "list_drop a s = bano_list_del (fst s) a (snd s)"

interpretation heap_list: item_seq list_repr "\<lambda>a s. snd s a = None" list_push list_drop
proof unfold_locales
  fix s :: "blist \<times> 'd heap" and xs :: "'d items" and ms a ms' and d :: 'd
  assume r: "list_repr s xs" and m: "malloc ms = (a, ms')" "a \<noteq> 0" and f: "snd s a = None"
  from r have dl: "dll (snd s) (fst s) (map fst xs)" "items (snd s) (map fst xs) = xs"
    by (auto simp: list_repr_def)
  obtain l' h' where *: "bano_list_add_tail ms (fst s) d (snd s) = Some (Ok, ms', l', h')"
      "dll h' l' (map fst xs @ [a])" "items h' (map fst xs @ [a]) = items (snd s) (map fst xs) @ [(a, d)]"
      "\<And>b. b \<notin> set (map fst xs @ [a]) \<Longrightarrow> h' b = snd s b"
    by (rule bano_list_add_tail_dll [OF dl(1) m f, of d]) blast
  have "b \<notin> set (map fst xs)" if "snd s b = None" for b
    using dll_alloc [OF dl(1)] that by blast
  with * dl show "\<exists>s'. list_push ms d s = Some (Ok, ms', s') \<and> list_repr s' (xs @ [(a, d)])
      \<and> (\<forall>b. b \<noteq> a \<longrightarrow> snd s b = None \<longrightarrow> snd s' b = None)"
    by (intro exI [of _ "(l', h')"]) (auto simp: list_push_def list_repr_def)
next
  fix s :: "blist \<times> 'd heap" and xs :: "'d items" and ms ms' and d :: 'd
  assume "malloc ms = (0, ms')"
  then show "list_push ms d s = Some (Err, ms', s)"
    by (simp add: list_push_def bano_list_add_tail_oom)
next
  fix s :: "blist \<times> 'd heap" and xs :: "'d items" and a
  assume r: "list_repr s xs" and a: "a \<in> fst ` set xs"
  from r have dl: "dll (snd s) (fst s) (map fst xs)" "items (snd s) (map fst xs) = xs"
    by (auto simp: list_repr_def)
  have a': "a \<in> set (map fst xs)" using a by simp
  obtain l' h' where *: "bano_list_del (fst s) a (snd s) = Some (l', h')"
      "dll h' l' (remove1 a (map fst xs))"
      "items h' (remove1 a (map fst xs)) = filter (\<lambda>x. fst x \<noteq> a) (items (snd s) (map fst xs))"
      "\<And>b. snd s b = None \<Longrightarrow> h' b = None"
    by (rule bano_list_del_dll [OF dl(1) a']) blast
  have "map fst (seq_del a xs) = remove1 a (map fst xs)"
    using *(3) dl(2) by (metis map_fst_items seq_del_def)
  with * dl(2) show "\<exists>s'. list_drop a s = Some s' \<and> list_repr s' (seq_del a xs)
      \<and> (\<forall>b. snd s b = None \<longrightarrow> snd s' b = None)"
    by (intro exI [of _ "(l', h')"]) (auto simp: list_drop_def list_repr_def seq_del_def)
qed

lemma list_repr_init: "list_repr (bano_list_init, h) []"
  by (simp add: list_repr_def bano_list_init_dll)

section \<open>Walking a list while its items come and go\<close>

text \<open>
  \<open>bano_list_foreach\<close> on a list that lives in a larger state: the next item is read before
  the visitor runs, and the visitor may delete its own item or append others. \<open>get\<close> reads the
  list (\<open>None\<close> when its owner is gone); continuing at an item that has been deleted is a
  fault, and a walk that never ends has no result.
\<close>

fun item_next :: "addr \<Rightarrow> 'd items \<Rightarrow> ('d \<times> addr) option" where
  "item_next a [] = None"
| "item_next a ((b, d) # xs) =
     (if a = b then Some (d, case xs of [] \<Rightarrow> 0 | (c, _) # _ \<Rightarrow> c) else item_next a xs)"

definition seq_head :: "'d items \<Rightarrow> addr" where
  "seq_head xs = (case xs of [] \<Rightarrow> 0 | (a, _) # _ \<Rightarrow> a)"

partial_function (option) walk_at ::
  "('b \<Rightarrow> 'd items option) \<Rightarrow> (addr \<Rightarrow> 'd \<Rightarrow> 'b \<Rightarrow> (bool \<times> 'b) option) \<Rightarrow> addr \<Rightarrow> 'b \<Rightarrow> (rc \<times> 'b) option" where
  "walk_at get f a b =
     (if a = 0 then Some (Ok, b)
      else Option.bind (get b) (\<lambda>xs.
        Option.bind (item_next a xs) (\<lambda>(d, nxt).
          Option.bind (f a d b) (\<lambda>(stop, b').
            if stop then Some (Err, b') else walk_at get f nxt b'))))"

definition walk :: "('b \<Rightarrow> 'd items option) \<Rightarrow> (addr \<Rightarrow> 'd \<Rightarrow> 'b \<Rightarrow> (bool \<times> 'b) option) \<Rightarrow> 'b \<Rightarrow> (rc \<times> 'b) option" where
  "walk get f b = Option.bind (get b) (\<lambda>xs. walk_at get f (seq_head xs) b)"

text \<open>The walk as a recursion on the items it starts with.\<close>

fun visit :: "(addr \<Rightarrow> 'd \<Rightarrow> 'b \<Rightarrow> (bool \<times> 'b) option) \<Rightarrow> 'd items \<Rightarrow> 'b \<Rightarrow> (rc \<times> 'b) option" where
  "visit f [] b = Some (Ok, b)"
| "visit f ((a, d) # xs) b =
     Option.bind (f a d b) (\<lambda>(stop, b'). if stop then Some (Err, b') else visit f xs b')"

lemma item_next_seq:
  assumes "distinct (map fst (pre @ (a, d) # xs))"
  shows "item_next a (pre @ (a, d) # xs) = Some (d, seq_head xs)"
  using assms by (induction pre) (auto simp: seq_head_def split: list.splits)

lemma item_next_None: "a \<notin> fst ` set xs \<Longrightarrow> item_next a xs = None"
  by (induction xs) auto

text \<open>
  When the visitor leaves the items after its own in place, with distinct addresses and at the
  end of the list, the walk visits exactly the items it starts with, in order.
\<close>

lemma walk_at_visit:
  assumes "\<exists>pre. get b = Some (pre @ xs) \<and> distinct (map fst (pre @ xs)) \<and> 0 \<notin> fst ` set (pre @ xs)" "I b"
    and step: "\<And>pre a d ys b b' stop. get b = Some (pre @ (a, d) # ys) \<Longrightarrow> (a, d) \<in> set xs \<Longrightarrow>
      set ys \<subseteq> set xs \<Longrightarrow> distinct (map fst (pre @ (a, d) # ys)) \<Longrightarrow> I b \<Longrightarrow>
      f a d b = Some (stop, b') \<Longrightarrow> I b' \<and> (ys \<noteq> [] \<longrightarrow>
      (\<exists>pre'. get b' = Some (pre' @ ys) \<and> distinct (map fst (pre' @ ys)) \<and> 0 \<notin> fst ` set (pre' @ ys)))"
  shows "walk_at get f (seq_head xs) b = visit f xs b"
  using assms(1,2) step
proof (induction xs arbitrary: b)
  case Nil
  then show ?case by (simp add: seq_head_def walk_at.simps)
next
  case (Cons x xs)
  obtain a d where x: "x = (a, d)" by fastforce
  from Cons.prems(1) x obtain pre where pre: "get b = Some (pre @ (a, d) # xs)"
      "distinct (map fst (pre @ (a, d) # xs))" "0 \<notin> fst ` set (pre @ (a, d) # xs)" by auto
  have a: "a \<noteq> 0" using pre(3) by auto
  have e: "walk_at get f (seq_head (x # xs)) b =
      Option.bind (f a d b) (\<lambda>(stop, b'). if stop then Some (Err, b') else walk_at get f (seq_head xs) b')"
  proof -
    have "seq_head (x # xs) = a" by (simp add: seq_head_def x)
    then show ?thesis
      using a pre(1) item_next_seq [OF pre(2)] by (subst walk_at.simps) simp
  qed
  show ?case
  proof (cases "f a d b")
    case (Some r)
    obtain stop b' where r: "r = (stop, b')" by fastforce
    with Some have fb: "f a d b = Some (stop, b')" by simp
    have nx: "I b' \<and> (xs \<noteq> [] \<longrightarrow> (\<exists>pre'. get b' = Some (pre' @ xs) \<and>
        distinct (map fst (pre' @ xs)) \<and> 0 \<notin> fst ` set (pre' @ xs)))"
      by (rule Cons.prems(3) [OF pre(1) _ _ pre(2) Cons.prems(2) fb]) (use x in auto)
    have "walk_at get f (seq_head xs) b' = visit f xs b'"
    proof (cases "xs = []")
      case True
      then show ?thesis by (simp add: seq_head_def walk_at.simps)
    next
      case False
      with nx have p': "\<exists>pre'. get b' = Some (pre' @ xs) \<and> distinct (map fst (pre' @ xs)) \<and> 0 \<notin> fst ` set (pre' @ xs)"
        and i': "I b'" by auto
      show ?thesis
        by (rule Cons.IH [OF p' i']) (rule Cons.prems(3), auto)
    qed
    with e fb x show ?thesis by simp
  qed (use e x in simp)
qed

lemma walk_visit:
  assumes "get b = Some xs" "distinct (map fst xs)" "0 \<notin> fst ` set xs" "I b"
    and "\<And>pre a d ys b b' stop. get b = Some (pre @ (a, d) # ys) \<Longrightarrow> (a, d) \<in> set xs \<Longrightarrow>
      set ys \<subseteq> set xs \<Longrightarrow> distinct (map fst (pre @ (a, d) # ys)) \<Longrightarrow> I b \<Longrightarrow>
      f a d b = Some (stop, b') \<Longrightarrow> I b' \<and> (ys \<noteq> [] \<longrightarrow>
      (\<exists>pre'. get b' = Some (pre' @ ys) \<and> distinct (map fst (pre' @ ys)) \<and> 0 \<notin> fst ` set (pre' @ ys)))"
  shows "walk get f b = visit f xs b"
proof -
  have "\<exists>pre. get b = Some (pre @ xs) \<and> distinct (map fst (pre @ xs)) \<and> 0 \<notin> fst ` set (pre @ xs)"
    using assms(1-3) by (intro exI [of _ "[]"]) simp
  then have "walk_at get f (seq_head xs) b = visit f xs b"
    by (rule walk_at_visit [where I = I, OF _ assms(4)]) (rule assms(5))
  then show ?thesis by (simp add: walk_def assms(1))
qed

text \<open>In particular when the visitor does not change the list.\<close>

lemma walk_unchanged:
  assumes "get b = Some xs" "distinct (map fst xs)" "0 \<notin> fst ` set xs"
    and "\<And>a d b b' stop. get b = Some xs \<Longrightarrow> (a, d) \<in> set xs \<Longrightarrow> f a d b = Some (stop, b') \<Longrightarrow> get b' = Some xs"
  shows "walk get f b = visit f xs b"
proof (rule walk_visit [of get b xs "\<lambda>b. get b = Some xs" f])
  show "get b = Some xs" "distinct (map fst xs)" "0 \<notin> fst ` set xs" "get b = Some xs"
    by (rule assms)+
next
  fix pre a d ys b b' stop
  assume *: "get b = Some (pre @ (a, d) # ys)" "(a, d) \<in> set xs" "get b = Some xs" "f a d b = Some (stop, b')"
  then have "get b' = Some xs" "xs = (pre @ [(a, d)]) @ ys" using assms(4) [OF *(3,2,4)] by auto
  with assms(2,3) show "get b' = Some xs \<and> (ys \<noteq> [] \<longrightarrow> (\<exists>pre'. get b' = Some (pre' @ ys) \<and> distinct (map fst (pre' @ ys)) \<and> 0 \<notin> fst ` set (pre' @ ys)))"
    by blast
qed

lemma visit_append:
  "visit f (xs @ ys) b = Option.bind (visit f xs b) (\<lambda>(r, b'). case r of Err \<Rightarrow> Some (Err, b') | Ok \<Rightarrow> visit f ys b')"
  by (induction f xs b rule: visit.induct) (auto split: bind_splits prod.splits)

lemma visit_invariant:
  assumes "visit f xs b = Some (r, b')" "P b"
    and "\<And>a d b b' stop. (a, d) \<in> set xs \<Longrightarrow> P b \<Longrightarrow> f a d b = Some (stop, b') \<Longrightarrow> P b'"
  shows "P b'"
  using assms
proof (induction f xs b rule: visit.induct)
  case (2 f a d xs b)
  then obtain stop b1 where b1: "f a d b = Some (stop, b1)" "(if stop then Some (Err, b1) else visit f xs b1) = Some (r, b')"
    by (auto split: bind_splits)
  have p1: "P b1" by (rule 2(4) [OF _ 2(3) b1(1)]) simp
  show ?case
  proof (cases stop)
    case False
    with b1 have v: "visit f xs b1 = Some (r, b')" by simp
    show ?thesis
      by (rule 2(1) [OF b1(1) refl False v p1]) (rule 2(4), auto)
  qed (use b1 p1 in simp)
qed simp

end
