(* ===== verification/Bano_Timer.thy ===== *)
theory Bano_Timer
  imports Bano_List "HOL-Library.Signed_Division"
begin

text \<open>
  The timers of \<open>src/base/bano_timer.c\<close>: a list whose items hold timers, each with its time
  in milliseconds relative to the timer before it. The model keeps the C layout: the list's
  items in a heap, the timers in a store, each timer pointing back to its item. The
  specification is the sequence of absolute deadlines.
\<close>

section \<open>Timers and their operations\<close>

record timer =
  rel_ms :: u32
  t_item :: addr
  t_data :: "addr \<times> addr"

record timers =
  tm_list :: blist
  tm_heap :: "addr heap"
  tm_store :: "addr \<Rightarrow> timer option"

text \<open>A \<open>struct timeval\<close>.\<close>

record timeval =
  tv_sec :: int
  tv_usec :: int

definition bano_timer_init :: "addr heap \<Rightarrow> (addr \<Rightarrow> timer option) \<Rightarrow> timers" where
  "bano_timer_init h st = \<lparr>tm_list = bano_list_init, tm_heap = h, tm_store = st\<rparr>"

definition fini_timer :: "addr \<Rightarrow> addr heap \<times> (addr \<Rightarrow> timer option)
    \<Rightarrow> (addr heap \<times> (addr \<Rightarrow> timer option)) option" where
  "fini_timer it s = (case fst s it of None \<Rightarrow> None
     | Some i \<Rightarrow> Some (fst s, (snd s)(it_data i := None)))"

definition bano_timer_fini :: "timers \<Rightarrow> timers option" where
  "bano_timer_fini t = do {
     (l, h, st) \<leftarrow> bano_list_fini (tm_list t) fini_timer (tm_heap t, tm_store t);
     Some \<lparr>tm_list = l, tm_heap = h, tm_store = st\<rparr>
   }"

text \<open>The loop of \<open>bano_timer_add\<close> that finds the item to insert before, and its \<open>ms_sum\<close>.\<close>

partial_function (option) timer_place ::
  "addr heap \<Rightarrow> (addr \<Rightarrow> timer option) \<Rightarrow> u32 \<Rightarrow> addr \<Rightarrow> u32 \<Rightarrow> (addr \<times> u32) option" where
  "timer_place h st ms it ms_sum =
     (if it = 0 then Some (0, ms_sum)
      else Option.bind (h it) (\<lambda>i.
        Option.bind (st (it_data i)) (\<lambda>ti.
          if ms < ms_sum + rel_ms ti then Some (it, ms_sum)
          else timer_place h st ms (it_next i) (ms_sum + rel_ms ti))))"

text \<open>
  The fields of a timer that \<open>malloc\<close> leaves uninitialised (\<open>data\<close>, written by the caller)
  are 0 here.
\<close>

definition bano_timer_add :: "mallocs \<Rightarrow> timers \<Rightarrow> u32 \<Rightarrow> (rc \<times> addr \<times> mallocs \<times> timers) option" where
  "bano_timer_add mls t ms = do {
     (it, ms_sum) \<leftarrow> timer_place (tm_heap t) (tm_store t) ms (l_head (tm_list t)) 0;
     (case malloc mls of (ti, mls1) \<Rightarrow>
       if ti = 0 then Some (Err, 0, mls1, t)
       else if it = 0 then do {
         (r, mls2, l, h) \<leftarrow> bano_list_add_tail mls1 (tm_list t) ti (tm_heap t);
         if r = Err then Some (Err, 0, mls2, t)
         else Some (Ok, ti, mls2, \<lparr>tm_list = l, tm_heap = h,
           tm_store = (tm_store t)(ti \<mapsto>
             \<lparr>rel_ms = ms - ms_sum, t_item = l_tail l, t_data = (0, 0)\<rparr>)\<rparr>)
       }
       else do {
         (r, mls2, l, h) \<leftarrow> bano_list_add_before mls1 (tm_list t) it ti (tm_heap t);
         if r = Err then Some (Err, 0, mls2, t)
         else do {
           i \<leftarrow> h it;
           let st = (tm_store t)(ti \<mapsto>
             \<lparr>rel_ms = ms - ms_sum, t_item = it_prev i, t_data = (0, 0)\<rparr>);
           nt \<leftarrow> st (it_data i);
           Some (Ok, ti, mls2, \<lparr>tm_list = l, tm_heap = h,
             tm_store = st(it_data i \<mapsto> nt\<lparr>rel_ms := (ms_sum + rel_ms nt) - ms\<rparr>)\<rparr>)
         }
       })
   }"

definition bano_timer_del :: "timers \<Rightarrow> addr \<Rightarrow> timers option" where
  "bano_timer_del t ti = do {
     tm \<leftarrow> tm_store t ti;
     (l, h) \<leftarrow> bano_list_del (tm_list t) (t_item tm) (tm_heap t);
     Some \<lparr>tm_list = l, tm_heap = h, tm_store = (tm_store t)(ti := None)\<rparr>
   }"

text \<open>\<open>None\<close> is a fault; \<open>Some None\<close> the result \<open>-1\<close> of an empty list.\<close>

definition bano_timer_get_next :: "timers \<Rightarrow> (addr \<times> timeval) option option" where
  "bano_timer_get_next t =
     (if l_head (tm_list t) = 0 then Some None
      else do {
        i \<leftarrow> tm_heap t (l_head (tm_list t));
        tm \<leftarrow> tm_store t (it_data i);
        Some (Some (it_data i,
          \<lparr>tv_sec = uint (rel_ms tm div 1000), tv_usec = uint ((rel_ms tm mod 1000) * 1000)\<rparr>))
      })"

definition bano_timer_update :: "timer \<Rightarrow> timeval \<Rightarrow> timer" where
  "bano_timer_update ti tv =
     ti\<lparr>rel_ms := word_of_int (tv_sec tv * 1000) + word_of_int (tv_usec tv sdiv 1000)\<rparr>"

section \<open>The specification: absolute deadlines\<close>

fun deadlines :: "nat \<Rightarrow> nat list \<Rightarrow> nat list" where
  "deadlines s [] = []"
| "deadlines s (r # rs) = (s + r) # deadlines (s + r) rs"

fun delta_insert :: "nat \<Rightarrow> nat list \<Rightarrow> nat list" where
  "delta_insert ms [] = [ms]"
| "delta_insert ms (r # rs) = (if ms < r then ms # (r - ms) # rs else r # delta_insert (ms - r) rs)"

definition insert_deadline :: "nat \<Rightarrow> nat list \<Rightarrow> nat list" where
  "insert_deadline d ds = takeWhile (\<lambda>x. x \<le> d) ds @ d # dropWhile (\<lambda>x. x \<le> d) ds"

lemma deadlines_ge: "x \<in> set (deadlines s rs) \<Longrightarrow> s \<le> x"
  by (induction rs arbitrary: s) (auto, fastforce)

lemma deadlines_sorted: "sorted (deadlines s rs)"
  by (induction rs arbitrary: s) (auto dest: deadlines_ge)

lemma length_deadlines [simp]: "length (deadlines s rs) = length rs"
  by (induction rs arbitrary: s) auto

lemma deadlines_append: "deadlines s (xs @ ys) = deadlines s xs @ deadlines (s + sum_list xs) ys"
  by (induction xs arbitrary: s) (auto simp: add.assoc)

lemma deadlines_shift: "deadlines (s + k) rs = map (\<lambda>d. d + k) (deadlines s rs)"
proof (induction rs arbitrary: s)
  case (Cons r rs)
  from Cons.IH [of "s + r"] show ?case by (simp add: ac_simps)
qed simp

lemma deadlines_delta_insert:
  "deadlines s (delta_insert ms rs) = insert_deadline (s + ms) (deadlines s rs)"
proof (induction rs arbitrary: s ms)
  case Nil
  then show ?case by (simp add: insert_deadline_def)
next
  case (Cons r rs)
  then show ?case by (auto simp: insert_deadline_def)
qed

lemma sum_list_delta_insert:
  "rs \<noteq> [] \<Longrightarrow> sum_list (delta_insert ms rs) = max ms (sum_list rs)"
proof (induction rs arbitrary: ms)
  case (Cons r rs)
  then show ?case by (cases "rs = []") auto
qed simp

section \<open>The representation\<close>

text \<open>The timer an item holds, and the relative times of a sequence of items.\<close>

definition timer_of :: "timers \<Rightarrow> addr \<Rightarrow> addr" where
  "timer_of t a = it_data (the (tm_heap t a))"

definition rels :: "timers \<Rightarrow> addr list \<Rightarrow> u32 list" where
  "rels t as = map (\<lambda>a. rel_ms (the (tm_store t (timer_of t a)))) as"

text \<open>Every item holds a timer of its own, which points back to it.\<close>

definition timers_wf :: "timers \<Rightarrow> addr list \<Rightarrow> bool" where
  "timers_wf t as \<longleftrightarrow> fll (tm_heap t) (tm_list t) as \<and> distinct (map (timer_of t) as)
     \<and> (\<forall>a \<in> set as. \<exists>tm. tm_store t (timer_of t a) = Some tm \<and> t_item tm = a)"

lemma rels_simps [simp]:
  "rels t [] = []" "rels t (a # as) = rel_ms (the (tm_store t (timer_of t a))) # rels t as"
  "rels t (as @ bs) = rels t as @ rels t bs" "length (rels t as) = length as"
  by (simp_all add: rels_def)

text \<open>The place found by the loop, on the relative times alone.\<close>

fun rel_place :: "u32 \<Rightarrow> u32 \<Rightarrow> u32 list \<Rightarrow> nat \<times> u32" where
  "rel_place ms s [] = (0, s)"
| "rel_place ms s (r # rs) =
     (if ms < s + r then (0, s) else (case rel_place ms (s + r) rs of (k, s') \<Rightarrow> (Suc k, s')))"

lemma rel_place_le: "fst (rel_place ms s rs) \<le> length rs"
  by (induction rs arbitrary: s) (auto split: prod.splits, metis fst_conv)

lemma timer_place_spec:
  assumes "fseg h p as 0"
    and "\<And>a. a \<in> set as \<Longrightarrow> st (it_data (the (h a))) \<noteq> None"
  shows "timer_place h st ms p s =
    (case rel_place ms s (map (\<lambda>a. rel_ms (the (st (it_data (the (h a)))))) as) of (k, s') \<Rightarrow>
       Some (if k < length as then as ! k else 0, s'))"
  using assms
proof (induction as arbitrary: p s)
  case Nil
  then show ?case by (simp add: timer_place.simps)
next
  case (Cons a as)
  from Cons.prems obtain it tm where a: "p = a" "a \<noteq> 0" "h a = Some it" "fseg h (it_next it) as 0"
      "st (it_data it) = Some tm"
    by fastforce
  show ?case
  proof (cases "ms < s + rel_ms tm")
    case True
    with a show ?thesis by (subst timer_place.simps) simp
  next
    case False
    with a Cons.IH [of "it_next it" "s + rel_ms tm"] Cons.prems show ?thesis
      by (subst timer_place.simps) (auto split: prod.splits)
  qed
qed

lemma rel_place_delta_insert:
  assumes "unat s + sum_list (map unat rs) < 2 ^ 32" and "s \<le> ms"
    and "rel_place ms s rs = (k, s')"
  shows "delta_insert (unat ms - unat s) (map unat rs) =
     map unat (take k rs) @ unat (ms - s') #
       (if k < length rs then unat (s' + rs ! k - ms) # map unat (drop (Suc k) rs) else [])"
  using assms
proof (induction rs arbitrary: s k)
  case Nil
  then show ?case by (auto simp: unat_sub)
next
  case (Cons r rs)
  have sr: "unat (s + r) = unat s + unat r"
    using Cons.prems(1) by (simp add: unat_word_ariths)
  show ?case
  proof (cases "ms < s + r")
    case True
    then have lt: "unat ms < unat s + unat r" using sr by (simp add: word_less_nat_alt)
    have le: "unat s \<le> unat ms" using Cons.prems(2) by (simp add: word_le_nat_alt)
    have "unat (s + r - ms) = unat s + unat r - unat ms"
      using True sr by (simp add: unat_sub)
    with True Cons.prems lt le show ?thesis by (auto simp: unat_sub)
  next
    case False
    then have le: "s + r \<le> ms" by simp
    obtain j where j: "rel_place ms (s + r) rs = (j, s')" "k = Suc j"
      using Cons.prems(3) False by (auto split: prod.splits)
    have "unat s + unat r \<le> unat ms" using le sr by (simp add: word_le_nat_alt)
    moreover have "delta_insert (unat ms - unat (s + r)) (map unat rs) =
        map unat (take j rs) @ unat (ms - s') #
        (if j < length rs then unat (s' + rs ! j - ms) # map unat (drop (Suc j) rs) else [])"
      using Cons.prems(1) sr le j(1) by (intro Cons.IH) auto
    ultimately show ?thesis using j(2) sr by (auto simp: diff_diff_add)
  qed
qed

section \<open>Insertion\<close>

text \<open>
  The core of an insertion: in a store where every other timer of the sequence is as before,
  the new timer stands between \<open>ys\<close> and \<open>zs\<close>.
\<close>

lemma timers_wf_I:
  assumes "fll (tm_heap t') (tm_list t') as" "distinct (map (timer_of t') as)"
    and "\<And>a. a \<in> set as \<Longrightarrow> \<exists>tm. tm_store t' (timer_of t' a) = Some tm \<and> t_item tm = a"
  shows "timers_wf t' as"
  using assms by (simp add: timers_wf_def)

lemma timers_wfD:
  "timers_wf t as \<Longrightarrow> a \<in> set as \<Longrightarrow> \<exists>tm. tm_store t (timer_of t a) = Some tm \<and> t_item tm = a"
  by (simp add: timers_wf_def)

lemma timers_wf_used:
  assumes "timers_wf t as" "tm_store t ti = None" "a \<in> set as"
  shows "timer_of t a \<noteq> ti"
proof -
  from assms(1,3) obtain tm where "tm_store t (timer_of t a) = Some tm"
    by (auto simp: timers_wf_def)
  with assms(2) show ?thesis by auto
qed

lemma rels_cong:
  "(\<And>a. a \<in> set as \<Longrightarrow> timer_of t' a = timer_of t a) \<Longrightarrow>
   (\<And>a. a \<in> set as \<Longrightarrow> rel_ms (the (tm_store t' (timer_of t a))) = rel_ms (the (tm_store t (timer_of t a))))
   \<Longrightarrow> rels t' as = rels t as"
  by (auto simp: rels_def)

lemma timers_wf_new:
  assumes wf: "timers_wf t (ys @ zs)" and new: "tm_store t ti = None"
    and fl: "fll h' l' (ys @ i # zs)"
    and its: "items h' (ys @ i # zs) = items (tm_heap t) ys @ (i, ti) # items (tm_heap t) zs"
    and st: "st' ti = Some tm" "t_item tm = i"
    and keep: "\<And>b tm0. b \<noteq> ti \<Longrightarrow> tm_store t b = Some tm0 \<Longrightarrow>
      \<exists>tm1. st' b = Some tm1 \<and> t_item tm1 = t_item tm0"
  shows "timers_wf \<lparr>tm_list = l', tm_heap = h', tm_store = st'\<rparr> (ys @ i # zs)"
    and "\<And>a. a \<in> set (ys @ zs) \<Longrightarrow>
      timer_of \<lparr>tm_list = l', tm_heap = h', tm_store = st'\<rparr> a = timer_of t a"
    and "timer_of \<lparr>tm_list = l', tm_heap = h', tm_store = st'\<rparr> i = ti"
proof -
  let ?t = "\<lparr>tm_list = l', tm_heap = h', tm_store = st'\<rparr>"
  have eqs: "items h' ys = items (tm_heap t) ys" "items h' zs = items (tm_heap t) zs"
    "it_data (the (h' i)) = ti"
    using its by (auto simp: items_def)
  show of_old: "\<And>a. a \<in> set (ys @ zs) \<Longrightarrow> timer_of ?t a = timer_of t a"
    using items_same_data [OF eqs(1)] items_same_data [OF eqs(2)]
    by (auto simp: timer_of_def)
  show of_new: "timer_of ?t i = ti" using eqs(3) by (simp add: timer_of_def)
  have used: "\<And>a. a \<in> set (ys @ zs) \<Longrightarrow> timer_of t a \<noteq> ti"
    by (rule timers_wf_used [OF wf new])
  have eq: "map (timer_of ?t) (ys @ i # zs) = map (timer_of t) ys @ ti # map (timer_of t) zs"
    using of_old of_new by auto
  have "ti \<notin> set (map (timer_of t) (ys @ zs))" using used by fastforce
  moreover have "distinct (map (timer_of t) (ys @ zs))" using wf by (simp add: timers_wf_def)
  ultimately have "distinct (map (timer_of t) ys @ ti # map (timer_of t) zs)" by auto
  then have "distinct (map (timer_of ?t) (ys @ i # zs))" by (simp only: eq)
  moreover have "\<exists>tm. tm_store ?t (timer_of ?t a) = Some tm \<and> t_item tm = a"
    if "a \<in> set (ys @ i # zs)" for a
  proof (cases "a = i")
    case True
    with of_new st show ?thesis by simp
  next
    case False
    with that have a: "a \<in> set (ys @ zs)" by auto
    with timers_wfD [OF wf] obtain tm0 where "tm_store t (timer_of t a) = Some tm0" "t_item tm0 = a"
      by blast
    with keep [OF used [OF a]] of_old [OF a] show ?thesis by fastforce
  qed
  ultimately show "timers_wf ?t (ys @ i # zs)"
    using fl by (intro timers_wf_I) auto
qed

lemma timer_place_timers:
  assumes "timers_wf t as"
  shows "timer_place (tm_heap t) (tm_store t) ms (l_head (tm_list t)) s =
    (case rel_place ms s (rels t as) of (k, s') \<Rightarrow> Some (if k < length as then as ! k else 0, s'))"
  using assms timer_place_spec [of "tm_heap t" "l_head (tm_list t)" as "tm_store t" ms s]
  by (fastforce simp: timers_wf_def fll_def rels_def timer_of_def)

lemma bano_timer_add_tail_case:
  assumes wf: "timers_wf t as" and dl: "dll (tm_heap t) (tm_list t) as"
    and pl: "rel_place ms 0 (rels t as) = (length as, s')"
    and m: "ti \<noteq> 0" "i \<noteq> 0" "tm_store t ti = None" "tm_heap t i = None"
  obtains t' where "bano_timer_add (ti # i # mls) t ms = Some (Ok, ti, mls, t')"
    "timers_wf t' (as @ [i])" "timer_of t' i = ti" "rels t' (as @ [i]) = rels t as @ [ms - s']"
    "dll (tm_heap t') (tm_list t') (as @ [i])"
proof -
  obtain l' h' where *: "bano_list_add_tail (i # mls) (tm_list t) ti (tm_heap t) = Some (Ok, mls, l', h')"
    "dll h' l' (as @ [i])" "items h' (as @ [i]) = items (tm_heap t) as @ [(i, ti)]"
    by (rule bano_list_add_tail_dll [OF dl, of "i # mls" i mls ti]) (use m in auto)
  let ?st = "(tm_store t)(ti \<mapsto> \<lparr>rel_ms = ms - s', t_item = i, t_data = (0, 0)\<rparr>)"
  let ?t' = "\<lparr>tm_list = l', tm_heap = h', tm_store = ?st\<rparr>"
  have tl: "l_tail l' = i" using *(2) by (simp add: dll_def)
  have run: "bano_timer_add (ti # i # mls) t ms = Some (Ok, ti, mls, ?t')"
    using pl m * tl by (simp add: bano_timer_add_def timer_place_timers [OF wf])
  have new: "timers_wf ?t' (as @ [i])" "\<And>a. a \<in> set as \<Longrightarrow> timer_of ?t' a = timer_of t a"
    "timer_of ?t' i = ti"
    using timers_wf_new [of t as "[]" ti h' l' i ?st] wf m * dll_fll [OF *(2)] by auto
  have "\<And>a. a \<in> set as \<Longrightarrow> timer_of t a \<noteq> ti" by (rule timers_wf_used [OF wf m(3)])
  with new have "rels ?t' as = rels t as" by (intro rels_cong) auto
  with new run *(2) show thesis by (intro that [of ?t']) auto
qed

lemma bano_timer_add_before_case:
  assumes wf: "timers_wf t (ys @ x # zs)" and dl: "dll (tm_heap t) (tm_list t) (ys @ x # zs)"
    and pl: "rel_place ms 0 (rels t (ys @ x # zs)) = (length ys, s')"
    and m: "ti \<noteq> 0" "i \<noteq> 0" "tm_store t ti = None" "tm_heap t i = None"
  obtains t' where "bano_timer_add (ti # i # mls) t ms = Some (Ok, ti, mls, t')"
    "timers_wf t' (ys @ i # x # zs)" "timer_of t' i = ti"
    "rels t' (ys @ i # x # zs) = rels t ys @ (ms - s') #
       (s' + rel_ms (the (tm_store t (timer_of t x))) - ms) # rels t zs"
    "ys = [] \<Longrightarrow> dll (tm_heap t') (tm_list t') (i # x # zs)"
proof -
  obtain l' h' where *:
    "bano_list_add_before (i # mls) (tm_list t) x ti (tm_heap t) = Some (Ok, mls, l', h')"
    "fll h' l' (ys @ i # x # zs)"
    "items h' (ys @ i # x # zs) = items (tm_heap t) ys @ (i, ti) # items (tm_heap t) (x # zs)"
    "\<exists>it. h' x = Some it \<and> it_prev it = i" "ys = [] \<Longrightarrow> dll h' l' (i # x # zs)"
    by (rule bano_list_add_before_any [OF dl, of "i # mls" i mls ti]) (use m in auto)
  obtain itx where itx: "h' x = Some itx" "it_prev itx = i" using *(4) by blast
  have tx: "it_data itx = timer_of t x" using *(3) itx by (auto simp: items_def timer_of_def)
  obtain tmx where tmx: "tm_store t (timer_of t x) = Some tmx" "t_item tmx = x"
    using wf by (auto simp: timers_wf_def)
  have x0: "x \<noteq> 0" using dll_alloc [OF dl, of x] by simp
  have used: "\<And>a. a \<in> set (ys @ x # zs) \<Longrightarrow> timer_of t a \<noteq> ti"
    by (rule timers_wf_used [OF wf m(3)])
  let ?tm = "\<lparr>rel_ms = ms - s', t_item = i, t_data = (0, 0)\<rparr>"
  let ?st = "((tm_store t)(ti \<mapsto> ?tm))(timer_of t x \<mapsto> tmx\<lparr>rel_ms := s' + rel_ms tmx - ms\<rparr>)"
  let ?t' = "\<lparr>tm_list = l', tm_heap = h', tm_store = ?st\<rparr>"
  have run: "bano_timer_add (ti # i # mls) t ms = Some (Ok, ti, mls, ?t')"
    using pl m(1) *(1) itx tx tmx x0 used [of x]
    by (simp add: bano_timer_add_def timer_place_timers [OF wf] nth_append)
  have keep: "\<exists>tm1. ?st b = Some tm1 \<and> t_item tm1 = t_item tm0"
    if "b \<noteq> ti" "tm_store t b = Some tm0" for b tm0
    using that tmx by auto
  have sti: "?st ti = Some ?tm" using used [of x] by auto
  have st_i: "t_item ?tm = i" by simp
  note new = timers_wf_new [where t = t and ys = ys and zs = "x # zs" and ti = ti and h' = h'
      and l' = l' and i = i and st' = ?st and tm = ?tm, OF wf m(3) *(2,3) sti st_i keep]
  have tof: "\<And>a. a \<in> set (ys @ x # zs) \<Longrightarrow> timer_of ?t' a = timer_of t a"
    by (rule new(2))
  have "distinct (map (timer_of t) (ys @ x # zs))" using wf by (simp add: timers_wf_def)
  then have other: "\<And>a. a \<in> set ys \<union> set zs \<Longrightarrow> timer_of t a \<noteq> timer_of t x"
    by (auto simp: image_iff)
  have "rels ?t' ys = rels t ys" "rels ?t' zs = rels t zs"
    using tof other used by (intro rels_cong; auto)+
  moreover have "timer_of ?t' i = ti" by (rule new(3))
  moreover have "timers_wf ?t' (ys @ i # x # zs)" by (rule new(1))
  ultimately show thesis
    using run tof [of x] sti tmx *(5) by (intro that [of ?t']) auto
qed

text \<open>\<open>bano_timer_add\<close> inserts the new deadline into the sorted sequence of deadlines.\<close>

lemma bano_timer_add_inserts:
  assumes wf: "timers_wf t as" and dl: "dll (tm_heap t) (tm_list t) as"
    and bound: "sum_list (map unat (rels t as)) < 2 ^ 32"
    and m: "ti \<noteq> 0" "i \<noteq> 0" "tm_store t ti = None" "tm_heap t i = None"
  obtains t' k where "bano_timer_add (ti # i # mls) t ms = Some (Ok, ti, mls, t')"
    "timers_wf t' (take k as @ i # drop k as)" "timer_of t' i = ti"
    "map unat (rels t' (take k as @ i # drop k as)) = delta_insert (unat ms) (map unat (rels t as))"
    "k = 0 \<or> k = length as \<Longrightarrow> dll (tm_heap t') (tm_list t') (take k as @ i # drop k as)"
proof -
  obtain k s' where pl: "rel_place ms 0 (rels t as) = (k, s')" by fastforce
  have k: "k \<le> length as" using rel_place_le [of ms 0 "rels t as"] pl by simp
  have ins: "delta_insert (unat ms) (map unat (rels t as)) =
      map unat (take k (rels t as)) @ unat (ms - s') #
       (if k < length as then unat (s' + rels t as ! k - ms) # map unat (drop (Suc k) (rels t as)) else [])"
    using rel_place_delta_insert [OF _ _ pl] bound by simp
  show thesis
  proof (cases "k = length as")
    case True
    obtain t' where "bano_timer_add (ti # i # mls) t ms = Some (Ok, ti, mls, t')"
      "timers_wf t' (as @ [i])" "timer_of t' i = ti" "rels t' (as @ [i]) = rels t as @ [ms - s']"
      "dll (tm_heap t') (tm_list t') (as @ [i])"
      by (rule bano_timer_add_tail_case [OF wf dl pl [unfolded True] m, of mls]) blast
    with True ins show thesis by (intro that [of t' k]) auto
  next
    case False
    with k have kl: "k < length as" by simp
    obtain ys x zs where as: "as = ys @ x # zs" "length ys = k"
      using id_take_nth_drop [OF kl] kl by (metis length_take min.absorb4)
    obtain t' where t': "bano_timer_add (ti # i # mls) t ms = Some (Ok, ti, mls, t')"
      "timers_wf t' (ys @ i # x # zs)" "timer_of t' i = ti"
      "rels t' (ys @ i # x # zs) = rels t ys @ (ms - s') #
         (s' + rel_ms (the (tm_store t (timer_of t x))) - ms) # rels t zs"
      "ys = [] \<Longrightarrow> dll (tm_heap t') (tm_list t') (i # x # zs)"
      by (rule bano_timer_add_before_case [OF wf [unfolded as] dl [unfolded as]
            pl [unfolded as, folded as(2)] m, of mls]) blast
    have "map unat (rels t' (ys @ i # x # zs)) = delta_insert (unat ms) (map unat (rels t as))"
      unfolding t'(4) ins using as by (simp add: rels_def nth_append)
    with t' as False show thesis by (intro that [of t' k]) auto
  qed
qed

section \<open>Expiry, deletion\<close>

text \<open>
  Deleting a timer leaves the relative times of the others as they are: where the deleted
  timer had not expired, every later deadline comes closer by its remaining time.
\<close>

lemma bano_timer_del_rels:
  assumes wf: "timers_wf t as" and dl: "dll (tm_heap t) (tm_list t) as" and a: "a \<in> set as"
  obtains t' where "bano_timer_del t (timer_of t a) = Some t'" "timers_wf t' (remove1 a as)"
    "dll (tm_heap t') (tm_list t') (remove1 a as)" "rels t' (remove1 a as) = rels t (remove1 a as)"
    "\<And>b. b \<in> set (remove1 a as) \<Longrightarrow> timer_of t' b = timer_of t b"
proof -
  obtain l' h' where *: "bano_list_del (tm_list t) a (tm_heap t) = Some (l', h')"
      "dll h' l' (remove1 a as)"
      "items h' (remove1 a as) = filter (\<lambda>x. fst x \<noteq> a) (items (tm_heap t) as)"
    by (rule bano_list_del_dll [OF dl a]) blast
  obtain tm where tm: "tm_store t (timer_of t a) = Some tm" "t_item tm = a"
    using wf a by (auto simp: timers_wf_def)
  let ?t' = "\<lparr>tm_list = l', tm_heap = h', tm_store = (tm_store t)(timer_of t a := None)\<rparr>"
  have d: "distinct as" "distinct (map (timer_of t) as)" using wf by (auto simp: timers_wf_def fll_def)
  have sub: "\<And>b. b \<in> set (remove1 a as) \<longleftrightarrow> b \<in> set as \<and> b \<noteq> a" using d by simp
  have rem: "remove1 a as = filter (\<lambda>x. x \<noteq> a) as"
    using d by (auto simp: distinct_remove1_removeAll removeAll_filter_not_eq intro: filter_cong)
  have "items h' (remove1 a as) = items (tm_heap t) (remove1 a as)"
    using *(3) unfolding rem by (simp add: items_def filter_map comp_def)
  then have of: "timer_of ?t' b = timer_of t b" if "b \<in> set (remove1 a as)" for b
    using items_same_data [of h' "remove1 a as" "tm_heap t"] that by (simp add: timer_of_def)
  have ne: "\<And>b. b \<in> set (remove1 a as) \<Longrightarrow> timer_of t b \<noteq> timer_of t a"
    using d a sub by (metis distinct_map inj_on_eq_iff)
  have "distinct (map (timer_of t) (remove1 a as))"
    using d by (metis distinct_map distinct_remove1 inj_on_subset set_remove1_subset)
  moreover have "map (timer_of ?t') (remove1 a as) = map (timer_of t) (remove1 a as)"
    using of by (intro map_cong) auto
  ultimately have "distinct (map (timer_of ?t') (remove1 a as))" by (simp only:)
  then have "timers_wf ?t' (remove1 a as)"
    using dll_fll [OF *(2)] wf of ne sub by (intro timers_wf_I) (auto simp: timers_wf_def)
  moreover have "rels ?t' (remove1 a as) = rels t (remove1 a as)"
    using of ne by (intro rels_cong) auto
  moreover have "bano_timer_del t (timer_of t a) = Some ?t'"
    using * tm by (simp add: bano_timer_del_def)
  ultimately show thesis using *(2) of by (intro that [of ?t']) auto
qed

lemma bano_timer_get_next_head:
  assumes "timers_wf t (a # as)"
  shows "bano_timer_get_next t =
    (let r = hd (rels t (a # as)) in
     Some (Some (timer_of t a, \<lparr>tv_sec = uint (r div 1000), tv_usec = uint ((r mod 1000) * 1000)\<rparr>)))"
  using assms
  by (auto simp: bano_timer_get_next_def timers_wf_def fll_def timer_of_def Let_def)

lemma bano_timer_get_next_empty:
  "timers_wf t [] \<Longrightarrow> bano_timer_get_next t = Some None"
  by (simp add: bano_timer_get_next_def timers_wf_def fll_def)

text \<open>
  The time handed to \<open>select\<close> is exactly the timer's: if \<open>select\<close> returns at once, with the
  time it was given, the update stores the value that was there.
\<close>

lemma sdiv_1000: "0 \<le> n \<Longrightarrow> (n * 1000) sdiv 1000 = (n :: int)"
  by (cases "n = 0") (auto simp: signed_divide_int_def sgn_if)

lemma word_of_int_usec:
  fixes r :: u32
  shows "word_of_int (uint (r div 1000) * 1000) + word_of_int (uint ((r mod 1000) * 1000) sdiv 1000) = r"
proof -
  have m: "uint ((r mod 1000) * 1000) = uint (r mod 1000) * 1000"
  proof -
    have "uint (r mod 1000) < 1000" by (simp add: uint_mod)
    then show ?thesis by (simp add: uint_word_ariths)
  qed
  have "uint ((r mod 1000) * 1000) sdiv 1000 = uint (r mod 1000)"
    unfolding m by (rule sdiv_1000) (rule uint_ge_0)
  moreover have "uint (r div 1000) * 1000 + uint (r mod 1000) = uint r"
    by (simp add: uint_div uint_mod)
  ultimately have "word_of_int (uint (r div 1000) * 1000) + word_of_int (uint ((r mod 1000) * 1000) sdiv 1000)
      = (word_of_int (uint r) :: u32)"
    by (metis wi_hom_add)
  then show ?thesis by simp
qed

lemma bano_timer_update_get_next:
  assumes "bano_timer_get_next t = Some (Some (ti, tv))" and "tm_store t ti = Some tm"
  shows "bano_timer_update tm tv = tm"
  using assms word_of_int_usec [of "rel_ms tm"]
  by (auto simp: bano_timer_get_next_def bano_timer_update_def split: if_splits option.splits
      bind_splits)

end
