(* ===== verification/Bano_Dict.thy ===== *)
theory Bano_Dict
  imports Bano_List
begin

text \<open>
  The dictionaries of \<open>src/base/bano_dict.c\<close>: an array of \<open>2 ^ log2_nlist\<close> lists of key and
  value pairs, chosen by a hash of the key. The lists are sequences of pairs (\<open>Bano_List\<close>
  proves that \<open>bano_list.c\<close> implements sequences); a value, \<open>val_size\<close> bytes copied by
  \<open>memcpy\<close>, is an element of a type. The interface \<open>kv_store\<close> states what clients rely on.
\<close>

section \<open>Dictionaries\<close>

record 'v dict =
  lists :: "(u32 \<times> 'v) list list"
  log2_nlist :: nat
  val_size :: nat

definition hash_32_to_n :: "u32 \<Rightarrow> nat \<Rightarrow> u32" where
  "hash_32_to_n k0 n =
     (let k1 = (k0 + 0x479ab41d) + push_bit 8 k0;
          k2 = (k1 XOR 0xe4aa10ce) XOR drop_bit 5 k1;
          k3 = (k2 + 0x9942f0a6) - push_bit 14 k2;
          k4 = (k3 XOR 0x5aedd67d) XOR drop_bit 3 k3;
          k5 = (k4 + 0x17bea992) + push_bit 7 k4
      in drop_bit (32 - n) k5)"

definition get_hash :: "'v dict \<Rightarrow> u32 \<Rightarrow> u32" where
  "get_hash d k = hash_32_to_n k (log2_nlist d)"

definition get_nlist :: "'v dict \<Rightarrow> nat" where
  "get_nlist d = 2 ^ log2_nlist d"

text \<open>The bucket of a key, as an index of \<open>lists\<close>.\<close>

definition bucket :: "'v dict \<Rightarrow> u32 \<Rightarrow> nat" where
  "bucket d k = unat (get_hash d k)"

text \<open>The position of the first pair with the key in its bucket.\<close>

fun find_pair_item :: "u32 \<Rightarrow> (u32 \<times> 'v) list \<Rightarrow> nat option" where
  "find_pair_item k [] = None"
| "find_pair_item k ((k', v) # ps) = (if k \<noteq> k' then map_option Suc (find_pair_item k ps) else Some 0)"

definition find_pair :: "'v dict \<Rightarrow> u32 \<Rightarrow> (nat \<times> nat) option" where
  "find_pair d k =
     (let h = bucket d k in
      case find_pair_item k (lists d ! h) of None \<Rightarrow> None | Some i \<Rightarrow> Some (h, i))"

definition bano_dict_init_with_nlist :: "mallocs \<Rightarrow> nat \<Rightarrow> nat \<Rightarrow> mallocs \<times> 'v dict option" where
  "bano_dict_init_with_nlist ms vsz l2 =
     (case malloc ms of (a, ms') \<Rightarrow>
       if a = 0 then (ms', None)
       else (ms', Some \<lparr>lists = replicate (2 ^ l2) [], log2_nlist = l2, val_size = vsz\<rparr>))"

definition bano_dict_init :: "mallocs \<Rightarrow> nat \<Rightarrow> mallocs \<times> 'v dict option" where
  "bano_dict_init ms vsz = bano_dict_init_with_nlist ms vsz 3"

text \<open>
  \<open>bano_dict_add\<close> returns the address of the new pair's value for the caller to fill: the
  value is an argument here. Two allocations, the pair and its list item.
\<close>

definition bano_dict_add :: "mallocs \<Rightarrow> 'v dict \<Rightarrow> u32 \<Rightarrow> 'v \<Rightarrow> rc \<times> mallocs \<times> 'v dict" where
  "bano_dict_add ms d k v =
     (let h = bucket d k in
      case malloc ms of (p, ms1) \<Rightarrow>
        if p = 0 then (Err, ms1, d)
        else (case malloc ms1 of (i, ms2) \<Rightarrow>
          if i = 0 then (Err, ms2, d)
          else (Ok, ms2, d\<lparr>lists := (lists d)[h := lists d ! h @ [(k, v)]]\<rparr>)))"

definition bano_dict_set :: "'v dict \<Rightarrow> u32 \<Rightarrow> 'v \<Rightarrow> rc \<times> 'v dict" where
  "bano_dict_set d k v =
     (case find_pair d k of None \<Rightarrow> (Err, d)
      | Some (h, i) \<Rightarrow> (Ok, d\<lparr>lists := (lists d)[h := (lists d ! h)[i := (fst (lists d ! h ! i), v)]]\<rparr>))"

definition bano_dict_set_or_add :: "mallocs \<Rightarrow> 'v dict \<Rightarrow> u32 \<Rightarrow> 'v \<Rightarrow> rc \<times> mallocs \<times> 'v dict" where
  "bano_dict_set_or_add ms d k v =
     (case bano_dict_set d k v of
        (Ok, d') \<Rightarrow> (Ok, ms, d')
      | (Err, _) \<Rightarrow> bano_dict_add ms d k v)"

definition bano_dict_get :: "'v dict \<Rightarrow> u32 \<Rightarrow> 'v option" where
  "bano_dict_get d k =
     (case find_pair d k of None \<Rightarrow> None | Some (h, i) \<Rightarrow> Some (snd (lists d ! h ! i)))"

fun foreach_lists :: "((u32 \<times> 'v) \<Rightarrow> 's \<Rightarrow> bool \<times> 's) \<Rightarrow> (u32 \<times> 'v) list list \<Rightarrow> 's \<Rightarrow> rc \<times> 's" where
  "foreach_lists f [] s = (Ok, s)"
| "foreach_lists f (l # ls) s =
     (case foreach_until f l s of (Err, s') \<Rightarrow> (Err, s') | (Ok, s') \<Rightarrow> foreach_lists f ls s')"

definition bano_dict_foreach :: "'v dict \<Rightarrow> ((u32 \<times> 'v) \<Rightarrow> 's \<Rightarrow> bool \<times> 's) \<Rightarrow> 's \<Rightarrow> rc \<times> 's" where
  "bano_dict_foreach d f s = foreach_lists f (take (get_nlist d) (lists d)) s"

text \<open>\<open>bano_dict_del\<close> calls the callback on the pair and unlinks its item.\<close>

definition bano_dict_del :: "'v dict \<Rightarrow> u32 \<Rightarrow> ((u32 \<times> 'v) \<Rightarrow> 's \<Rightarrow> 's) \<Rightarrow> 's \<Rightarrow> rc \<times> 'v dict \<times> 's" where
  "bano_dict_del d k f s =
     (case find_pair d k of None \<Rightarrow> (Err, d, s)
      | Some (h, i) \<Rightarrow>
         let l = lists d ! h in
         (Ok, d\<lparr>lists := (lists d)[h := take i l @ drop (Suc i) l]\<rparr>, f (l ! i) s))"

text \<open>\<open>bano_dict_fini\<close> calls the callback on every pair, in list order, before freeing it.\<close>

definition bano_dict_fini :: "'v dict \<Rightarrow> ((u32 \<times> 'v) \<Rightarrow> 's \<Rightarrow> 's) \<Rightarrow> 's \<Rightarrow> 's" where
  "bano_dict_fini d fn s = fold (\<lambda>l s. fold fn l s) (take (get_nlist d) (lists d)) s"

section \<open>Well-formedness\<close>

text \<open>
  As many lists as the hash has values, every pair in the list of its key, and no two pairs
  of a list with the same key.
\<close>

definition dict_wf :: "'v dict \<Rightarrow> bool" where
  "dict_wf d \<longleftrightarrow> log2_nlist d < 32 \<and> length (lists d) = 2 ^ log2_nlist d
     \<and> (\<forall>h < length (lists d). (\<forall>k \<in> fst ` set (lists d ! h). bucket d k = h)
          \<and> distinct (map fst (lists d ! h)))"

text \<open>The pairs in the order of \<open>bano_dict_foreach\<close>, and the finite map they stand for.\<close>

definition dict_pairs :: "'v dict \<Rightarrow> (u32 \<times> 'v) list" where
  "dict_pairs d = concat (lists d)"

definition dict_map :: "'v dict \<Rightarrow> u32 \<rightharpoonup> 'v" where
  "dict_map d k = map_of (lists d ! bucket d k) k"

lemma bucket_upd [simp]: "bucket (d\<lparr>lists := ls\<rparr>) k = bucket d k"
  by (simp add: bucket_def get_hash_def)

lemma hash_bound: "n < 32 \<Longrightarrow> unat (hash_32_to_n k n) < 2 ^ n"
proof -
  assume n: "n < 32"
  have *: "unat (drop_bit (32 - n) w) < 2 ^ n" for w :: u32
  proof -
    have "unat w < 2 ^ n * 2 ^ (32 - n)"
      using unat_u32_less [of w] n by (simp flip: power_add)
    then have "unat w div 2 ^ (32 - n) < 2 ^ n"
      by (simp add: less_mult_imp_div_less)
    then show ?thesis unfolding unat_drop_bit_eq by (simp add: drop_bit_eq_div)
  qed
  show ?thesis by (simp add: hash_32_to_n_def Let_def *)
qed

lemma bucket_bound: "dict_wf d \<Longrightarrow> bucket d k < length (lists d)"
  by (simp add: dict_wf_def bucket_def get_hash_def hash_bound)

lemma find_pair_item_None: "find_pair_item k ps = None \<longleftrightarrow> k \<notin> fst ` set ps"
  by (induction k ps rule: find_pair_item.induct) auto

lemma find_pair_item_None_map: "find_pair_item k ps = None \<Longrightarrow> map_of ps k = None"
  by (simp add: find_pair_item_None map_of_eq_None_iff)

lemma find_pair_item_Some:
  "find_pair_item k ps = Some i \<Longrightarrow> i < length ps \<and> fst (ps ! i) = k \<and> map_of ps k = Some (snd (ps ! i))"
  by (induction k ps arbitrary: i rule: find_pair_item.induct) (auto split: if_splits)

lemma map_of_update_nth:
  assumes "find_pair_item k ps = Some i"
  shows "map_of (ps[i := (k, v)]) = (map_of ps)(k \<mapsto> v)"
  using assms
  by (induction k ps arbitrary: i rule: find_pair_item.induct)
    (auto split: if_splits nat.splits simp: fun_upd_twist)

lemma map_of_snoc: "k \<notin> fst ` set ps \<Longrightarrow> map_of (ps @ [(k, v)]) = (map_of ps)(k \<mapsto> v)"
  by (induction ps) (auto simp: fun_upd_twist)

lemma distinct_remove_nth:
  "distinct (map fst ps) \<Longrightarrow> distinct (map fst (take i ps @ drop (Suc i) ps))"
proof (induction ps arbitrary: i)
  case (Cons p ps)
  show ?case
  proof (cases i)
    case (Suc j)
    have "fst p \<notin> fst ` (set (take j ps) \<union> set (drop (Suc j) ps))"
      using Cons.prems by (auto dest: in_set_takeD in_set_dropD)
    moreover have "distinct (map fst (take j ps @ drop (Suc j) ps))"
      using Cons.prems by (intro Cons.IH) simp
    ultimately show ?thesis using Suc by (auto simp: image_Un)
  qed (use Cons.prems in simp)
qed simp

lemma map_of_remove_nth:
  assumes "find_pair_item k ps = Some i" "distinct (map fst ps)"
  shows "map_of (take i ps @ drop (Suc i) ps) = (map_of ps)(k := None)"
  using assms
proof (induction k ps arbitrary: i rule: find_pair_item.induct)
  case (2 k k' v ps)
  show ?case
  proof (cases "k = k'")
    case True
    then have "map_of ps k = None" using "2.prems" by (auto simp: map_of_eq_None_iff)
    with True 2 show ?thesis by auto
  next
    case False
    with 2 show ?thesis by (auto simp: fun_upd_twist)
  qed
qed simp

section \<open>The operations on the map\<close>

lemma bano_dict_get_map: "bano_dict_get d k = dict_map d k"
  by (auto simp: bano_dict_get_def find_pair_def dict_map_def Let_def
      dest: find_pair_item_Some find_pair_item_None_map split: option.splits)

lemma find_pair_None: "find_pair d k = None \<longleftrightarrow> dict_map d k = None"
  by (auto simp: find_pair_def dict_map_def Let_def
      dest: find_pair_item_Some find_pair_item_None_map split: option.splits)

lemma find_pair_Some:
  "find_pair d k = Some (h, i) \<Longrightarrow> h = bucket d k \<and> find_pair_item k (lists d ! h) = Some i"
  by (auto simp: find_pair_def Let_def split: option.splits)

text \<open>Replacing the list of one bucket by one with keys of that bucket.\<close>

lemma dict_map_bucket_upd:
  assumes "dict_wf d" "h = bucket d k" "map_of l = (map_of (lists d ! h))(k := x)"
  shows "dict_map (d\<lparr>lists := (lists d)[h := l]\<rparr>) = (dict_map d)(k := x)"
proof
  fix k'
  show "dict_map (d\<lparr>lists := (lists d)[h := l]\<rparr>) k' = ((dict_map d)(k := x)) k'"
  proof (cases "bucket d k' = h")
    case True
    with assms bucket_bound [OF assms(1), of k] show ?thesis by (simp add: dict_map_def)
  next
    case False
    with assms(2) show ?thesis by (auto simp: dict_map_def)
  qed
qed

lemma dict_wf_bucket_upd:
  assumes "dict_wf d" "h = bucket d k" "distinct (map fst l)"
    and "fst ` set l \<subseteq> insert k (fst ` set (lists d ! h))"
  shows "dict_wf (d\<lparr>lists := (lists d)[h := l]\<rparr>)"
proof -
  let ?d = "d\<lparr>lists := (lists d)[h := l]\<rparr>"
  have h: "h < length (lists d)" using assms(2) bucket_bound [OF assms(1)] by simp
  have old: "\<And>j. j < length (lists d) \<Longrightarrow>
      (\<forall>k \<in> fst ` set (lists d ! j). bucket d k = j) \<and> distinct (map fst (lists d ! j))"
    using assms(1) by (simp add: dict_wf_def)
  have keys: "bucket d k' = h" if "k' \<in> fst ` set l" for k'
    using that assms(2,4) old [OF h] by blast
  have "(\<forall>k \<in> fst ` set (lists ?d ! j). bucket ?d k = j) \<and> distinct (map fst (lists ?d ! j))"
    if "j < length (lists d)" for j
    using that h keys assms(3) old [OF that] by (cases "j = h") simp_all
  with assms(1) show ?thesis by (simp add: dict_wf_def)
qed

lemma bano_dict_init_wf:
  assumes "bano_dict_init_with_nlist ms vsz l2 = (ms', Some d)" "l2 < 32"
  shows "dict_wf d" "dict_map d = Map.empty"
  using assms hash_bound [OF assms(2)]
  by (auto simp: bano_dict_init_with_nlist_def dict_wf_def dict_map_def bucket_def get_hash_def
      fun_eq_iff split: prod.splits if_splits)

lemma bano_dict_set_map:
  assumes "dict_wf d"
  shows "bano_dict_set d k v = (r, d') \<Longrightarrow> dict_wf d' \<and>
     (if dict_map d k = None then r = Err \<and> d' = d else r = Ok \<and> dict_map d' = (dict_map d)(k \<mapsto> v))"
proof (cases "find_pair d k")
  case None
  moreover assume "bano_dict_set d k v = (r, d')"
  ultimately have "r = Err" "d' = d" "dict_map d k = None"
    by (auto simp: bano_dict_set_def find_pair_None [symmetric])
  then show ?thesis using assms by simp
next
  case (Some hi)
  moreover assume s: "bano_dict_set d k v = (r, d')"
  moreover obtain h i where hi: "hi = (h, i)" by fastforce
  ultimately have h: "h = bucket d k" "find_pair_item k (lists d ! h) = Some i"
    using find_pair_Some by blast+
  let ?l = "(lists d ! h)[i := (fst (lists d ! h ! i), v)]"
  from find_pair_item_Some [OF h(2)] have i: "i < length (lists d ! h)" "fst (lists d ! h ! i) = k"
    by auto
  have d': "r = Ok" "d' = d\<lparr>lists := (lists d)[h := ?l]\<rparr>"
    using s Some hi by (auto simp: bano_dict_set_def)
  have keys: "map fst ?l = map fst (lists d ! h)"
    by (metis fst_conv i(1) list_update_id map_update nth_map)
  have "distinct (map fst (lists d ! h))"
    using assms bucket_bound [OF assms, of k] h by (auto simp: dict_wf_def)
  then have "dict_wf d'"
    unfolding d' using keys by (intro dict_wf_bucket_upd [OF assms h(1)]) (auto simp flip: set_map)
  moreover have "dict_map d' = (dict_map d)(k \<mapsto> v)"
    unfolding d' using i(2) h
    by (intro dict_map_bucket_upd [OF assms h(1)]) (simp add: map_of_update_nth)
  ultimately show ?thesis using d' Some by (auto simp: find_pair_None [symmetric])
qed

text \<open>\<open>bano_dict_add\<close> does not look for the key: well-formedness needs it to be new.\<close>

lemma bano_dict_add_map:
  assumes "dict_wf d" "dict_map d k = None" "bano_dict_add ms d k v = (r, ms', d')"
  shows "dict_wf d'" "r = Ok \<Longrightarrow> dict_map d' = (dict_map d)(k \<mapsto> v)" "r = Err \<Longrightarrow> d' = d"
proof -
  let ?h = "bucket d k" and ?l = "lists d ! bucket d k @ [(k, v)]"
  have d': "r = Ok \<and> d' = d\<lparr>lists := (lists d)[?h := ?l]\<rparr> \<or> r = Err \<and> d' = d"
    using assms(3) by (auto simp: bano_dict_add_def Let_def split: prod.splits if_splits)
  have new: "k \<notin> fst ` set (lists d ! ?h)"
    using assms(2) by (simp add: dict_map_def map_of_eq_None_iff)
  have "distinct (map fst ?l)"
    using new assms(1) bucket_bound [OF assms(1), of k] by (auto simp: dict_wf_def)
  with d' show "dict_wf d'"
    using assms(1) by (auto intro!: dict_wf_bucket_upd)
  have "map_of ?l = (map_of (lists d ! ?h))(k \<mapsto> v)"
    by (rule map_of_snoc [OF new])
  then show "r = Ok \<Longrightarrow> dict_map d' = (dict_map d)(k \<mapsto> v)"
    using d' by (auto intro!: dict_map_bucket_upd [OF assms(1)])
  show "r = Err \<Longrightarrow> d' = d" using d' by auto
qed

lemma bano_dict_set_or_add_map:
  assumes "dict_wf d" "bano_dict_set_or_add ms d k v = (r, ms', d')"
  shows "dict_wf d'" "r = Ok \<Longrightarrow> dict_map d' = (dict_map d)(k \<mapsto> v)" "r = Err \<Longrightarrow> d' = d"
  using assms bano_dict_set_map [OF assms(1), of k v] bano_dict_add_map [OF assms(1), of k ms v r ms' d']
  by (auto simp: bano_dict_set_or_add_def split: prod.splits rc.splits if_splits)

lemma bano_dict_del_map:
  assumes "dict_wf d" "bano_dict_del d k f s = (r, d', s')"
  shows "dict_wf d'" "r = Ok \<Longrightarrow> dict_map d' = (dict_map d)(k := None)"
    "r = Err \<longleftrightarrow> dict_map d k = None"
proof -
  have "dict_wf d' \<and> (r = Ok \<longrightarrow> dict_map d' = (dict_map d)(k := None)) \<and> (r = Err \<longleftrightarrow> dict_map d k = None)"
  proof (cases "find_pair d k")
    case None
    with assms show ?thesis by (auto simp: bano_dict_del_def find_pair_None)
  next
    case (Some hi)
    obtain h i where hi: "hi = (h, i)" by fastforce
    with Some have h: "h = bucket d k" "find_pair_item k (lists d ! h) = Some i"
      using find_pair_Some by blast+
    let ?l = "take i (lists d ! h) @ drop (Suc i) (lists d ! h)"
    have d': "r = Ok" "d' = d\<lparr>lists := (lists d)[h := ?l]\<rparr>"
      using assms(2) Some hi by (auto simp: bano_dict_del_def Let_def)
    have dist: "distinct (map fst (lists d ! h))"
      using assms(1) bucket_bound [OF assms(1), of k] h by (auto simp: dict_wf_def)
    then have "distinct (map fst ?l)" by (rule distinct_remove_nth)
    then have "dict_wf d'"
      unfolding d' by (intro dict_wf_bucket_upd [OF assms(1) h(1)])
        (auto dest: in_set_takeD in_set_dropD)
    moreover have "dict_map d' = (dict_map d)(k := None)"
      unfolding d' by (intro dict_map_bucket_upd [OF assms(1) h(1)] map_of_remove_nth [OF h(2) dist])
    ultimately show ?thesis using d' Some by (auto simp: find_pair_None [symmetric])
  qed
  then show "dict_wf d'" "r = Ok \<Longrightarrow> dict_map d' = (dict_map d)(k := None)"
    "r = Err \<longleftrightarrow> dict_map d k = None" by auto
qed

section \<open>Interface\<close>

text \<open>
  What a client of the dictionaries relies on: a store with an invariant, read as a finite
  map, an insertion that may fail (and then changes nothing it reads) and a removal.
\<close>

locale kv_store =
  fixes inv :: "'s \<Rightarrow> bool"
    and lookup :: "'s \<Rightarrow> u32 \<Rightarrow> 'v option"
    and put :: "'s \<Rightarrow> u32 \<Rightarrow> 'v \<Rightarrow> rc \<times> 's"
    and remove :: "'s \<Rightarrow> u32 \<Rightarrow> rc \<times> 's"
  assumes put_inv: "inv s \<Longrightarrow> inv (snd (put s k v))"
    and put_lookup: "inv s \<Longrightarrow> lookup (snd (put s k v)) =
        (if fst (put s k v) = Ok then (lookup s)(k \<mapsto> v) else lookup s)"
    and remove_inv: "inv s \<Longrightarrow> inv (snd (remove s k))"
    and remove_lookup: "inv s \<Longrightarrow> lookup (snd (remove s k)) = (lookup s)(k := None)"
    and remove_ok: "inv s \<Longrightarrow> fst (remove s k) = Ok \<longleftrightarrow> lookup s k \<noteq> None"
begin

definition put_all :: "(u32 \<times> 'v) list \<Rightarrow> 's \<Rightarrow> 's" where
  "put_all kvs s = fold (\<lambda>(k, v) s. snd (put s k v)) kvs s"

lemma put_all_inv: "inv s \<Longrightarrow> inv (put_all kvs s)"
  unfolding put_all_def by (induction kvs arbitrary: s) (auto simp: put_inv)

lemma put_other: "inv s \<Longrightarrow> k \<noteq> k' \<Longrightarrow> lookup (snd (put s k v)) k' = lookup s k'"
  by (simp add: put_lookup)

text \<open>A key no pair of the sequence has keeps its value.\<close>

lemma put_all_other: "inv s \<Longrightarrow> k \<notin> fst ` set kvs \<Longrightarrow> lookup (put_all kvs s) k = lookup s k"
  unfolding put_all_def
  by (induction kvs arbitrary: s) (auto simp: put_inv put_other)

text \<open>The last successful insertion wins, whatever was stored before and between.\<close>

lemma put_last:
  assumes "inv s" "fst (put s k v) = Ok" "k \<notin> fst ` set kvs"
  shows "lookup (put_all kvs (snd (put s k v))) k = Some v"
  using assms by (simp add: put_all_other put_inv put_lookup)

lemma put_remove: "inv s \<Longrightarrow> lookup s k = None \<Longrightarrow> lookup (snd (remove (snd (put s k v)) k)) = lookup s"
  by (auto simp: put_inv put_lookup remove_lookup)

lemma remove_twice: "inv s \<Longrightarrow> fst (remove (snd (remove s k)) k) = Err"
  using remove_ok [of "snd (remove s k)" k]
  by (cases "fst (remove (snd (remove s k)) k)") (auto simp: remove_inv remove_lookup)

end

text \<open>The dictionary with the pending results of \<open>malloc\<close> is such a store.\<close>

definition dict_put :: "mallocs \<times> 'v dict \<Rightarrow> u32 \<Rightarrow> 'v \<Rightarrow> rc \<times> mallocs \<times> 'v dict" where
  "dict_put s k v = bano_dict_set_or_add (fst s) (snd s) k v"

definition dict_remove :: "mallocs \<times> 'v dict \<Rightarrow> u32 \<Rightarrow> rc \<times> mallocs \<times> 'v dict" where
  "dict_remove s k = (case bano_dict_del (snd s) k (\<lambda>_ _. ()) () of (r, d', _) \<Rightarrow> (r, fst s, d'))"

lemma dict_put_laws:
  assumes "dict_wf (snd s)"
  shows "dict_wf (snd (snd (dict_put s k v)))"
    and "dict_map (snd (snd (dict_put s k v))) =
      (if fst (dict_put s k v) = Ok then (dict_map (snd s))(k \<mapsto> v) else dict_map (snd s))"
proof -
  obtain r ms' d' where p: "bano_dict_set_or_add (fst s) (snd s) k v = (r, ms', d')"
    by (cases "bano_dict_set_or_add (fst s) (snd s) k v") auto
  note l = bano_dict_set_or_add_map [OF assms p]
  from l(1) show "dict_wf (snd (snd (dict_put s k v)))" by (simp add: dict_put_def p)
  from l(2,3) show "dict_map (snd (snd (dict_put s k v))) =
      (if fst (dict_put s k v) = Ok then (dict_map (snd s))(k \<mapsto> v) else dict_map (snd s))"
    by (cases r) (simp_all add: dict_put_def p)
qed

lemma dict_remove_laws:
  assumes "dict_wf (snd s)"
  shows "dict_wf (snd (snd (dict_remove s k)))"
    and "dict_map (snd (snd (dict_remove s k))) = (dict_map (snd s))(k := None)"
    and "fst (dict_remove s k) = Ok \<longleftrightarrow> dict_map (snd s) k \<noteq> None"
proof -
  obtain r d' where p: "bano_dict_del (snd s) k (\<lambda>_ _. ()) () = (r, d', ())"
    by (cases "bano_dict_del (snd s) k (\<lambda>_ _. ()) ()") auto
  note l = bano_dict_del_map [OF assms p]
  have e: "d' = snd s" if "r = Err"
    using that p by (auto simp: bano_dict_del_def Let_def split: option.splits prod.splits)
  from l(1) show "dict_wf (snd (snd (dict_remove s k)))" by (simp add: dict_remove_def p)
  from l(2,3) e show "dict_map (snd (snd (dict_remove s k))) = (dict_map (snd s))(k := None)"
    by (cases r) (auto simp: dict_remove_def p)
  from l(3) show "fst (dict_remove s k) = Ok \<longleftrightarrow> dict_map (snd s) k \<noteq> None"
    by (cases r) (auto simp: dict_remove_def p)
qed

interpretation node_values: kv_store "\<lambda>s. dict_wf (snd s)" "\<lambda>s. bano_dict_get (snd s)" dict_put dict_remove
  by unfold_locales
    (auto simp: bano_dict_get_map [abs_def] dict_put_laws dict_remove_laws)

end
