(* ===== verification/Bano_String.thy ===== *)
theory Bano_String
  imports Bano_Prelude "HOL-Library.Sublist"
begin

text \<open>
  The counted strings of \<open>src/base/bano_string.c\<close> and the parts of the C library they rest
  on: \<open>strtoul\<close>, and the \<open>printf\<close> conversions the programs use to print what these
  functions read back. A \<open>bano_string_t\<close> (a pointer and a size) is the list of its characters.
\<close>

section \<open>The C library: printing numbers\<close>

definition hexdigit :: "nat \<Rightarrow> char" where
  "hexdigit d = (if d < 10 then char_of (48 + d) else char_of (87 + d))"

text \<open>The conversions \<open>%02x\<close>, \<open>%04x\<close>, \<open>%08x\<close> on values that fit the width.\<close>

fun hex_fixed :: "nat \<Rightarrow> nat \<Rightarrow> string" where
  "hex_fixed 0 v = []"
| "hex_fixed (Suc k) v = hex_fixed k (v div 16) @ [hexdigit (v mod 16)]"

text \<open>The conversions \<open>%u\<close>, \<open>%lu\<close> and \<open>%zu\<close>; \<open>%d\<close> for a signed value.\<close>

fun dec :: "nat \<Rightarrow> string" where
  "dec n = (if n < 10 then [hexdigit n] else dec (n div 10) @ [hexdigit (n mod 10)])"

declare dec.simps [simp del]

definition dec_int :: "int \<Rightarrow> string" where
  "dec_int i = (if i < 0 then CHR ''-'' # dec (nat (- i)) else dec (nat i))"

definition hex8 :: "u32 \<Rightarrow> string" where
  "hex8 x = ''0x'' @ hex_fixed 8 (unat x)"

section \<open>The C library: strtoul\<close>

definition c_isspace :: "char \<Rightarrow> bool" where
  "c_isspace c = (c \<in> {CHR '' '', CHR 0x09, CHR 0x0A, CHR 0x0B, CHR 0x0C, CHR 0x0D})"

definition digit_val :: "char \<Rightarrow> nat" where
  "digit_val c =
     (let n = of_char c in
      if 48 \<le> n \<and> n \<le> 57 then n - 48
      else if 97 \<le> n \<and> n \<le> 122 then n - 87
      else if 65 \<le> n \<and> n \<le> 90 then n - 55
      else 36)"

fun digits_val :: "nat \<Rightarrow> nat \<Rightarrow> string \<Rightarrow> nat" where
  "digits_val b acc [] = acc"
| "digits_val b acc (c # cs) = (if digit_val c < b then digits_val b (acc * b + digit_val c) cs else acc)"

definition strtoul_sign :: "string \<Rightarrow> bool \<times> string" where
  "strtoul_sign s = (case s of [] \<Rightarrow> (False, [])
     | c # cs \<Rightarrow> if c = CHR ''-'' then (True, cs) else if c = CHR ''+'' then (False, cs) else (False, s))"

definition strtoul_prefix :: "nat \<Rightarrow> string \<Rightarrow> string" where
  "strtoul_prefix b s =
     (if b = 16 \<and> 2 < length s \<and> s ! 0 = CHR ''0'' \<and> (s ! 1 = CHR ''x'' \<or> s ! 1 = CHR ''X'')
        \<and> digit_val (s ! 2) < 16
      then drop 2 s else s)"

text \<open>\<open>W\<close> is the width of \<open>unsigned long\<close>: a value that does not fit is \<open>ULONG_MAX\<close>.\<close>

definition strtoul :: "nat \<Rightarrow> string \<Rightarrow> nat \<Rightarrow> nat" where
  "strtoul W s b =
     (case strtoul_sign (dropWhile c_isspace s) of (neg, s1) \<Rightarrow>
       let v = digits_val b 0 (strtoul_prefix b s1) in
       if 2 ^ W \<le> v then 2 ^ W - 1
       else if neg then (2 ^ W - v) mod 2 ^ W
       else v)"

text \<open>A C string ends at the first NUL.\<close>

definition c_str :: "string \<Rightarrow> string" where
  "c_str s = takeWhile (\<lambda>c. c \<noteq> CHR 0x00) s"

section \<open>The functions of bano_string.c\<close>

type_synonym bano_string = string

definition bano_string_init_with_data :: "string \<Rightarrow> bano_string" where
  "bano_string_init_with_data data = data"

definition bano_string_init :: bano_string where
  "bano_string_init = bano_string_init_with_data []"

text \<open>\<open>b\<close> is a C string without its final NUL.\<close>

fun bano_string_cmp_cstr :: "bano_string \<Rightarrow> string \<Rightarrow> rc" where
  "bano_string_cmp_cstr [] b = Ok"
| "bano_string_cmp_cstr (c # a) [] = Err"
| "bano_string_cmp_cstr (c # a) (d # b) = (if c \<noteq> d then Err else bano_string_cmp_cstr a b)"

definition bano_string_to_bool :: "bano_string \<Rightarrow> bool option" where
  "bano_string_to_bool s =
     (if bano_string_cmp_cstr s ''yes'' = Ok then Some True
      else if bano_string_cmp_cstr s ''true'' = Ok then Some True
      else if bano_string_cmp_cstr s ''1'' = Ok then Some True
      else if bano_string_cmp_cstr s ''no'' = Ok then Some False
      else if bano_string_cmp_cstr s ''false'' = Ok then Some False
      else if bano_string_cmp_cstr s ''0'' = Ok then Some False
      else None)"

definition get_base :: "string \<Rightarrow> nat" where
  "get_base s = (case s of a # b # _ \<Rightarrow> if a = CHR ''0'' \<and> b = CHR ''x'' then 16 else 10 | _ \<Rightarrow> 10)"

definition bano_string_to_uint32 :: "nat \<Rightarrow> bano_string \<Rightarrow> u32 option" where
  "bano_string_to_uint32 W s =
     (if 32 \<le> length s then None else Some (of_nat (strtoul W s (get_base s))))"

definition bano_string_to_uint16 :: "nat \<Rightarrow> bano_string \<Rightarrow> u16 option" where
  "bano_string_to_uint16 W s =
     (case bano_string_to_uint32 W s of None \<Rightarrow> None | Some xx \<Rightarrow> Some (ucast xx))"

text \<open>
  Each element is read with \<open>strtoul\<close> from the string's memory, which is not terminated:
  \<open>rest\<close> is what follows the string there.
\<close>

definition bano_string_to_array :: "nat \<Rightarrow> bano_string \<Rightarrow> string \<Rightarrow> nat \<Rightarrow> u8 list option" where
  "bano_string_to_array W s rest n =
     (if int (length s) \<noteq> int n * 5 - 1 then None
      else Some (map (\<lambda>i. of_nat (strtoul W (drop (i * 5) (s @ rest)) 16)) [0..<n]))"

definition BANO_CIPHER_KEY_SIZE :: nat where
  "BANO_CIPHER_KEY_SIZE = 16"

definition bano_string_to_cipher_key :: "nat \<Rightarrow> bano_string \<Rightarrow> string \<Rightarrow> u8 list option" where
  "bano_string_to_cipher_key W s rest = bano_string_to_array W s rest BANO_CIPHER_KEY_SIZE"

definition bano_string_to_cstr :: "mallocs \<Rightarrow> bano_string \<Rightarrow> mallocs \<times> string option" where
  "bano_string_to_cstr ms s =
     (case malloc ms of (a, ms') \<Rightarrow> if a = 0 then (ms', None) else (ms', Some s))"

section \<open>Comparison\<close>

text \<open>The comparison stops at the end of the counted string: it accepts every prefix.\<close>

lemma cmp_cstr_prefix [cstr_simps]: "bano_string_cmp_cstr a b = Ok \<longleftrightarrow> prefix a b"
  by (induction a b rule: bano_string_cmp_cstr.induct) auto

lemma rc_cases [cstr_simps]: "bano_string_cmp_cstr a b = Err \<longleftrightarrow> \<not> prefix a b"
  by (metis cmp_cstr_prefix rc.exhaust rc.distinct(1))

lemma to_bool_iff:
  "bano_string_to_bool s = Some True \<longleftrightarrow> prefix s ''yes'' \<or> prefix s ''true'' \<or> prefix s ''1''"
  "bano_string_to_bool s = Some False \<longleftrightarrow>
     s \<noteq> [] \<and> (prefix s ''no'' \<or> prefix s ''false'' \<or> prefix s ''0'')"
  by (auto simp: bano_string_to_bool_def cstr_simps prefix_Cons)

section \<open>Printing and reading back\<close>

lemma of_char_hexdigit: "d < 16 \<Longrightarrow> digit_val (hexdigit d) = d"
  by (auto simp: hexdigit_def digit_val_def Let_def)

lemma digits_val_append:
  "(\<And>c. c \<in> set xs \<Longrightarrow> digit_val c < b) \<Longrightarrow>
     digits_val b acc (xs @ ys) = digits_val b (digits_val b acc xs) ys"
  by (induction xs arbitrary: acc) auto

lemma hex_fixed_digits: "c \<in> set (hex_fixed k v) \<Longrightarrow> digit_val c < 16"
  by (induction k v rule: hex_fixed.induct) (auto simp: of_char_hexdigit)

lemma length_hex_fixed [simp]: "length (hex_fixed k v) = k"
  by (induction k v rule: hex_fixed.induct) auto

lemma digits_val_hex_fixed: "digits_val 16 0 (hex_fixed k v) = v mod 16 ^ k"
proof (induction k v rule: hex_fixed.induct)
  case (2 k v)
  have "digits_val 16 0 (hex_fixed (Suc k) v) = (v div 16 mod 16 ^ k) * 16 + v mod 16"
    using hex_fixed_digits by (simp add: digits_val_append 2 of_char_hexdigit)
  also have "\<dots> = v mod 16 ^ Suc k"
    by (simp add: mod_mult2_eq)
  finally show ?case .
qed simp

lemma dec_digits: "c \<in> set (dec v) \<Longrightarrow> digit_val c < 10"
proof (induction v rule: dec.induct)
  case (1 n)
  then show ?case by (subst (asm) dec.simps) (auto simp: of_char_hexdigit split: if_splits)
qed

lemma digits_val_dec: "digits_val 10 0 (dec v) = v"
proof (induction v rule: dec.induct)
  case (1 n)
  show ?case
  proof (cases "n < 10")
    case True
    then show ?thesis by (subst dec.simps) (simp add: of_char_hexdigit)
  next
    case False
    with 1 show ?thesis
      by (subst dec.simps) (simp add: digits_val_append dec_digits of_char_hexdigit)
  qed
qed

lemma digit_not_sign: "digit_val c < 16 \<Longrightarrow> \<not> c_isspace c \<and> c \<noteq> CHR ''-'' \<and> c \<noteq> CHR ''+''"
  by (auto simp: digit_val_def c_isspace_def Let_def)

lemma strtoul_digits:
  assumes "\<And>c. c \<in> set s \<Longrightarrow> digit_val c < b" "b \<le> 16" "b = 16 \<longrightarrow> s = [] \<or> hd s \<noteq> CHR ''0'' \<or>
     length s < 2 \<or> (s ! 1 \<noteq> CHR ''x'' \<and> s ! 1 \<noteq> CHR ''X'')"
  shows "strtoul W s b = min (digits_val b 0 s) (2 ^ W - 1)"
proof -
  have "strtoul_sign (dropWhile c_isspace s) = (False, s)"
    using assms(1,2) digit_not_sign [of "hd s"] by (cases s) (force simp: strtoul_sign_def)+
  moreover have "strtoul_prefix b s = s"
    using assms(3) by (cases s) (auto simp: strtoul_prefix_def)
  ultimately show ?thesis by (auto simp: strtoul_def Let_def min_def)
qed

lemma strtoul_0x:
  assumes "\<And>c. c \<in> set s \<Longrightarrow> digit_val c < 16" "s \<noteq> []" "rest = [] \<or> digit_val (hd rest) \<ge> 16"
    and "digits_val 16 0 s < 2 ^ W"
  shows "strtoul W (''0x'' @ s @ rest) 16 = digits_val 16 0 s"
proof -
  have "dropWhile c_isspace (''0x'' @ s @ rest) = ''0x'' @ s @ rest"
    by (simp add: c_isspace_def)
  moreover have "strtoul_prefix 16 (''0x'' @ s @ rest) = s @ rest"
    using assms(1) [of "hd s"] assms(2) by (cases s) (auto simp: strtoul_prefix_def)
  moreover have "digits_val 16 0 (s @ rest) = digits_val 16 0 s"
    using assms(1,3) by (cases rest) (auto simp: digits_val_append)
  ultimately show ?thesis
    using assms(4) by (simp add: strtoul_def strtoul_sign_def)
qed

lemma to_uint32_hex8:
  assumes "32 \<le> W"
  shows "bano_string_to_uint32 W (hex8 x) = Some x"
proof -
  have "digits_val 16 0 (hex_fixed 8 (unat x)) = unat x"
    by (simp add: digits_val_hex_fixed)
  moreover have "unat x < 2 ^ W" using assms by (rule unat_u32_less_pow)
  moreover have "hex_fixed 8 (unat x) \<noteq> []"
    by (simp flip: length_0_conv)
  ultimately have "strtoul W (''0x'' @ hex_fixed 8 (unat x) @ []) 16 = unat x"
    using strtoul_0x [of "hex_fixed 8 (unat x)" "[]" W] hex_fixed_digits by metis
  then have "strtoul W (hex8 x) 16 = unat x" by (simp add: hex8_def)
  then show ?thesis by (simp add: bano_string_to_uint32_def hex8_def get_base_def)
qed

lemma length_dec_le: "v < 10 ^ Suc k \<Longrightarrow> length (dec v) \<le> Suc k"
proof (induction k arbitrary: v)
  case 0
  then show ?case by (subst dec.simps) simp
next
  case (Suc k)
  from Suc.prems have "v div 10 < 10 ^ Suc k" by simp
  then have "length (dec (v div 10)) \<le> Suc k" by (rule Suc.IH)
  then show ?case by (subst dec.simps) simp
qed

lemma dec_no_x: "get_base (dec v) = 10"
proof -
  have x: "\<not> digit_val (CHR ''x'') < 10" by (simp add: digit_val_def)
  have "b \<noteq> CHR ''x''" if "dec v = a # b # cs" for a b cs
    using dec_digits [of b v] that x by auto
  then show ?thesis by (auto simp: get_base_def split: list.splits)
qed

lemma to_uint32_dec:
  assumes "32 \<le> W"
  shows "bano_string_to_uint32 W (dec (unat (x :: u32))) = Some x"
proof -
  have "unat x < 10 ^ Suc 9" by (rule order_less_le_trans [OF unat_u32_less]) simp
  then have len: "length (dec (unat x)) \<le> Suc 9" by (rule length_dec_le)
  have "unat x < 2 ^ W" using assms by (rule unat_u32_less_pow)
  then have "strtoul W (dec (unat x)) 10 = unat x"
    using strtoul_digits [of "dec (unat x)" 10 W] dec_digits by (simp add: digits_val_dec)
  with len show ?thesis by (simp add: bano_string_to_uint32_def dec_no_x)
qed

text \<open>A key printed as \<open>0x00,0x01,..\<close>, the format of the configuration files.\<close>

fun print_array :: "u8 list \<Rightarrow> string" where
  "print_array [] = []"
| "print_array [b] = ''0x'' @ hex_fixed 2 (unat b)"
| "print_array (b # c # bs) = ''0x'' @ hex_fixed 2 (unat b) @ '','' @ print_array (c # bs)"

lemma length_print_array: "bs \<noteq> [] \<Longrightarrow> int (length (print_array bs)) = int (length bs) * 5 - 1"
  by (induction bs rule: print_array.induct) auto

lemma print_array_drop:
  "i < length bs \<Longrightarrow> \<exists>t. drop (i * 5) (print_array bs @ rest) =
     ''0x'' @ hex_fixed 2 (unat (bs ! i)) @ t \<and> (t = rest \<or> t \<noteq> [] \<and> hd t = CHR '','')"
proof (induction bs arbitrary: i rule: print_array.induct)
  case (2 b)
  then show ?case by simp
next
  case (3 b c bs)
  show ?case
  proof (cases i)
    case (Suc j)
    define p where "p = ''0x'' @ hex_fixed 2 (unat b) @ '',''"
    have p: "print_array (b # c # bs) = p @ print_array (c # bs)" "length p = 5"
      by (simp_all add: p_def)
    have "drop (i * 5) (print_array (b # c # bs) @ rest) = drop (j * 5) (print_array (c # bs) @ rest)"
      unfolding p(1) using Suc p(2) by simp
    moreover have "\<exists>t. drop (j * 5) (print_array (c # bs) @ rest) =
        ''0x'' @ hex_fixed 2 (unat ((c # bs) ! j)) @ t \<and> (t = rest \<or> t \<noteq> [] \<and> hd t = CHR '','')"
      using 3 Suc by (intro "3.IH") auto
    ultimately show ?thesis using Suc by simp
  qed auto
qed simp

lemma to_array_print_array:
  assumes "8 \<le> W" "bs \<noteq> []" "rest = [] \<or> digit_val (hd rest) \<ge> 16"
  shows "bano_string_to_array W (print_array bs) rest (length bs) = Some bs"
proof -
  have el: "of_nat (strtoul W (drop (i * 5) (print_array bs @ rest)) 16) = bs ! i"
    if i: "i < length bs" for i
  proof -
    obtain t where t: "drop (i * 5) (print_array bs @ rest) = ''0x'' @ hex_fixed 2 (unat (bs ! i)) @ t"
        "t = rest \<or> t \<noteq> [] \<and> hd t = CHR '',''"
      using print_array_drop [OF i] by blast
    let ?d = "hex_fixed 2 (unat (bs ! i))"
    have v: "digits_val 16 0 ?d = unat (bs ! i)" by (simp add: digits_val_hex_fixed)
    have ne: "?d \<noteq> []" by (simp flip: length_0_conv)
    have t': "t = [] \<or> 16 \<le> digit_val (hd t)"
      using t(2) assms(3) by (auto simp: digit_val_def Let_def)
    have "digits_val 16 0 ?d < 2 ^ W" unfolding v using assms(1) by (rule unat_u8_less_pow)
    with hex_fixed_digits ne t' have "strtoul W (''0x'' @ ?d @ t) 16 = digits_val 16 0 ?d"
      by (rule strtoul_0x)
    then show ?thesis unfolding t(1) v by simp
  qed
  then have "map (\<lambda>i. of_nat (strtoul W (drop (i * 5) (print_array bs @ rest)) 16)) [0..<length bs] = bs"
    by (intro nth_equalityI) auto
  then show ?thesis
    using assms(2) by (simp add: bano_string_to_array_def length_print_array)
qed

end
