(* ===== verification/Bano_Cipher.thy ===== *)
theory Bano_Cipher
  imports Bano_Prelude
begin

text \<open>
  The cipher of the messages, \<open>src/base/bano_cipher.c\<close>: XTEA with 32 rounds on two 8 byte
  blocks, in place, or no cipher. The interface \<open>data_cipher\<close> states what the message layer
  relies on: decryption undoes encryption of 16 bytes, and both refuse the same algorithms.
\<close>

section \<open>Algorithms and keys\<close>

datatype bano_cipher_alg = BANO_CIPHER_ALG_NONE | BANO_CIPHER_ALG_XTEA | BANO_CIPHER_ALG_AES

record bano_cipher =
  alg :: bano_cipher_alg
  key :: "u8 list"

definition bano_cipher_info_none :: bano_cipher where
  "bano_cipher_info_none = \<lparr>alg = BANO_CIPHER_ALG_NONE, key = replicate 16 0\<rparr>"

text \<open>The key read as an array of 32 bit words.\<close>

definition key_word :: "u8 list \<Rightarrow> u32 \<Rightarrow> u32" where
  "key_word k i = bytes_u32 (take 4 (drop (4 * unat i) k))"

section \<open>XTEA\<close>

definition xtea_delta :: u32 where
  "xtea_delta = 0x9E3779B9"

definition xtea_mix :: "u32 \<Rightarrow> u32" where
  "xtea_mix v = (push_bit 4 v XOR drop_bit 5 v) + v"

text \<open>One iteration of the loop of each direction, on \<open>v0\<close>, \<open>v1\<close> and \<open>sum\<close>.\<close>

definition xtea_enc_round :: "u8 list \<Rightarrow> u32 \<times> u32 \<times> u32 \<Rightarrow> u32 \<times> u32 \<times> u32" where
  "xtea_enc_round k s = (case s of (v0, v1, sm) \<Rightarrow>
     let v0' = v0 + (xtea_mix v1 XOR (sm + key_word k (sm AND 3)));
         sm' = sm + xtea_delta;
         v1' = v1 + (xtea_mix v0' XOR (sm' + key_word k (drop_bit 11 sm' AND 3)))
     in (v0', v1', sm'))"

definition xtea_dec_round :: "u8 list \<Rightarrow> u32 \<times> u32 \<times> u32 \<Rightarrow> u32 \<times> u32 \<times> u32" where
  "xtea_dec_round k s = (case s of (v0, v1, sm) \<Rightarrow>
     let v1' = v1 - (xtea_mix v0 XOR (sm + key_word k (drop_bit 11 sm AND 3)));
         sm' = sm - xtea_delta;
         v0' = v0 - (xtea_mix v1' XOR (sm' + key_word k (sm' AND 3)))
     in (v0', v1', sm'))"

text \<open>The functions on 8 bytes: read two words, iterate, write two words.\<close>

definition xtea_enc :: "u8 list \<Rightarrow> u8 list \<Rightarrow> u8 list" where
  "xtea_enc v k =
     (case (xtea_enc_round k ^^ 32) (bytes_u32 (take 4 v), bytes_u32 (take 4 (drop 4 v)), 0) of
        (v0, v1, _) \<Rightarrow> u32_bytes v0 @ u32_bytes v1)"

definition xtea_dec :: "u8 list \<Rightarrow> u8 list \<Rightarrow> u8 list" where
  "xtea_dec v k =
     (case (xtea_dec_round k ^^ 32) (bytes_u32 (take 4 v), bytes_u32 (take 4 (drop 4 v)), 0xC6EF3720) of
        (v0, v1, _) \<Rightarrow> u32_bytes v0 @ u32_bytes v1)"

text \<open>
  The two calls on \<open>data + 0\<close> and \<open>data + 8\<close>; bytes after the sixteenth are not touched.
\<close>

definition on_two_blocks :: "(u8 list \<Rightarrow> u8 list) \<Rightarrow> u8 list \<Rightarrow> u8 list" where
  "on_two_blocks f d = f (take 8 d) @ f (take 8 (drop 8 d)) @ drop 16 d"

section \<open>The exported operations\<close>

definition bano_cipher_init :: "bano_cipher \<Rightarrow> rc \<times> bano_cipher" where
  "bano_cipher_init info = (Ok, info)"

definition bano_cipher_fini :: "bano_cipher \<Rightarrow> rc" where
  "bano_cipher_fini c = Ok"

definition bano_cipher_enc :: "bano_cipher \<Rightarrow> u8 list \<Rightarrow> rc \<times> u8 list" where
  "bano_cipher_enc c d = (case alg c of
     BANO_CIPHER_ALG_NONE \<Rightarrow> (Ok, d)
   | BANO_CIPHER_ALG_XTEA \<Rightarrow> (Ok, on_two_blocks (\<lambda>v. xtea_enc v (key c)) d)
   | _ \<Rightarrow> (Err, d))"

definition bano_cipher_dec :: "bano_cipher \<Rightarrow> u8 list \<Rightarrow> rc \<times> u8 list" where
  "bano_cipher_dec c d = (case alg c of
     BANO_CIPHER_ALG_NONE \<Rightarrow> (Ok, d)
   | BANO_CIPHER_ALG_XTEA \<Rightarrow> (Ok, on_two_blocks (\<lambda>v. xtea_dec v (key c)) d)
   | _ \<Rightarrow> (Err, d))"

section \<open>Decryption undoes encryption\<close>

lemma xtea_dec_enc_round [simp]: "xtea_dec_round k (xtea_enc_round k s) = s"
  by (simp add: xtea_dec_round_def xtea_enc_round_def Let_def split: prod.splits)

lemma xtea_enc_dec_round [simp]: "xtea_enc_round k (xtea_dec_round k s) = s"
  by (simp add: xtea_dec_round_def xtea_enc_round_def Let_def split: prod.splits)

lemma funpow_inverse:
  fixes f g :: "'a \<Rightarrow> 'a"
  assumes "\<And>x. g (f x) = x"
  shows "(g ^^ n) ((f ^^ n) x) = x"
proof (induction n arbitrary: x)
  case (Suc n)
  have "(g ^^ Suc n) ((f ^^ Suc n) x) = (g ^^ n) (g (f ((f ^^ n) x)))"
    by (simp add: funpow_swap1)
  then show ?case using Suc assms by simp
qed simp

text \<open>The sum grows by \<open>delta\<close> each round, so that after 32 rounds it is the constant the
  decryption starts from.\<close>

lemma xtea_enc_sum: "snd (snd ((xtea_enc_round k ^^ n) s)) = snd (snd s) + of_nat n * xtea_delta"
proof (induction n)
  case (Suc n)
  have "snd (snd (xtea_enc_round k t)) = snd (snd t) + xtea_delta" for t
    by (simp add: xtea_enc_round_def Let_def split: prod.splits)
  with Suc show ?case by (simp add: algebra_simps)
qed simp

lemma xtea_dec_sum: "snd (snd ((xtea_dec_round k ^^ n) s)) = snd (snd s) - of_nat n * xtea_delta"
proof (induction n)
  case (Suc n)
  have "snd (snd (xtea_dec_round k t)) = snd (snd t) - xtea_delta" for t
    by (simp add: xtea_dec_round_def Let_def split: prod.splits)
  then have "snd (snd ((xtea_dec_round k ^^ Suc n) s)) = snd (snd ((xtea_dec_round k ^^ n) s)) - xtea_delta"
    by simp
  also have "\<dots> = snd (snd s) - of_nat (Suc n) * xtea_delta"
    unfolding Suc by (simp add: algebra_simps)
  finally show ?case .
qed simp

lemma xtea_sum_32: "of_nat 32 * xtea_delta = 0xC6EF3720"
  by (simp add: xtea_delta_def)

lemma length_xtea_enc [simp, bytes_simps]: "length (xtea_enc v k) = 8"
  by (simp add: xtea_enc_def split: prod.splits)

lemma length_xtea_dec [simp, bytes_simps]: "length (xtea_dec v k) = 8"
  by (simp add: xtea_dec_def split: prod.splits)

lemma block_words:
  assumes "length v = 8"
  shows "u32_bytes (bytes_u32 (take 4 v)) @ u32_bytes (bytes_u32 (take 4 (drop 4 v))) = v"
proof -
  have "u32_bytes (bytes_u32 (take 4 v)) = take 4 v"
    by (rule u32_bytes_bytes_u32) (simp add: assms)
  moreover have "u32_bytes (bytes_u32 (take 4 (drop 4 v))) = take 4 (drop 4 v)"
    by (rule u32_bytes_bytes_u32) (simp add: assms)
  moreover have "take 4 (drop 4 v) = drop 4 v" using assms by simp
  ultimately show ?thesis by simp
qed

lemma xtea_dec_enc: "length v = 8 \<Longrightarrow> xtea_dec (xtea_enc v k) k = v"
proof -
  assume v: "length v = 8"
  let ?s = "(bytes_u32 (take 4 v), bytes_u32 (take 4 (drop 4 v)), 0 :: u32)"
  obtain v0 v1 sm where e: "(xtea_enc_round k ^^ 32) ?s = (v0, v1, sm)"
    by (cases "(xtea_enc_round k ^^ 32) ?s") auto
  have "sm = 0xC6EF3720"
    using xtea_enc_sum [of 32 k ?s] e xtea_sum_32 by simp
  with e have "(xtea_dec_round k ^^ 32) (v0, v1, 0xC6EF3720) = ?s"
    using funpow_inverse [of "xtea_dec_round k" "xtea_enc_round k" 32 ?s] by simp
  then show ?thesis
    by (simp add: xtea_enc_def xtea_dec_def e block_words [OF v])
qed

lemma xtea_enc_dec: "length v = 8 \<Longrightarrow> xtea_enc (xtea_dec v k) k = v"
proof -
  assume v: "length v = 8"
  let ?s = "(bytes_u32 (take 4 v), bytes_u32 (take 4 (drop 4 v)), 0xC6EF3720 :: u32)"
  obtain v0 v1 sm where e: "(xtea_dec_round k ^^ 32) ?s = (v0, v1, sm)"
    by (cases "(xtea_dec_round k ^^ 32) ?s") auto
  have "sm = 0"
    using xtea_dec_sum [of 32 k ?s] e xtea_sum_32 by simp
  with e have "(xtea_enc_round k ^^ 32) (v0, v1, 0) = ?s"
    using funpow_inverse [of "xtea_enc_round k" "xtea_dec_round k" 32 ?s] by simp
  then show ?thesis
    by (simp add: xtea_enc_def xtea_dec_def e block_words [OF v])
qed

lemma on_two_blocks_inverse:
  assumes "\<And>v. length v = 8 \<Longrightarrow> g (f v) = v" "\<And>v. length (f v) = 8" "16 \<le> length d"
  shows "on_two_blocks g (on_two_blocks f d) = d"
proof -
  have "g (f (take 8 d)) = take 8 d" "g (f (take 8 (drop 8 d))) = take 8 (drop 8 d)"
    using assms(1,3) by simp_all
  moreover have "take 8 (drop 8 d) @ drop 16 d = drop 8 d"
    by (metis append_take_drop_id drop_drop numeral_Bit0)
  moreover have "take 8 d @ drop 8 d = d" by simp
  ultimately show ?thesis using assms(2) by (simp add: on_two_blocks_def)
qed

lemma length_on_two_blocks:
  "(\<And>v. length (f v) = 8) \<Longrightarrow> 16 \<le> length d \<Longrightarrow> length (on_two_blocks f d) = length d"
  by (simp add: on_two_blocks_def)

section \<open>Interface\<close>

text \<open>
  A cipher on data of at least 16 bytes: it keeps the length, decryption undoes encryption
  and encryption undoes decryption, and a refused algorithm leaves the data as it was.
\<close>

locale data_cipher =
  fixes enc dec :: "'c \<Rightarrow> u8 list \<Rightarrow> rc \<times> u8 list"
  assumes enc_length: "16 \<le> length d \<Longrightarrow> length (snd (enc c d)) = length d"
    and dec_length: "16 \<le> length d \<Longrightarrow> length (snd (dec c d)) = length d"
    and dec_enc: "16 \<le> length d \<Longrightarrow> dec c (snd (enc c d)) = (fst (enc c d), d)"
    and enc_dec: "16 \<le> length d \<Longrightarrow> enc c (snd (dec c d)) = (fst (dec c d), d)"
begin

lemma enc_injective:
  "16 \<le> length d \<Longrightarrow> 16 \<le> length d' \<Longrightarrow> snd (enc c d) = snd (enc c d') \<Longrightarrow> d = d'"
  by (metis dec_enc snd_conv)

lemma enc_surjective: "16 \<le> length d \<Longrightarrow> \<exists>d'. length d' = length d \<and> snd (enc c d') = d"
  by (metis dec_length enc_dec snd_conv)

lemma enc_bij: "16 \<le> n \<Longrightarrow> bij_betw (\<lambda>d. snd (enc c d)) {d. length d = n} {d. length d = n}"
  by (rule bij_betw_byWitness [where f' = "\<lambda>d. snd (dec c d)"])
    (auto simp: dec_enc enc_dec enc_length dec_length)

lemma dec_ok: "16 \<le> length d \<Longrightarrow> enc c d = (Ok, d') \<Longrightarrow> dec c d' = (Ok, d)"
  by (metis dec_enc fst_conv snd_conv)

end

interpretation base_cipher: data_cipher bano_cipher_enc bano_cipher_dec
  by unfold_locales
    (auto simp: bano_cipher_enc_def bano_cipher_dec_def length_on_two_blocks on_two_blocks_inverse
      xtea_dec_enc xtea_enc_dec split: bano_cipher_alg.splits)

lemma bano_cipher_ok:
  "fst (bano_cipher_enc c d) = Ok \<longleftrightarrow> alg c \<noteq> BANO_CIPHER_ALG_AES"
  "fst (bano_cipher_dec c d) = Ok \<longleftrightarrow> alg c \<noteq> BANO_CIPHER_ALG_AES"
  by (simp_all add: bano_cipher_enc_def bano_cipher_dec_def split: bano_cipher_alg.splits)

lemma bano_cipher_none:
  "alg c = BANO_CIPHER_ALG_NONE \<Longrightarrow> bano_cipher_enc c d = (Ok, d)"
  "alg c = BANO_CIPHER_ALG_NONE \<Longrightarrow> bano_cipher_dec c d = (Ok, d)"
  by (simp_all add: bano_cipher_enc_def bano_cipher_dec_def)

end
