(* ===== verification/Bano_Msg.thy ===== *)
theory Bano_Msg
  imports Bano_Cipher
begin

text \<open>
  The messages of \<open>src/common/bano_common.h\<close>: a packed 17 byte structure that base station
  and nodes exchange as it lies in memory, with the union of the set and get bodies kept as
  its 6 bytes. Encryption covers everything after the first byte.
\<close>

section \<open>Layout\<close>

definition BANO_MSG_OP_SET :: "2 word" where "BANO_MSG_OP_SET = 0"
definition BANO_MSG_OP_GET :: "2 word" where "BANO_MSG_OP_GET = 1"

definition BANO_MSG_FLAG_REPLY :: "6 word" where "BANO_MSG_FLAG_REPLY = 1"
definition BANO_MSG_FLAG_ERR :: "6 word" where "BANO_MSG_FLAG_ERR = 2"
definition BANO_MSG_FLAG_ENC :: "6 word" where "BANO_MSG_FLAG_ENC = 4"

definition BANO_MSG_SIZE :: nat where "BANO_MSG_SIZE = 17"
definition BANO_MSG_ENC_OFF :: nat where "BANO_MSG_ENC_OFF = 1"

definition BANO_KEY_RESERVED :: "u16 \<Rightarrow> u16" where
  "BANO_KEY_RESERVED x = x OR 0x8000"

definition BANO_KEY_NEXT_MSG :: u16 where "BANO_KEY_NEXT_MSG = BANO_KEY_RESERVED 3"

definition BANO_DEFAULT_NODE_ADDR :: u32 where "BANO_DEFAULT_NODE_ADDR = 0xa5a5a5a5"
definition BANO_DEFAULT_BASE_ADDR :: u32 where "BANO_DEFAULT_BASE_ADDR = 0x5a5a5a5a"

record bano_msg =
  op :: "2 word"
  flags :: "6 word"
  saddr :: u32
  csum :: u16
  token :: u32
  body :: "u8 list"

text \<open>The union: 6 bytes, the key first and the value of a set after it.\<close>

definition msg_wf :: "bano_msg \<Rightarrow> bool" where
  "msg_wf m \<longleftrightarrow> length (body m) = 6"

definition set_key :: "bano_msg \<Rightarrow> u16" where
  "set_key m = bytes_u16 (take 2 (body m))"

definition set_val :: "bano_msg \<Rightarrow> u32" where
  "set_val m = bytes_u32 (take 4 (drop 2 (body m)))"

definition get_key :: "bano_msg \<Rightarrow> u16" where
  "get_key m = bytes_u16 (take 2 (body m))"

definition put_key :: "u16 \<Rightarrow> bano_msg \<Rightarrow> bano_msg" where
  "put_key k m = m\<lparr>body := u16_bytes k @ drop 2 (body m)\<rparr>"

definition put_val :: "u32 \<Rightarrow> bano_msg \<Rightarrow> bano_msg" where
  "put_val v m = m\<lparr>body := take 2 (body m) @ u32_bytes v @ drop 6 (body m)\<rparr>"

text \<open>A test and an update of the flags.\<close>

definition has_flag :: "'a :: len word \<Rightarrow> 'a word \<Rightarrow> bool" where
  "has_flag fl b \<longleftrightarrow> fl AND b \<noteq> 0"

section \<open>Bytes in memory\<close>

text \<open>The bit fields \<open>op: 2\<close> and \<open>flags: 6\<close> share the first byte, \<open>op\<close> in its low bits.\<close>

definition hdr_byte :: "2 word \<Rightarrow> 6 word \<Rightarrow> u8" where
  "hdr_byte o' f = ucast o' OR push_bit 2 (ucast f)"

definition msg_bytes :: "bano_msg \<Rightarrow> u8 list" where
  "msg_bytes m = hdr_byte (op m) (flags m)
     # u32_bytes (saddr m) @ u16_bytes (csum m) @ u32_bytes (token m) @ body m"

definition bytes_msg :: "u8 list \<Rightarrow> bano_msg" where
  "bytes_msg bs =
     \<lparr>op = ucast (bs ! 0), flags = ucast (drop_bit 2 (bs ! 0)),
      saddr = bytes_u32 (take 4 (drop 1 bs)), csum = bytes_u16 (take 2 (drop 5 bs)),
      token = bytes_u32 (take 4 (drop 7 bs)), body = drop 11 bs\<rparr>"

text \<open>A cipher applied to a message in place, from \<open>BANO_MSG_ENC_OFF\<close> on.\<close>

definition on_enc_part :: "(u8 list \<Rightarrow> u8 list) \<Rightarrow> bano_msg \<Rightarrow> bano_msg" where
  "on_enc_part f m = bytes_msg (take BANO_MSG_ENC_OFF (msg_bytes m) @ f (drop BANO_MSG_ENC_OFF (msg_bytes m)))"

section \<open>Round trips\<close>

lemma hdr_byte_op [simp]: "ucast (hdr_byte x f) = x"
  unfolding hdr_byte_def by (rule bit_word_eqI) (auto simp: bit_simps)

lemma not_bit_6 [simp]: "6 \<le> n \<Longrightarrow> \<not> bit (w :: 6 word) n"
  by (auto dest: bit_imp_le_length)

lemma not_bit_2 [simp]: "2 \<le> n \<Longrightarrow> \<not> bit (w :: 2 word) n"
  by (auto dest: bit_imp_le_length)

lemma hdr_byte_flags [simp]: "ucast (drop_bit 2 (hdr_byte x f)) = f"
  unfolding hdr_byte_def by (rule bit_word_eqI) (auto simp: bit_simps)

lemma hdr_byte_split [simp]: "hdr_byte (ucast b) (ucast (drop_bit 2 b)) = b"
proof -
  have "Suc (Suc (n - 2)) = n" if "\<not> n < 2" for n using that by simp
  then show ?thesis
    unfolding hdr_byte_def by - (rule bit_word_eqI, auto simp: bit_simps not_less)
qed

lemma length_msg_bytes [simp, bytes_simps]: "msg_wf m \<Longrightarrow> length (msg_bytes m) = 17"
  by (simp add: msg_bytes_def msg_wf_def)

lemma bytes_msg_msg_bytes [simp]: "bytes_msg (msg_bytes m) = m"
  by (simp add: bytes_msg_def msg_bytes_def take_Cons' drop_Cons')

lemma bytes_msg_wf: "length bs = 17 \<Longrightarrow> msg_wf (bytes_msg bs)"
  by (simp add: msg_wf_def bytes_msg_def)

lemma u16_bytes_bytes_u16 [simp]: "length bs = 2 \<Longrightarrow> u16_bytes (bytes_u16 bs) = bs"
proof -
  assume "length bs = 2"
  then obtain a b where bs: "bs = [a, b]"
    by (cases bs; cases "tl bs") auto
  have "u16_bytes (ucast a OR push_bit 8 (ucast b)) = [a, b]"
    unfolding u16_bytes_def by (auto intro!: bit_word_eqI simp: bit_simps)
  with bs show ?thesis by (simp add: bytes_u16_def)
qed

lemma msg_bytes_bytes_msg: "length bs = 17 \<Longrightarrow> msg_bytes (bytes_msg bs) = bs"
proof -
  assume l: "length bs = 17"
  then obtain b r where bs: "bs = b # r" "length r = 16" by (cases bs) auto
  have "u32_bytes (bytes_u32 (take 4 r)) = take 4 r"
    "u16_bytes (bytes_u16 (take 2 (drop 4 r))) = take 2 (drop 4 r)"
    "u32_bytes (bytes_u32 (take 4 (drop 6 r))) = take 4 (drop 6 r)"
    using bs(2) by simp_all
  moreover have "take 4 r @ take 2 (drop 4 r) @ take 4 (drop 6 r) @ drop 10 r = r"
  proof -
    have "take 4 (drop 6 r) @ drop 10 r = drop 6 r"
      using append_take_drop_id [of 4 "drop 6 r"] by simp
    moreover have "take 2 (drop 4 r) @ drop 6 r = drop 4 r"
      using append_take_drop_id [of 2 "drop 4 r"] by simp
    ultimately show ?thesis using append_take_drop_id [of 4 r] by simp
  qed
  ultimately show ?thesis
    by (simp add: bs(1) msg_bytes_def bytes_msg_def)
qed

lemma put_key_simps [simp]:
  "set_key (put_key k m) = k" "get_key (put_key k m) = k"
  "msg_wf m \<Longrightarrow> set_val (put_key k m) = set_val m"
  "op (put_key k m) = op m" "flags (put_key k m) = flags m" "saddr (put_key k m) = saddr m"
  by (simp_all add: set_key_def get_key_def put_key_def set_val_def)

lemma put_val_simps [simp]:
  "msg_wf m \<Longrightarrow> set_val (put_val v m) = v" "msg_wf m \<Longrightarrow> set_key (put_val v m) = set_key m"
  "msg_wf m \<Longrightarrow> get_key (put_val v m) = get_key m"
  "op (put_val v m) = op m" "flags (put_val v m) = flags m" "saddr (put_val v m) = saddr m"
  by (simp_all add: set_key_def get_key_def put_val_def set_val_def msg_wf_def)

lemma msg_wf_put [simp]: "msg_wf m \<Longrightarrow> msg_wf (put_key k m)" "msg_wf m \<Longrightarrow> msg_wf (put_val v m)"
  by (simp_all add: msg_wf_def put_key_def put_val_def)

lemma msg_wf_upd [simp]:
  "msg_wf (m\<lparr>op := x\<rparr>) = msg_wf m" "msg_wf (m\<lparr>flags := f\<rparr>) = msg_wf m" "msg_wf (m\<lparr>saddr := a\<rparr>) = msg_wf m"
  by (simp_all add: msg_wf_def)

lemma body_upd [simp]:
  "set_key (m\<lparr>op := x\<rparr>) = set_key m" "set_key (m\<lparr>flags := f\<rparr>) = set_key m" "set_key (m\<lparr>saddr := a\<rparr>) = set_key m"
  "get_key (m\<lparr>op := x\<rparr>) = get_key m" "get_key (m\<lparr>flags := f\<rparr>) = get_key m" "get_key (m\<lparr>saddr := a\<rparr>) = get_key m"
  "set_val (m\<lparr>op := x\<rparr>) = set_val m" "set_val (m\<lparr>flags := f\<rparr>) = set_val m" "set_val (m\<lparr>saddr := a\<rparr>) = set_val m"
  by (simp_all add: set_key_def get_key_def set_val_def)

section \<open>Encryption of a message\<close>

lemma on_enc_part_wf: "msg_wf m \<Longrightarrow> (\<And>d. length d = 16 \<Longrightarrow> length (f d) = 16) \<Longrightarrow> msg_wf (on_enc_part f m)"
  unfolding on_enc_part_def BANO_MSG_ENC_OFF_def by (rule bytes_msg_wf) simp

text \<open>The first byte, with the operation and the flags, stays in clear.\<close>

lemma on_enc_part_hdr [simp]: "op (on_enc_part f m) = op m" "flags (on_enc_part f m) = flags m"
  by (simp_all add: on_enc_part_def bytes_msg_def BANO_MSG_ENC_OFF_def msg_bytes_def)

lemma on_enc_part_flags: "on_enc_part f (m\<lparr>flags := x\<rparr>) = (on_enc_part f m)\<lparr>flags := x\<rparr>"
  by (simp add: on_enc_part_def bytes_msg_def BANO_MSG_ENC_OFF_def msg_bytes_def)

lemma on_enc_part_op: "on_enc_part f (m\<lparr>op := x\<rparr>) = (on_enc_part f m)\<lparr>op := x\<rparr>"
  by (simp add: on_enc_part_def bytes_msg_def BANO_MSG_ENC_OFF_def msg_bytes_def)

lemma on_enc_part_id [simp]: "on_enc_part (\<lambda>d. d) m = m"
  by (simp add: on_enc_part_def)

lemma on_enc_part_inverse:
  assumes "msg_wf m" "\<And>d. length d = 16 \<Longrightarrow> length (f d) = 16" "\<And>d. length d = 16 \<Longrightarrow> g (f d) = d"
  shows "on_enc_part g (on_enc_part f m) = m"
proof -
  let ?b = "msg_bytes m"
  have l: "length ?b = 17" using assms(1) by simp
  have "msg_bytes (bytes_msg (take 1 ?b @ f (drop 1 ?b))) = take 1 ?b @ f (drop 1 ?b)"
    by (rule msg_bytes_bytes_msg) (simp add: l assms(2))
  then have "on_enc_part g (on_enc_part f m) = bytes_msg (take 1 ?b @ g (f (drop 1 ?b)))"
    by (simp add: on_enc_part_def BANO_MSG_ENC_OFF_def l min_def)
  also have "\<dots> = m" by (simp add: assms(3) l)
  finally show ?thesis .
qed

lemma has_flag_or [simp]: "f \<noteq> 0 \<Longrightarrow> has_flag (x OR f) f"
  by (simp add: has_flag_def word_ao_absorbs)

lemma has_flag_or_other [simp]: "f AND g = 0 \<Longrightarrow> has_flag (x OR f) g = has_flag x g"
  by (simp add: has_flag_def word_ao_dist)

lemma has_flag_0 [simp]: "\<not> has_flag 0 f"
  by (simp add: has_flag_def)

end
