(* ===== verification/Bano_Nodl.thy ===== *)
theory Bano_Nodl
  imports Bano_Dict Bano_String Bano_Msg
begin

text \<open>
  Node descriptions (\<open>src/base/bano_nodl.c\<close>) and nodes (\<open>src/base/bano_node.c\<close>). A
  description is a dictionary of the keys a node has, with what may be done with each; a node
  has its address, socket, description, the operations posted to it or pending on it, and
  the dictionary of the values it reported.
\<close>

section \<open>Descriptions\<close>

definition BANO_NODL_FLAG_FMT_BOOL :: u32 where "BANO_NODL_FLAG_FMT_BOOL = 0x1"
definition BANO_NODL_FLAG_FMT_UINT8 :: u32 where "BANO_NODL_FLAG_FMT_UINT8 = 0x2"
definition BANO_NODL_FLAG_FMT_UINT16 :: u32 where "BANO_NODL_FLAG_FMT_UINT16 = 0x4"
definition BANO_NODL_FLAG_FMT_UINT32 :: u32 where "BANO_NODL_FLAG_FMT_UINT32 = 0x8"
definition BANO_NODL_FLAG_BASE_BIN :: u32 where "BANO_NODL_FLAG_BASE_BIN = 0x10"
definition BANO_NODL_FLAG_BASE_DEC :: u32 where "BANO_NODL_FLAG_BASE_DEC = 0x20"
definition BANO_NODL_FLAG_MTIME :: u32 where "BANO_NODL_FLAG_MTIME = 0x40"
definition BANO_NODL_FLAG_GET :: u32 where "BANO_NODL_FLAG_GET = 0x80"
definition BANO_NODL_FLAG_SET :: u32 where "BANO_NODL_FLAG_SET = 0x100"
definition BANO_NODL_FLAG_RST :: u32 where "BANO_NODL_FLAG_RST = 0x200"
definition BANO_NODL_FLAG_ACK :: u32 where "BANO_NODL_FLAG_ACK = 0x400"
definition BANO_NODL_FLAG_NOTIF :: u32 where "BANO_NODL_FLAG_NOTIF = 0x800"

lemmas nodl_flag_defs = BANO_NODL_FLAG_FMT_BOOL_def BANO_NODL_FLAG_FMT_UINT8_def
  BANO_NODL_FLAG_FMT_UINT16_def BANO_NODL_FLAG_FMT_UINT32_def BANO_NODL_FLAG_BASE_BIN_def
  BANO_NODL_FLAG_BASE_DEC_def BANO_NODL_FLAG_MTIME_def BANO_NODL_FLAG_GET_def
  BANO_NODL_FLAG_SET_def BANO_NODL_FLAG_RST_def BANO_NODL_FLAG_ACK_def BANO_NODL_FLAG_NOTIF_def

text \<open>\<open>kv_name\<close> is the C string in the field \<open>name\<close> of 32 characters.\<close>

record nodl_keyval =
  kv_flags :: u32
  kv_name :: string
  kv_key :: u16

definition bano_nodl_keyval_init :: nodl_keyval where
  "bano_nodl_keyval_init = \<lparr>kv_flags = 0, kv_name = [], kv_key = 0\<rparr>"

text \<open>
  A description. The result of \<open>bano_dict_init\<close> is not checked: without the array of lists
  (\<open>None\<close>) every later use is an access through an invalid pointer.
\<close>

record nodl =
  keyvals :: "nodl_keyval dict option"

definition bano_nodl_init :: "mallocs \<Rightarrow> mallocs \<times> nodl" where
  "bano_nodl_init ms = (case bano_dict_init ms 40 of (ms', d) \<Rightarrow> (ms', \<lparr>keyvals = d\<rparr>))"

definition bano_nodl_fini :: "nodl \<Rightarrow> nodl" where
  "bano_nodl_fini nd = nd\<lparr>keyvals := None\<rparr>"

text \<open>The visitor compares the key of the entry, not the key of the dictionary's pair.\<close>

definition find_keyval_item :: "u16 \<Rightarrow> u32 \<times> nodl_keyval \<Rightarrow> nodl_keyval option \<Rightarrow> bool \<times> nodl_keyval option" where
  "find_keyval_item k p r = (if kv_key (snd p) \<noteq> k then (False, r) else (True, Some (snd p)))"

text \<open>\<open>None\<close> is a fault, \<open>Some None\<close> the \<open>NULL\<close> of an unknown key.\<close>

definition bano_nodl_find_key :: "nodl \<Rightarrow> u16 \<Rightarrow> nodl_keyval option option" where
  "bano_nodl_find_key nd k =
     map_option (\<lambda>d. snd (bano_dict_foreach d (find_keyval_item k) None)) (keyvals nd)"

definition bano_nodl_has_key :: "nodl \<Rightarrow> u16 \<Rightarrow> bool option" where
  "bano_nodl_has_key nd k = map_option (\<lambda>r. r \<noteq> None) (bano_nodl_find_key nd k)"

text \<open>A description as the configuration builds it: each entry under its own key.\<close>

definition nodl_wf :: "nodl \<Rightarrow> bool" where
  "nodl_wf nd \<longleftrightarrow> (\<exists>d. keyvals nd = Some d \<and> dict_wf d
     \<and> (\<forall>(k, kv) \<in> set (dict_pairs d). k = ucast (kv_key kv)))"

lemma foreach_lists_find:
  "snd (foreach_lists (find_keyval_item k) ls r) =
     (case find (\<lambda>p. kv_key (snd p) = k) (concat ls) of None \<Rightarrow> r | Some p \<Rightarrow> Some (snd p))"
proof (induction ls arbitrary: r)
  case (Cons l ls)
  have *: "foreach_until (find_keyval_item k) l r =
      (case find (\<lambda>p. kv_key (snd p) = k) l of None \<Rightarrow> (Ok, r) | Some p \<Rightarrow> (Err, Some (snd p)))"
    by (induction l) (auto simp: find_keyval_item_def)
  have app: "find P (xs @ ys) = (case find P xs of None \<Rightarrow> find P ys | Some x \<Rightarrow> Some x)" for P and xs ys :: "(u32 \<times> nodl_keyval) list"
    by (induction xs) auto
  show ?case
    by (auto simp: * app Cons.IH split: option.splits)
qed simp

text \<open>In a well-formed description the search is a lookup of the key.\<close>

lemma dict_map_pairs:
  assumes "dict_wf d"
  shows "dict_map d k = Some v \<longleftrightarrow> (k, v) \<in> set (dict_pairs d)"
proof
  assume "dict_map d k = Some v"
  then have "(k, v) \<in> set (lists d ! bucket d k)"
    by (simp add: dict_map_def map_of_SomeD)
  then show "(k, v) \<in> set (dict_pairs d)"
    using nth_mem [OF bucket_bound [OF assms, of k]] by (auto simp: dict_pairs_def)
next
  assume "(k, v) \<in> set (dict_pairs d)"
  then obtain h where h: "h < length (lists d)" "(k, v) \<in> set (lists d ! h)"
    by (auto simp: dict_pairs_def in_set_conv_nth) blast
  with assms have "bucket d k = h" "distinct (map fst (lists d ! h))"
    by (force simp: dict_wf_def)+
  with h(2) show "dict_map d k = Some v" by (simp add: dict_map_def)
qed

text \<open>The dictionary's keys are 32 bits wide.\<close>

lemma ucast_key_inj: "(ucast x :: u32) = ucast y \<longleftrightarrow> x = y" for x y :: u16
proof
  assume "(ucast x :: u32) = ucast y"
  then have "(ucast (ucast x :: u32) :: u16) = ucast (ucast y :: u32)" by simp
  moreover have "(ucast (ucast w :: u32) :: u16) = w" for w :: u16
    by (rule bit_word_eqI) (simp add: bit_simps)
  ultimately show "x = y" by simp
qed simp

lemma bano_nodl_find_key_lookup:
  assumes "nodl_wf nd" "keyvals nd = Some d"
  shows "bano_nodl_find_key nd k = Some (dict_map d (ucast k))"
proof -
  have wf: "dict_wf d" "\<And>k kv. (k, kv) \<in> set (dict_pairs d) \<Longrightarrow> k = ucast (kv_key kv)"
    using assms by (auto simp: nodl_wf_def)
  note inj = ucast_key_inj [THEN iffD1]
  have "length (lists d) = get_nlist d" using wf(1) by (simp add: dict_wf_def get_nlist_def)
  then have f: "bano_nodl_find_key nd k =
      Some (map_option snd (find (\<lambda>p. kv_key (snd p) = k) (dict_pairs d)))"
    by (simp add: bano_nodl_find_key_def assms bano_dict_foreach_def foreach_lists_find dict_pairs_def
        split: option.splits)
  show ?thesis
  proof (cases "find (\<lambda>p. kv_key (snd p) = k) (dict_pairs d)")
    case None
    then have n: "\<And>p. p \<in> set (dict_pairs d) \<Longrightarrow> kv_key (snd p) \<noteq> k" unfolding find_None_iff by blast
    have "dict_map d (ucast k) = None"
    proof (rule ccontr)
      assume "dict_map d (ucast k) \<noteq> None"
      then obtain v where "(ucast k, v) \<in> set (dict_pairs d)"
        by (auto simp: dict_map_pairs [OF wf(1)])
      with n wf(2) inj show False by force
    qed
    with None f show ?thesis by simp
  next
    case (Some p)
    then have "p \<in> set (dict_pairs d)" "kv_key (snd p) = k"
      by (auto simp: find_Some_iff)
    then have "(ucast k, snd p) \<in> set (dict_pairs d)"
      using wf(2) [of "fst p" "snd p"] by (metis prod.collapse)
    then have "dict_map d (ucast k) = Some (snd p)"
      by (simp add: dict_map_pairs [OF wf(1)])
    with Some f show ?thesis by simp
  qed
qed

section \<open>Nodes\<close>

definition BANO_NODE_FLAG_ADDR :: u32 where "BANO_NODE_FLAG_ADDR = 0x1"
definition BANO_NODE_FLAG_SEED :: u32 where "BANO_NODE_FLAG_SEED = 0x2"
definition BANO_NODE_FLAG_NODL_ID :: u32 where "BANO_NODE_FLAG_NODL_ID = 0x4"
definition BANO_NODE_FLAG_CIPHER :: u32 where "BANO_NODE_FLAG_CIPHER = 0x8"
definition BANO_NODE_FLAG_SOCKET :: u32 where "BANO_NODE_FLAG_SOCKET = 0x10"
definition BANO_NODE_FLAG_NAME :: u32 where "BANO_NODE_FLAG_NAME = 0x20"

lemmas node_flag_defs = BANO_NODE_FLAG_ADDR_def BANO_NODE_FLAG_SEED_def BANO_NODE_FLAG_NODL_ID_def
  BANO_NODE_FLAG_CIPHER_def BANO_NODE_FLAG_SOCKET_def BANO_NODE_FLAG_NAME_def

text \<open>A value and the time it was last reported.\<close>

record node_val =
  nv_val :: u32
  nv_mtime :: int

text \<open>
  The lists of operations hold addresses of \<open>bano_io_t\<close>. \<open>n_nodl\<close> is the description the
  pointer of the node leads to (descriptions do not change once a node refers to them).
\<close>

record node =
  n_flags :: u32
  n_addr :: u32
  n_name :: string
  n_socket :: addr
  n_nodl :: "nodl option"
  posted_ios :: "addr items"
  pending_ios :: "addr items"
  keyval_pairs :: "node_val dict option"

record node_info =
  ni_flags :: u32
  ni_addr :: u32
  ni_name :: string
  ni_seed :: u32
  ni_nodl_id :: u32
  ni_socket :: addr

definition bano_init_node_info :: "node_info \<Rightarrow> node_info" where
  "bano_init_node_info i = i\<lparr>ni_flags := 0\<rparr>"

definition bano_node_get_addr :: "node \<Rightarrow> u32" where
  "bano_node_get_addr n = n_addr n"

definition bano_node_get_name :: "node \<Rightarrow> string" where
  "bano_node_get_name n = (if has_flag (n_flags n) BANO_NODE_FLAG_NAME then n_name n else ''none'')"

text \<open>
  A new node: its address, and its contents, where the fields the code leaves unset
  (address, name, socket) are 0 or empty. The result of \<open>bano_dict_init\<close> is not checked.
\<close>

definition bano_node_alloc :: "mallocs \<Rightarrow> mallocs \<times> (addr \<times> node) option" where
  "bano_node_alloc ms =
     (case malloc ms of (a, ms1) \<Rightarrow>
       if a = 0 then (ms1, None)
       else (case bano_dict_init ms1 16 of (ms2, d) \<Rightarrow>
         (ms2, Some (a, \<lparr>n_flags = 0, n_addr = 0, n_name = [], n_socket = 0, n_nodl = None,
            posted_ios = [], pending_ios = [], keyval_pairs = d\<rparr>))))"

text \<open>\<open>bano_node_free\<close> frees the operations of both lists; the addresses it frees.\<close>

definition bano_node_free :: "node \<Rightarrow> addr list" where
  "bano_node_free n = map snd (posted_ios n) @ map snd (pending_ios n)"

text \<open>A node whose values can be used.\<close>

definition node_wf :: "node \<Rightarrow> bool" where
  "node_wf n \<longleftrightarrow> (\<exists>d. keyval_pairs n = Some d \<and> dict_wf d)
     \<and> distinct (map fst (posted_ios n)) \<and> distinct (map fst (pending_ios n))
     \<and> (\<forall>nd. n_nodl n = Some nd \<longrightarrow> keyvals nd \<noteq> None)"

definition node_values :: "node \<Rightarrow> u32 \<rightharpoonup> node_val" where
  "node_values n = (case keyval_pairs n of None \<Rightarrow> Map.empty | Some d \<Rightarrow> dict_map d)"

lemma bano_node_alloc_wf:
  assumes "bano_node_alloc ms = (ms', Some (a, n))" "keyval_pairs n \<noteq> None"
  shows "a \<noteq> 0" "node_wf n" "node_values n = Map.empty" "posted_ios n = []" "pending_ios n = []"
proof -
  from assms obtain ms1 d where d: "bano_dict_init ms1 16 = (ms', Some d)" "keyval_pairs n = Some d"
    and n: "a \<noteq> 0" "posted_ios n = []" "pending_ios n = []" "n_nodl n = None"
    by (auto simp: bano_node_alloc_def split: prod.splits if_splits)
  from bano_dict_init_wf [OF d(1) [unfolded bano_dict_init_def]] have "dict_wf d" "dict_map d = Map.empty"
    by simp_all
  with d n show "a \<noteq> 0" "node_wf n" "node_values n = Map.empty" "posted_ios n = []" "pending_ios n = []"
    by (simp_all add: node_wf_def node_values_def)
qed

end
