(* ===== verification/Bano_Socket.thy ===== *)
theory Bano_Socket
  imports Bano_Msg Bano_String
begin

text \<open>
  Sockets: the dispatch table of \<open>src/base/bano_socket.h\<close> and \<open>bano_socket.c\<close>, the radio
  socket of \<open>bano_socket_snrf.c\<close> and the pipe socket of \<open>bano_socket_httpd.c\<close>. The radio
  library \<open>snrf\<close> and the pipe are parameters: a record of functions on a world \<open>'w\<close>.
\<close>

section \<open>Types\<close>

datatype socket_type = BANO_SOCKET_TYPE_SNRF | BANO_SOCKET_TYPE_HTTPD | BANO_SOCKET_TYPE_INVALID

text \<open>The function a pointer of the table holds: one of the three files' versions.\<close>

datatype sock_impl = UNIMPL | SNRF | HTTPD

record socket =
  s_type :: socket_type
  read_fn :: sock_impl
  peek_fn :: sock_impl
  write_fn :: sock_impl
  ctl_fn :: sock_impl
  close_fn :: sock_impl
  get_fd_fn :: sock_impl
  s_data :: addr

record snrf_info =
  dev_path :: string
  addr_width :: nat
  addr_val :: u32

text \<open>\<open>si_httpd\<close> is the reading end of the http server's pipe.\<close>

record socket_info =
  si_type :: socket_type
  si_snrf :: snrf_info
  si_httpd :: int

definition bano_socket_init_info :: "socket_info \<Rightarrow> socket_info" where
  "bano_socket_init_info i = i\<lparr>si_type := BANO_SOCKET_TYPE_INVALID\<rparr>"

text \<open>The requests of the http server (\<open>bano_httpd.h\<close>); \<open>conn\<close> names the connection.\<close>

datatype httpd_op = BANO_HTTPD_MSG_OP_GET | BANO_HTTPD_MSG_OP_SET | BANO_HTTPD_MSG_OP_RST
  | BANO_HTTPD_MSG_OP_CAM | BANO_HTTPD_MSG_OP_INVALID

datatype httpd_fmt = BANO_HTTPD_MSG_FMT_HTML | BANO_HTTPD_MSG_FMT_PLAIN | BANO_HTTPD_MSG_FMT_INVALID

record httpd_msg =
  hm_op :: httpd_op
  hm_fmt :: httpd_fmt
  hm_naddr :: u32
  hm_key :: u16
  hm_val :: u32
  hm_is_ack :: u32
  hm_conn :: nat

text \<open>What a read stores in the caller's buffer, by the type of the socket.\<close>

datatype sock_msg = Bano_Msg bano_msg | Httpd_Msg httpd_msg

section \<open>The libraries\<close>

text \<open>A message of the radio: a payload, or another operation.\<close>

datatype snrf_msg = SNRF_OP_PAYLOAD "u8 list" | SNRF_OP_OTHER

text \<open>
  The calls of the library, on a handle, and its constants; \<open>snrf_read_msg\<close> returns 0 and a
  message, or a negative code; \<open>pipe_read\<close> a whole message, or \<open>None\<close> for any other result
  of \<open>read\<close>.
\<close>

record 'w snrf_lib =
  snrf_open_with_path :: "addr \<Rightarrow> string \<Rightarrow> 'w \<Rightarrow> rc \<times> 'w"
  snrf_set_keyval :: "addr \<Rightarrow> u8 \<Rightarrow> u32 \<Rightarrow> 'w \<Rightarrow> rc \<times> 'w"
  snrf_read_msg :: "addr \<Rightarrow> 'w \<Rightarrow> (int + snrf_msg) \<times> 'w"
  snrf_get_pending_msg :: "addr \<Rightarrow> 'w \<Rightarrow> snrf_msg option \<times> 'w"
  snrf_write_payload :: "addr \<Rightarrow> u8 list \<Rightarrow> 'w \<Rightarrow> rc \<times> 'w"
  snrf_sync :: "addr \<Rightarrow> 'w \<Rightarrow> 'w"
  snrf_close :: "addr \<Rightarrow> 'w \<Rightarrow> rc \<times> 'w"
  snrf_get_fd :: "addr \<Rightarrow> int"
  SNRF_KEY_STATE :: u8
  SNRF_KEY_CRC :: u8
  SNRF_KEY_TX_ACK :: u8
  SNRF_KEY_ADDR_WIDTH :: u8
  SNRF_KEY_RX_ADDR :: u8
  SNRF_KEY_TX_ADDR :: u8
  SNRF_KEY_PAYLOAD_WIDTH :: u8
  SNRF_STATE_CONF :: u32
  SNRF_STATE_TXRX :: u32
  SNRF_CRC_DISABLED :: u32
  SNRF_TX_ACK_DISABLED :: u32
  pipe_read :: "int \<Rightarrow> 'w \<Rightarrow> httpd_msg option \<times> 'w"

text \<open>
  Guarded calls one after another, up to the first failure: the shape
  \<open>if (call) goto on_error\<close> repeated.
\<close>

fun seq_calls :: "('w \<Rightarrow> rc \<times> 'w) list \<Rightarrow> 'w \<Rightarrow> rc \<times> 'w" where
  "seq_calls [] w = (Ok, w)"
| "seq_calls (f # fs) w = (case f w of (Err, w') \<Rightarrow> (Err, w') | (Ok, w') \<Rightarrow> seq_calls fs w')"

section \<open>The radio socket\<close>

text \<open>The payload is copied as it is: a message is its bytes.\<close>

definition snrf_do_read :: "'w snrf_lib \<Rightarrow> addr \<Rightarrow> 'w \<Rightarrow> (int + sock_msg) \<times> 'w" where
  "snrf_do_read lib h w =
     (case snrf_read_msg lib h w of
        (Inl err, w') \<Rightarrow> (Inl err, w')
      | (Inr (SNRF_OP_PAYLOAD bs), w') \<Rightarrow> (Inr (Bano_Msg (bytes_msg (take BANO_MSG_SIZE bs))), w')
      | (Inr SNRF_OP_OTHER, w') \<Rightarrow> (Inl (- 2), snrf_sync lib h w'))"

partial_function (option) snrf_do_peek :: "'w snrf_lib \<Rightarrow> addr \<Rightarrow> 'w \<Rightarrow> (sock_msg option \<times> 'w) option" where
  "snrf_do_peek lib h w =
     (case snrf_get_pending_msg lib h w of
        (None, w') \<Rightarrow> Some (None, w')
      | (Some m, w') \<Rightarrow>
          (case m of
             SNRF_OP_PAYLOAD bs \<Rightarrow> Some (Some (Bano_Msg (bytes_msg (take BANO_MSG_SIZE bs))), w')
           | SNRF_OP_OTHER \<Rightarrow> snrf_do_peek lib h w'))"

definition snrf_do_write :: "'w snrf_lib \<Rightarrow> addr \<Rightarrow> u32 \<Rightarrow> bano_msg \<Rightarrow> 'w \<Rightarrow> rc \<times> 'w" where
  "snrf_do_write lib h a m = seq_calls
     [snrf_set_keyval lib h (SNRF_KEY_STATE lib) (SNRF_STATE_CONF lib),
      snrf_set_keyval lib h (SNRF_KEY_TX_ADDR lib) a,
      snrf_set_keyval lib h (SNRF_KEY_STATE lib) (SNRF_STATE_TXRX lib),
      snrf_write_payload lib h (msg_bytes m)]"

definition snrf_do_ctl :: "'w snrf_lib \<Rightarrow> addr \<Rightarrow> u32 \<Rightarrow> u32 \<Rightarrow> 'w \<Rightarrow> rc \<times> 'w" where
  "snrf_do_ctl lib h k v w = snrf_set_keyval lib h (ucast k) v w"

definition snrf_do_close :: "'w snrf_lib \<Rightarrow> addr \<Rightarrow> 'w \<Rightarrow> rc \<times> 'w" where
  "snrf_do_close lib h w = snrf_close lib h w"

definition snrf_setup :: "'w snrf_lib \<Rightarrow> addr \<Rightarrow> snrf_info \<Rightarrow> ('w \<Rightarrow> rc \<times> 'w) list" where
  "snrf_setup lib h si =
     [snrf_set_keyval lib h (SNRF_KEY_STATE lib) (SNRF_STATE_CONF lib),
      snrf_set_keyval lib h (SNRF_KEY_CRC lib) (SNRF_CRC_DISABLED lib),
      snrf_set_keyval lib h (SNRF_KEY_TX_ACK lib) (SNRF_TX_ACK_DISABLED lib),
      snrf_set_keyval lib h (SNRF_KEY_ADDR_WIDTH lib) (of_nat (addr_width si)),
      snrf_set_keyval lib h (SNRF_KEY_RX_ADDR lib) (addr_val si),
      snrf_set_keyval lib h (SNRF_KEY_PAYLOAD_WIDTH lib) (of_nat BANO_MSG_SIZE),
      snrf_set_keyval lib h (SNRF_KEY_STATE lib) (SNRF_STATE_TXRX lib)]"

text \<open>The socket is changed on success only; an error closes what was opened.\<close>

definition bano_socket_snrf_open ::
  "'w snrf_lib \<Rightarrow> mallocs \<Rightarrow> socket \<Rightarrow> snrf_info \<Rightarrow> 'w \<Rightarrow> rc \<times> mallocs \<times> socket \<times> 'w" where
  "bano_socket_snrf_open lib ms s si w =
     (case malloc ms of (h, ms') \<Rightarrow>
       if h = 0 then (Err, ms', s, w)
       else (case snrf_open_with_path lib h (dev_path si) w of
         (Err, w1) \<Rightarrow> (Err, ms', s, w1)
       | (Ok, w1) \<Rightarrow>
         (case seq_calls (snrf_setup lib h si) w1 of
            (Err, w2) \<Rightarrow> (Err, ms', s, snd (snrf_close lib h w2))
          | (Ok, w2) \<Rightarrow>
              (Ok, ms', s\<lparr>read_fn := SNRF, peek_fn := SNRF, write_fn := SNRF, ctl_fn := SNRF,
                 close_fn := SNRF, get_fd_fn := SNRF, s_data := h\<rparr>, w2))))"

section \<open>The pipe socket\<close>

text \<open>
  \<open>hs->httpd->msg_pipe[0]\<close> is read through the structure at \<open>s_data\<close>; the model keeps
  that descriptor in a table \<open>pipes\<close>.
\<close>

definition httpd_do_read :: "'w snrf_lib \<Rightarrow> int \<Rightarrow> 'w \<Rightarrow> (int + sock_msg) \<times> 'w" where
  "httpd_do_read lib fd w =
     (case pipe_read lib fd w of
        (None, w') \<Rightarrow> (Inl (- 1), w')
      | (Some m, w') \<Rightarrow> (Inr (Httpd_Msg m), w'))"

definition bano_socket_httpd_open ::
  "mallocs \<Rightarrow> socket \<Rightarrow> int \<Rightarrow> (addr \<Rightarrow> int) \<Rightarrow> rc \<times> mallocs \<times> socket \<times> (addr \<Rightarrow> int)" where
  "bano_socket_httpd_open ms s fd pipes =
     (case malloc ms of (h, ms') \<Rightarrow>
       if h = 0 then (Err, ms', s, pipes)
       else (Ok, ms', s\<lparr>read_fn := HTTPD, peek_fn := HTTPD, close_fn := HTTPD, get_fd_fn := HTTPD,
               s_data := h\<rparr>, pipes(h := fd)))"

section \<open>The dispatch table\<close>

definition init_socket :: "socket" where
  "init_socket = \<lparr>s_type = BANO_SOCKET_TYPE_INVALID, read_fn = UNIMPL, peek_fn = UNIMPL,
     write_fn = UNIMPL, ctl_fn = UNIMPL, close_fn = UNIMPL, get_fd_fn = UNIMPL, s_data = 0\<rparr>"

definition bano_socket_read :: "'w snrf_lib \<Rightarrow> (addr \<Rightarrow> int) \<Rightarrow> socket \<Rightarrow> 'w \<Rightarrow> (int + sock_msg) \<times> 'w" where
  "bano_socket_read lib pipes s w = (case read_fn s of
     UNIMPL \<Rightarrow> (Inl (- 1), w)
   | SNRF \<Rightarrow> snrf_do_read lib (s_data s) w
   | HTTPD \<Rightarrow> httpd_do_read lib (pipes (s_data s)) w)"

definition bano_socket_peek :: "'w snrf_lib \<Rightarrow> socket \<Rightarrow> 'w \<Rightarrow> (sock_msg option \<times> 'w) option" where
  "bano_socket_peek lib s w = (case peek_fn s of
     UNIMPL \<Rightarrow> Some (None, w)
   | SNRF \<Rightarrow> snrf_do_peek lib (s_data s) w
   | HTTPD \<Rightarrow> Some (None, w))"

definition bano_socket_write :: "'w snrf_lib \<Rightarrow> socket \<Rightarrow> u32 \<Rightarrow> bano_msg \<Rightarrow> 'w \<Rightarrow> rc \<times> 'w" where
  "bano_socket_write lib s a m w = (case write_fn s of
     SNRF \<Rightarrow> snrf_do_write lib (s_data s) a m w
   | _ \<Rightarrow> (Err, w))"

definition bano_socket_ctl :: "'w snrf_lib \<Rightarrow> socket \<Rightarrow> u32 \<Rightarrow> u32 \<Rightarrow> 'w \<Rightarrow> rc \<times> 'w" where
  "bano_socket_ctl lib s k v w = (case ctl_fn s of
     SNRF \<Rightarrow> snrf_do_ctl lib (s_data s) k v w
   | _ \<Rightarrow> (Err, w))"

definition bano_socket_close :: "'w snrf_lib \<Rightarrow> socket \<Rightarrow> 'w \<Rightarrow> rc \<times> 'w" where
  "bano_socket_close lib s w = (case close_fn s of
     UNIMPL \<Rightarrow> (Err, w)
   | SNRF \<Rightarrow> snrf_do_close lib (s_data s) w
   | HTTPD \<Rightarrow> (Ok, w))"

definition bano_socket_get_fd :: "'w snrf_lib \<Rightarrow> (addr \<Rightarrow> int) \<Rightarrow> socket \<Rightarrow> int" where
  "bano_socket_get_fd lib pipes s = (case get_fd_fn s of
     UNIMPL \<Rightarrow> - 1
   | SNRF \<Rightarrow> snrf_get_fd lib (s_data s)
   | HTTPD \<Rightarrow> pipes (s_data s))"

definition bano_socket_alloc ::
  "'w snrf_lib \<Rightarrow> mallocs \<Rightarrow> socket_info \<Rightarrow> (addr \<Rightarrow> int) \<Rightarrow> 'w
     \<Rightarrow> (addr \<times> socket) option \<times> mallocs \<times> (addr \<Rightarrow> int) \<times> 'w" where
  "bano_socket_alloc lib ms info pipes w =
     (case malloc ms of (a, ms1) \<Rightarrow>
       if a = 0 then (None, ms1, pipes, w)
       else
         let s = init_socket\<lparr>s_type := si_type info\<rparr> in
         (case si_type info of
            BANO_SOCKET_TYPE_SNRF \<Rightarrow>
              (case bano_socket_snrf_open lib ms1 s (si_snrf info) w of
                 (Err, ms2, _, w') \<Rightarrow> (None, ms2, pipes, w')
               | (Ok, ms2, s', w') \<Rightarrow> (Some (a, s'), ms2, pipes, w'))
          | BANO_SOCKET_TYPE_HTTPD \<Rightarrow>
              (case bano_socket_httpd_open ms1 s (si_httpd info) pipes of
                 (Err, ms2, _, p') \<Rightarrow> (None, ms2, p', w)
               | (Ok, ms2, s', p') \<Rightarrow> (Some (a, s'), ms2, p', w))
          | BANO_SOCKET_TYPE_INVALID \<Rightarrow> (None, ms1, pipes, w)))"

section \<open>What the sockets guarantee\<close>

text \<open>A run of guarded calls stops at its first failure.\<close>

lemma seq_calls_append:
  "seq_calls (fs @ gs) w = (case seq_calls fs w of (Err, w') \<Rightarrow> (Err, w') | (Ok, w') \<Rightarrow> seq_calls gs w')"
  by (induction fs arbitrary: w) (auto split: prod.splits rc.splits)

lemma seq_calls_Err:
  "seq_calls fs w = (Err, w') \<longleftrightarrow>
     (\<exists>k < length fs. \<exists>w1. seq_calls (take k fs) w = (Ok, w1) \<and> (fs ! k) w1 = (Err, w'))"
proof (induction fs arbitrary: w)
  case (Cons f fs)
  obtain r w2 where f: "f w = (r, w2)" by fastforce
  show ?case
  proof (cases r)
    case Err
    with f show ?thesis
      by (auto simp: less_Suc_eq_0_disj)
  next
    case Ok
    with f Cons.IH [of w2] show ?thesis
      by (auto simp: less_Suc_eq_0_disj)
  qed
qed simp

text \<open>Every socket that exists dispatches every function of its file.\<close>

definition socket_wf :: "socket \<Rightarrow> bool" where
  "socket_wf s \<longleftrightarrow> s_data s \<noteq> 0 \<and>
     (case s_type s of
        BANO_SOCKET_TYPE_SNRF \<Rightarrow> read_fn s = SNRF \<and> peek_fn s = SNRF \<and> write_fn s = SNRF
          \<and> ctl_fn s = SNRF \<and> close_fn s = SNRF \<and> get_fd_fn s = SNRF
      | BANO_SOCKET_TYPE_HTTPD \<Rightarrow> read_fn s = HTTPD \<and> peek_fn s = HTTPD \<and> write_fn s = UNIMPL
          \<and> ctl_fn s = UNIMPL \<and> close_fn s = HTTPD \<and> get_fd_fn s = HTTPD
      | BANO_SOCKET_TYPE_INVALID \<Rightarrow> False)"

lemma bano_socket_alloc_wf:
  assumes "bano_socket_alloc lib ms info pipes w = (Some (a, s), ms', pipes', w')"
  shows "a \<noteq> 0" "socket_wf s" "s_type s = si_type info"
    "s_type s = BANO_SOCKET_TYPE_HTTPD \<Longrightarrow> pipes' (s_data s) = si_httpd info"
  using assms
  by (auto simp: bano_socket_alloc_def bano_socket_snrf_open_def bano_socket_httpd_open_def
      socket_wf_def init_socket_def Let_def split: prod.splits if_splits socket_type.splits rc.splits)

text \<open>
  Opening the radio fails at the first call that fails, and then closes the handle it had
  opened; nothing else is done to the radio.
\<close>

lemma bano_socket_snrf_open_error:
  assumes "bano_socket_snrf_open lib ms s si w = (Err, ms', s', w')" "malloc ms = (h, ms1)" "h \<noteq> 0"
    and "snrf_open_with_path lib h (dev_path si) w = (Ok, w1)"
  shows "s' = s" "\<exists>k < 7. \<exists>w2 w3. seq_calls (take k (snrf_setup lib h si)) w1 = (Ok, w2)
     \<and> (snrf_setup lib h si ! k) w2 = (Err, w3) \<and> w' = snd (snrf_close lib h w3)"
proof -
  from assms obtain w3 where *: "seq_calls (snrf_setup lib h si) w1 = (Err, w3)"
      "s' = s" "w' = snd (snrf_close lib h w3)"
    by (auto simp: bano_socket_snrf_open_def split: prod.splits rc.splits)
  have "length (snrf_setup lib h si) = 7" by (simp add: snrf_setup_def)
  with * show "s' = s" "\<exists>k < 7. \<exists>w2 w3. seq_calls (take k (snrf_setup lib h si)) w1 = (Ok, w2)
     \<and> (snrf_setup lib h si ! k) w2 = (Err, w3) \<and> w' = snd (snrf_close lib h w3)"
    unfolding seq_calls_Err by auto
qed

text \<open>
  A message that one station's radio sends as a payload is the message the other reads.
\<close>

lemma snrf_write_read:
  assumes "msg_wf m" "snrf_read_msg lib' h' w1 = (Inr (SNRF_OP_PAYLOAD (msg_bytes m @ pad)), w2)"
  shows "snrf_do_read lib' h' w1 = (Inr (Bano_Msg m), w2)"
  using assms by (simp add: snrf_do_read_def BANO_MSG_SIZE_def)

end
