(* ===== verification/Bano_Base.thy ===== *)
theory Bano_Base
  imports Bano_Timer Bano_Nodl Bano_Cipher Bano_Socket
begin

text \<open>
  The base station's state and its handling of messages, \<open>src/base/bano_base.c\<close>: nodes,
  sockets and operations (\<open>bano_io_t\<close>), the operations' life from allocation to
  completion, and the handlers of received messages. Results of type \<open>option\<close> are \<open>None\<close>
  where the C code follows a dangling or null pointer.
\<close>

section \<open>State\<close>

definition BANO_IO_FLAG_REPLY :: u32 where "BANO_IO_FLAG_REPLY = 1"
definition BANO_IO_ERR_SUCCESS :: u32 where "BANO_IO_ERR_SUCCESS = 0"
definition BANO_IO_ERR_FAILURE :: u32 where "BANO_IO_ERR_FAILURE = 1"
definition BANO_IO_ERR_TIMEOUT :: u32 where "BANO_IO_ERR_TIMEOUT = 2"
definition BANO_IO_ERR_UNIMPL :: u32 where "BANO_IO_ERR_UNIMPL = 3"
definition BANO_RETRY_MS :: u32 where "BANO_RETRY_MS = 1700"
definition BANO_RETRY_COUNT :: u32 where "BANO_RETRY_COUNT = 3"
definition BANO_BASE_FLAG_CONF :: u32 where "BANO_BASE_FLAG_CONF = 1"
definition BANO_BASE_FLAG_ADDR :: u32 where "BANO_BASE_FLAG_ADDR = 2"
definition BANO_BASE_FLAG_NEW_NODES :: u32 where "BANO_BASE_FLAG_NEW_NODES = 4"
definition BANO_NODE_REASON_NEW :: nat where "BANO_NODE_REASON_NEW = 0"

text \<open>An operation. The completion function is a code pointer, 0 for \<open>NULL\<close>.\<close>

record io =
  io_node :: addr
  io_flags :: u32
  io_timer :: addr
  io_retry_ms :: u32
  io_retry_count :: u32
  io_compl_err :: u32
  io_compl_val :: u32
  io_compl_fn :: nat
  io_compl_data :: nat
  io_msg :: bano_msg

text \<open>
  \<open>bano_base_t\<close>, with the objects its lists point to: \<open>node_at\<close>, \<open>socket_at\<close> and
  \<open>io_at\<close> are the allocated objects by address. \<open>pipes\<close> belongs to the pipe sockets, \<open>hod_at\<close> to
  the requests of the http server that wait for an operation (\<open>struct httpd_op_data\<close>);
  \<open>b_mls\<close> is what \<open>malloc\<close> will return, \<open>world\<close> everything outside.
\<close>

record 'w base =
  b_flags :: u32
  b_nodes :: "addr items"
  b_sockets :: "addr items"
  b_timers :: timers
  b_nodls :: "nodl dict option"
  b_cipher :: bano_cipher
  b_addr :: u32
  is_httpd :: bool
  is_cam :: bool
  is_sms :: bool
  node_at :: "addr \<Rightarrow> node option"
  socket_at :: "addr \<Rightarrow> socket option"
  io_at :: "addr \<Rightarrow> io option"
  pipes :: "addr \<Rightarrow> int"
  hod_at :: "addr \<Rightarrow> httpd_msg option"
  b_mls :: mallocs
  world :: 'w

text \<open>
  Functions outside this file: the radio library, the time of day, the SMS client, the camera,
  the files that can be read, the calls of the http server \<open>mongoose\<close> on a connection with
  the hand-over of a request's completion code to its thread, what allocated memory holds
  before it is written, and the functions that completion pointers lead to.
\<close>

record 'w base_lib = "'w snrf_lib" +
  gettime :: "'w \<Rightarrow> int"
  gettime_usec :: "'w \<Rightarrow> int"
  sms_send_uint32 :: "u32 \<Rightarrow> 'w \<Rightarrow> rc \<times> 'w"
  cam_capture :: "'w \<Rightarrow> rc \<times> 'w"
  files :: "string \<Rightarrow> string option"
  mg_send_header :: "nat \<Rightarrow> string \<Rightarrow> string \<Rightarrow> 'w \<Rightarrow> 'w"
  mg_send_data :: "nat \<Rightarrow> string \<Rightarrow> 'w \<Rightarrow> 'w"
  compl_signal :: "nat \<Rightarrow> rc \<Rightarrow> 'w \<Rightarrow> 'w"
  io_junk :: io
  compl :: "nat \<Rightarrow> nat \<Rightarrow> addr \<Rightarrow> 'w base \<Rightarrow> 'w base option"

text \<open>
  The handlers of \<open>bano_loop_info_t\<close>, \<open>None\<close> for \<open>NULL\<close>; they may do anything to the base.
  Set and get handlers see the key, and the value, of the \<open>bano_io_t\<close> they are given; its
  other fields are not initialised.
\<close>

record 'w loop_info =
  set_fn :: "(addr \<Rightarrow> u16 \<Rightarrow> u32 \<Rightarrow> 'w base \<Rightarrow> 'w base) option"
  get_fn :: "(addr \<Rightarrow> u16 \<Rightarrow> 'w base \<Rightarrow> 'w base) option"
  node_fn :: "(addr \<Rightarrow> nat \<Rightarrow> 'w base \<Rightarrow> 'w base) option"
  timer_fn :: "('w base \<Rightarrow> 'w base) option"
  timer_ms :: u32

definition bano_init_loop_info :: "'w loop_info \<Rightarrow> 'w loop_info" where
  "bano_init_loop_info i = i\<lparr>set_fn := None, get_fn := None, node_fn := None, timer_fn := None\<rparr>"

section \<open>Operations\<close>

definition bano_init_common_io :: "nat \<Rightarrow> nat \<Rightarrow> io \<Rightarrow> io" where
  "bano_init_common_io fn data io =
     io\<lparr>io_flags := 0, io_compl_val := 0, io_compl_fn := fn, io_compl_data := data\<rparr>"

text \<open>
  \<open>junk\<close> is what the allocated memory holds before: fields the code does not set keep it.
\<close>

definition bano_alloc_get_io :: "io \<Rightarrow> u16 \<Rightarrow> nat \<Rightarrow> nat \<Rightarrow> 'w base \<Rightarrow> addr \<times> 'w base" where
  "bano_alloc_get_io junk k fn data b =
     (case malloc (b_mls b) of (a, ms) \<Rightarrow>
       if a = 0 then (0, b\<lparr>b_mls := ms\<rparr>)
       else
         let io = bano_init_common_io fn data junk;
             io = io\<lparr>io_flags := io_flags io OR BANO_IO_FLAG_REPLY,
                     io_retry_ms := BANO_RETRY_MS, io_retry_count := BANO_RETRY_COUNT\<rparr>;
             m = (io_msg io)\<lparr>op := BANO_MSG_OP_GET, flags := 0, saddr := 0\<rparr>
         in (a, b\<lparr>b_mls := ms, io_at := (io_at b)(a \<mapsto> io\<lparr>io_msg := put_key k m\<rparr>)\<rparr>))"

definition bano_alloc_set_io ::
  "io \<Rightarrow> u16 \<Rightarrow> u32 \<Rightarrow> bool \<Rightarrow> nat \<Rightarrow> nat \<Rightarrow> 'w base \<Rightarrow> addr \<times> 'w base" where
  "bano_alloc_set_io junk k val is_ack fn data b =
     (case malloc (b_mls b) of (a, ms) \<Rightarrow>
       if a = 0 then (0, b\<lparr>b_mls := ms\<rparr>)
       else
         let io = bano_init_common_io fn data junk;
             io = (if is_ack
                   then io\<lparr>io_flags := io_flags io OR BANO_IO_FLAG_REPLY,
                           io_retry_ms := BANO_RETRY_MS, io_retry_count := BANO_RETRY_COUNT\<rparr>
                   else io);
             m = (io_msg io)\<lparr>op := BANO_MSG_OP_SET, flags := 0, saddr := 0\<rparr>
         in (a, b\<lparr>b_mls := ms, io_at := (io_at b)(a \<mapsto> io\<lparr>io_msg := put_val val (put_key k m)\<rparr>)\<rparr>))"

definition bano_free_io :: "addr \<Rightarrow> 'w base \<Rightarrow> 'w base" where
  "bano_free_io a b = b\<lparr>io_at := (io_at b)(a := None)\<rparr>"

definition bano_set_io_error :: "u32 \<Rightarrow> io \<Rightarrow> io" where
  "bano_set_io_error err io = io\<lparr>io_compl_err := err\<rparr>"

definition set_node :: "addr \<Rightarrow> node \<Rightarrow> 'w base \<Rightarrow> 'w base" where
  "set_node a n b = b\<lparr>node_at := (node_at b)(a \<mapsto> n)\<rparr>"

definition set_io :: "addr \<Rightarrow> io \<Rightarrow> 'w base \<Rightarrow> 'w base" where
  "set_io a x b = b\<lparr>io_at := (io_at b)(a \<mapsto> x)\<rparr>"

definition bano_post_io :: "addr \<Rightarrow> addr \<Rightarrow> 'w base \<Rightarrow> (rc \<times> 'w base) option" where
  "bano_post_io na ioa b = do {
     nd \<leftarrow> node_at b na;
     (case seq_add_tail (b_mls b) ioa (posted_ios nd) of
        (Err, ms, _) \<Rightarrow> Some (Err, b\<lparr>b_mls := ms\<rparr>)
      | (Ok, ms, xs) \<Rightarrow> do {
          io \<leftarrow> io_at b ioa;
          Some (Ok, set_io ioa (io\<lparr>io_node := na\<rparr>)
            (set_node na (nd\<lparr>posted_ios := xs\<rparr>) (b\<lparr>b_mls := ms\<rparr>)))
        })
   }"

section \<open>Nodes and sockets\<close>

text \<open>
  \<open>bano_socket_free\<close> frees every node of the base, but leaves them in its list; the
  operations of their lists are freed with them.
\<close>

fun free_nodes :: "addr items \<Rightarrow> 'w base \<Rightarrow> 'w base option" where
  "free_nodes [] b = Some b"
| "free_nodes ((it, na) # xs) b = do {
     nd \<leftarrow> node_at b na;
     free_nodes xs (fold bano_free_io (bano_node_free nd) (b\<lparr>node_at := (node_at b)(na := None)\<rparr>))
   }"

definition bano_socket_free :: "'w base_lib \<Rightarrow> addr \<Rightarrow> 'w base \<Rightarrow> 'w base option" where
  "bano_socket_free lib sa b = do {
     b1 \<leftarrow> free_nodes (b_nodes b) b;
     s \<leftarrow> socket_at b1 sa;
     Some (b1\<lparr>world := snd (bano_socket_close (snrf_lib.truncate lib) s (world b1)),
              socket_at := (socket_at b1)(sa := None)\<rparr>)
   }"

text \<open>
  When the list item cannot be allocated the new socket is freed, and every node of the base with
  it.
\<close>

definition bano_add_socket :: "'w base_lib \<Rightarrow> socket_info \<Rightarrow> 'w base \<Rightarrow> (rc \<times> 'w base) option" where
  "bano_add_socket lib si b =
     (case bano_socket_alloc (snrf_lib.truncate lib) (b_mls b) si (pipes b) (world b) of
        (None, ms, ps, w) \<Rightarrow> Some (Err, b\<lparr>b_mls := ms, pipes := ps, world := w\<rparr>)
      | (Some (a, s), ms, ps, w) \<Rightarrow>
          let b1 = b\<lparr>pipes := ps, world := w, socket_at := (socket_at b)(a \<mapsto> s)\<rparr> in
          (case seq_add_tail ms a (b_sockets b) of
             (Err, ms', _) \<Rightarrow> map_option (\<lambda>b2. (Err, b2)) (bano_socket_free lib a (b1\<lparr>b_mls := ms'\<rparr>))
           | (Ok, ms', xs) \<Rightarrow> Some (Ok, b1\<lparr>b_mls := ms', b_sockets := xs\<rparr>)))"

definition get_nodl :: "'w base \<Rightarrow> u32 \<Rightarrow> nodl option option" where
  "get_nodl b k = map_option (\<lambda>d. bano_dict_get d k) (b_nodls b)"

definition bano_add_node :: "node_info \<Rightarrow> 'w base \<Rightarrow> (rc \<times> 'w base) option" where
  "bano_add_node info b =
     (if \<not> has_flag (ni_flags info) BANO_NODE_FLAG_SOCKET then Some (Err, b)
      else if \<not> has_flag (ni_flags info) BANO_NODE_FLAG_ADDR then Some (Err, b)
      else if \<not> has_flag (ni_flags info) BANO_NODE_FLAG_NODL_ID then Some (Err, b)
      else (case bano_node_alloc (b_mls b) of
        (ms, None) \<Rightarrow> Some (Err, b\<lparr>b_mls := ms\<rparr>)
      | (ms, Some (na, nd)) \<Rightarrow>
          let nd = (if has_flag (ni_flags info) BANO_NODE_FLAG_CIPHER
                    then nd\<lparr>n_flags := n_flags nd OR BANO_NODE_FLAG_CIPHER\<rparr> else nd);
              nd = (if has_flag (ni_flags info) BANO_NODE_FLAG_NAME
                    then nd\<lparr>n_flags := n_flags nd OR BANO_NODE_FLAG_NAME, n_name := ni_name info\<rparr> else nd);
              nd = nd\<lparr>n_addr := ni_addr info, n_socket := ni_socket info\<rparr>
          in do {
            r \<leftarrow> get_nodl b (ni_nodl_id info);
            (case r of
               None \<Rightarrow> Some (Err, b\<lparr>b_mls := ms\<rparr>)
             | Some dl \<Rightarrow>
                 (case seq_add_tail ms na (b_nodes b) of
                    (Err, ms', _) \<Rightarrow> Some (Err, b\<lparr>b_mls := ms'\<rparr>)
                  | (Ok, ms', xs) \<Rightarrow>
                      Some (Ok, set_node na (nd\<lparr>n_nodl := Some dl\<rparr>) (b\<lparr>b_mls := ms', b_nodes := xs\<rparr>))))
          }))"

text \<open>The first node of the list with the address, 0 when there is none.\<close>

fun find_node_by_addr :: "(addr \<Rightarrow> node option) \<Rightarrow> u32 \<Rightarrow> addr items \<Rightarrow> addr option" where
  "find_node_by_addr nodes a [] = Some 0"
| "find_node_by_addr nodes a ((it, na) # xs) =
     (case nodes na of None \<Rightarrow> None
      | Some nd \<Rightarrow> if n_addr nd \<noteq> a then find_node_by_addr nodes a xs else Some na)"

definition bano_find_node_by_addr :: "'w base \<Rightarrow> u32 \<Rightarrow> (rc \<times> addr) option" where
  "bano_find_node_by_addr b a =
     map_option (\<lambda>na. (if na = 0 then Err else Ok, na)) (find_node_by_addr (node_at b) a (b_nodes b))"

section \<open>Matching replies\<close>

definition cmp_pending_io :: "bano_msg \<Rightarrow> node \<Rightarrow> io \<Rightarrow> bool" where
  "cmp_pending_io answ nd io =
     (if n_addr nd \<noteq> saddr answ then False
      else if op (io_msg io) = BANO_MSG_OP_SET then
        (if set_val (io_msg io) \<noteq> set_val answ then False else set_key (io_msg io) = set_key answ)
      else get_key (io_msg io) = get_key answ)"

text \<open>The list item and the operation of the first match; \<open>None\<close> a fault.\<close>

fun find_pending_item :: "(addr \<Rightarrow> io option) \<Rightarrow> bano_msg \<Rightarrow> node \<Rightarrow> addr items \<Rightarrow> (addr \<times> addr) option option" where
  "find_pending_item ios answ nd [] = Some None"
| "find_pending_item ios answ nd ((it, ioa) # xs) =
     (case ios ioa of None \<Rightarrow> None
      | Some io \<Rightarrow> if cmp_pending_io answ nd io then Some (Some (it, ioa))
                  else find_pending_item ios answ nd xs)"

text \<open>\<open>find_pending_io\<close>: the operation found (0 when none), its item unlinked.\<close>

definition find_pending_io :: "addr \<Rightarrow> bano_msg \<Rightarrow> 'w base \<Rightarrow> (addr \<times> 'w base) option" where
  "find_pending_io na answ b = do {
     nd \<leftarrow> node_at b na;
     r \<leftarrow> find_pending_item (io_at b) answ nd (pending_ios nd);
     (case r of
        None \<Rightarrow> Some (0, b)
      | Some (it, ioa) \<Rightarrow> Some (ioa, set_node na (nd\<lparr>pending_ios := seq_del it (pending_ios nd)\<rparr>) b))
   }"

section \<open>Handling messages\<close>

definition set_node_pair :: "addr \<Rightarrow> u16 \<Rightarrow> node_val \<Rightarrow> 'w base \<Rightarrow> 'w base option" where
  "set_node_pair na k v b = do {
     nd \<leftarrow> node_at b na;
     d \<leftarrow> keyval_pairs nd;
     (case bano_dict_set_or_add (b_mls b) d (ucast k) v of
        (_, ms, d') \<Rightarrow> Some (set_node na (nd\<lparr>keyval_pairs := Some d'\<rparr>) (b\<lparr>b_mls := ms\<rparr>)))
   }"

text \<open>The part of \<open>handle_set_msg\<close> before \<open>on_invalid_key\<close>.\<close>

definition handle_set_value :: "'w base_lib \<Rightarrow> bano_msg \<Rightarrow> addr \<Rightarrow> 'w base \<Rightarrow> 'w base option" where
  "handle_set_value lib msg na b = do {
     nd \<leftarrow> node_at b na;
     let k = set_key msg;
     let val = \<lparr>nv_val = set_val msg, nv_mtime = gettime lib (world b)\<rparr>;
     if has_flag (flags msg) BANO_MSG_FLAG_ERR then Some b
     else (case n_nodl nd of
       None \<Rightarrow> set_node_pair na k val b
     | Some dl \<Rightarrow> do {
         r \<leftarrow> bano_nodl_find_key dl k;
         (case r of
            None \<Rightarrow> Some b
          | Some kv \<Rightarrow>
              let b' = (if has_flag (kv_flags kv) BANO_NODL_FLAG_NOTIF
                        then b\<lparr>world := snd (sms_send_uint32 lib (nv_val val) (world b))\<rparr> else b)
              in set_node_pair na k val b')
       })
   }"

text \<open>
  The completion of the pending operation a reply answers. The operation must still exist
  after its completion function has run.
\<close>

definition complete_reply :: "'w base_lib \<Rightarrow> bano_msg \<Rightarrow> addr \<Rightarrow> 'w base \<Rightarrow> 'w base option" where
  "complete_reply lib msg na b = do {
     (ioa, b1) \<leftarrow> find_pending_io na msg b;
     if ioa = 0 then Some b1
     else do {
       io \<leftarrow> io_at b1 ioa;
       b2 \<leftarrow> (if io_compl_fn io \<noteq> 0 then
           let io' = (if \<not> has_flag (flags msg) BANO_MSG_FLAG_ERR
                      then io\<lparr>io_compl_err := BANO_IO_ERR_SUCCESS, io_compl_val := set_val msg\<rparr>
                      else io\<lparr>io_compl_err := BANO_IO_ERR_FAILURE\<rparr>)
           in compl lib (io_compl_fn io) (io_compl_data io) ioa (set_io ioa io' b1)
         else Some b1);
       io2 \<leftarrow> io_at b2 ioa;
       t \<leftarrow> bano_timer_del (b_timers b2) (io_timer io2);
       Some (bano_free_io ioa (b2\<lparr>b_timers := t\<rparr>))
     }
   }"

definition handle_set_msg :: "'w base_lib \<Rightarrow> 'w loop_info \<Rightarrow> bano_msg \<Rightarrow> addr \<Rightarrow> 'w base \<Rightarrow> 'w base option" where
  "handle_set_msg lib linfo msg na b = do {
     b1 \<leftarrow> handle_set_value lib msg na b;
     if has_flag (flags msg) BANO_MSG_FLAG_REPLY then complete_reply lib msg na b1
     else (case set_fn linfo of
       None \<Rightarrow> Some b1
     | Some f \<Rightarrow> Some (f na (set_key msg) (set_val msg) b1))
   }"

definition handle_get_msg :: "'w loop_info \<Rightarrow> bano_msg \<Rightarrow> addr \<Rightarrow> 'w base \<Rightarrow> 'w base option" where
  "handle_get_msg linfo msg na b =
     (case get_fn linfo of None \<Rightarrow> Some b | Some f \<Rightarrow> Some (f na (get_key msg) b))"

text \<open>
  The node a message comes from: found by its address, or new when the base takes new nodes.
  0 when the message is dropped or the node cannot be made.
\<close>

definition node_of_msg :: "'w loop_info \<Rightarrow> addr \<Rightarrow> u32 \<Rightarrow> 'w base \<Rightarrow> (rc \<times> addr \<times> 'w base) option" where
  "node_of_msg linfo sa a b = do {
     na \<leftarrow> find_node_by_addr (node_at b) a (b_nodes b);
     if na \<noteq> 0 then Some (Ok, na, b)
     else if \<not> has_flag (b_flags b) BANO_BASE_FLAG_NEW_NODES then Some (Ok, 0, b)
     else (case bano_node_alloc (b_mls b) of
       (ms, None) \<Rightarrow> Some (Err, 0, b\<lparr>b_mls := ms\<rparr>)
     | (ms, Some (na, nd)) \<Rightarrow>
         (case seq_add_tail ms na (b_nodes b) of
            (Err, ms', _) \<Rightarrow> Some (Err, 0, b\<lparr>b_mls := ms'\<rparr>)
          | (Ok, ms', xs) \<Rightarrow>
              let b1 = set_node na (nd\<lparr>n_addr := a, n_socket := sa\<rparr>) (b\<lparr>b_mls := ms', b_nodes := xs\<rparr>)
              in Some (Ok, na, case node_fn linfo of None \<Rightarrow> b1 | Some f \<Rightarrow> f na BANO_NODE_REASON_NEW b1)))
   }"

definition decrypt_msg :: "bano_cipher \<Rightarrow> bano_msg \<Rightarrow> bano_msg" where
  "decrypt_msg c m =
     (if has_flag (flags m) BANO_MSG_FLAG_ENC then on_enc_part (\<lambda>d. snd (bano_cipher_dec c d)) m else m)"

definition handle_bano_msg ::
  "'w base_lib \<Rightarrow> 'w loop_info \<Rightarrow> addr \<Rightarrow> bano_msg \<Rightarrow> 'w base \<Rightarrow> (rc \<times> 'w base) option" where
  "handle_bano_msg lib linfo sa m b =
     (let msg = decrypt_msg (b_cipher b) m in do {
       (r, na, b1) \<leftarrow> node_of_msg linfo sa (saddr msg) b;
       if na = 0 then Some (r, b1)
       else if op msg = BANO_MSG_OP_SET then map_option (Pair Ok) (handle_set_msg lib linfo msg na b1)
       else if op msg = BANO_MSG_OP_GET then map_option (Pair Ok) (handle_get_msg linfo msg na b1)
       else Some (Ok, b1)
     })"

section \<open>Sending posted operations\<close>

definition encrypt_msg :: "bano_cipher \<Rightarrow> bano_msg \<Rightarrow> bano_msg" where
  "encrypt_msg c m =
     (let e = on_enc_part (\<lambda>d. snd (bano_cipher_enc c d)) m
      in e\<lparr>flags := flags e OR BANO_MSG_FLAG_ENC\<rparr>)"

text \<open>
  \<open>post_io\<close> on the item \<open>it\<close> of the node's posted list. When the write fails, the socket
  and with it every node is freed, and then \<open>it\<close>, an item of a freed node, is unlinked from
  the list of sockets. A timer that cannot be added leaves the item posted.
\<close>

definition post_io :: "'w base_lib \<Rightarrow> addr \<Rightarrow> addr \<Rightarrow> addr \<Rightarrow> 'w base \<Rightarrow> (bool \<times> 'w base) option" where
  "post_io lib na it ioa b = do {
     io \<leftarrow> io_at b ioa;
     nd \<leftarrow> node_at b na;
     let msg = (if has_flag (n_flags nd) BANO_NODE_FLAG_CIPHER
                then encrypt_msg (b_cipher b) (io_msg io) else io_msg io);
     s \<leftarrow> socket_at b (n_socket nd);
     (case bano_socket_write (snrf_lib.truncate lib) s (n_addr nd) msg (world b) of
        (Err, w) \<Rightarrow> do {
          b1 \<leftarrow> bano_socket_free lib (n_socket nd) (b\<lparr>world := w\<rparr>);
          nd1 \<leftarrow> node_at b1 na;
          Some (False, b1\<lparr>b_sockets := seq_del it (b_sockets b1)\<rparr>)
        }
      | (Ok, w) \<Rightarrow>
          if has_flag (io_flags io) BANO_IO_FLAG_REPLY then
            (case seq_add_tail (b_mls b) ioa (pending_ios nd) of
               (_, ms, pend) \<Rightarrow> do {
                 (r, ti, ms', t) \<leftarrow> bano_timer_add ms (b_timers b) (io_retry_ms io);
                 let b1 = set_node na (nd\<lparr>pending_ios := pend\<rparr>) (b\<lparr>world := w, b_mls := ms', b_timers := t\<rparr>);
                 if r = Err then Some (False, b1)
                 else do {
                   tm \<leftarrow> tm_store t ti;
                   let t' = t\<lparr>tm_store := (tm_store t)(ti \<mapsto> tm\<lparr>t_data := (na, if pend = [] then 0 else fst (last pend))\<rparr>)\<rparr>;
                   let b2 = set_io ioa (io\<lparr>io_timer := ti\<rparr>) (b1\<lparr>b_timers := t'\<rparr>);
                   Some (False, set_node na (nd\<lparr>pending_ios := pend, posted_ios := seq_del it (posted_ios nd)\<rparr>) b2)
                 }
               })
          else
            let b1 = b\<lparr>world := w\<rparr> in do {
              b2 \<leftarrow> (if io_compl_fn io \<noteq> 0
                    then compl lib (io_compl_fn io) (io_compl_data io) ioa
                      (set_io ioa (io\<lparr>io_compl_err := BANO_IO_ERR_SUCCESS\<rparr>) b1)
                    else Some b1);
              let b3 = bano_free_io ioa b2;
              nd3 \<leftarrow> node_at b3 na;
              Some (False, set_node na (nd3\<lparr>posted_ios := seq_del it (posted_ios nd3)\<rparr>) b3)
            })
   }"

text \<open>\<open>write_msg\<close> for one node, when its socket is ready to be written.\<close>

definition posted_of :: "addr \<Rightarrow> 'w base \<Rightarrow> addr items option" where
  "posted_of na b = map_option posted_ios (node_at b na)"

definition socket_fd :: "'w base_lib \<Rightarrow> addr \<Rightarrow> 'w base \<Rightarrow> int option" where
  "socket_fd lib sa b =
     map_option (bano_socket_get_fd (snrf_lib.truncate lib) (pipes b)) (socket_at b sa)"

definition write_msg :: "'w base_lib \<Rightarrow> int set \<Rightarrow> addr \<Rightarrow> addr \<Rightarrow> 'w base \<Rightarrow> (bool \<times> 'w base) option" where
  "write_msg lib fds it na b = do {
     nd \<leftarrow> node_at b na;
     fd \<leftarrow> socket_fd lib (n_socket nd) b;
     if fd \<notin> fds then Some (False, b)
     else do {
       (_, b') \<leftarrow> walk (posted_of na) (post_io lib na) b;
       Some (False, b')
     }
   }"

section \<open>Encryption of the messages\<close>

text \<open>The base station reads what a station with the same cipher and key encrypted.\<close>

lemma decrypt_encrypt_msg:
  assumes "msg_wf m"
  shows "decrypt_msg c (encrypt_msg c m) = m\<lparr>flags := flags m OR BANO_MSG_FLAG_ENC\<rparr>"
proof -
  have inv: "snd (bano_cipher_dec c (snd (bano_cipher_enc c d))) = d" if "length d = 16" for d
    using base_cipher.dec_enc [of d c] that by simp
  have len: "length (snd (bano_cipher_enc c d)) = 16" if "length d = 16" for d
    using base_cipher.enc_length [of d c] that by simp
  have "on_enc_part (\<lambda>d. snd (bano_cipher_dec c d)) (on_enc_part (\<lambda>d. snd (bano_cipher_enc c d)) m) = m"
    by (rule on_enc_part_inverse [OF assms len inv])
  moreover have "BANO_MSG_FLAG_ENC \<noteq> 0" by (simp add: BANO_MSG_FLAG_ENC_def)
  ultimately show ?thesis
    by (simp add: decrypt_msg_def encrypt_msg_def Let_def on_enc_part_flags)
qed

lemma decrypt_clear: "\<not> has_flag (flags m) BANO_MSG_FLAG_ENC \<Longrightarrow> decrypt_msg c m = m"
  by (simp add: decrypt_msg_def)

lemma decrypt_msg_wf: "msg_wf m \<Longrightarrow> msg_wf (decrypt_msg c m)"
  using base_cipher.dec_length [of _ c] by (auto simp: decrypt_msg_def intro!: on_enc_part_wf)

section \<open>The invariant of the base\<close>

definition node_ios :: "node \<Rightarrow> addr list" where
  "node_ios nd = map snd (posted_ios nd) @ map snd (pending_ios nd)"

definition node_items :: "node \<Rightarrow> addr set" where
  "node_items nd = fst ` set (posted_ios nd) \<union> fst ` set (pending_ios nd)"

definition nodes_of :: "'w base \<Rightarrow> addr set" where
  "nodes_of b = snd ` set (b_nodes b)"

text \<open>
  Every node of the list is live, usable, with a live socket; every operation of its lists is
  live and in one list only; nothing is at address 0.
\<close>

definition base_node_ok :: "'w base \<Rightarrow> addr \<Rightarrow> node \<Rightarrow> bool" where
  "base_node_ok b na nd \<longleftrightarrow> node_at b na = Some nd \<and> node_wf nd \<and> socket_at b (n_socket nd) \<noteq> None
     \<and> 0 \<notin> node_items nd \<and> distinct (node_ios nd)
     \<and> (\<forall>a \<in> set (node_ios nd). a \<noteq> 0 \<and> io_at b a \<noteq> None)"

definition base_wf :: "'w base \<Rightarrow> bool" where
  "base_wf b \<longleftrightarrow> distinct (map fst (b_nodes b)) \<and> distinct (map snd (b_nodes b))
     \<and> 0 \<notin> fst ` set (b_nodes b) \<and> 0 \<notin> nodes_of b
     \<and> (\<forall>na \<in> nodes_of b. \<exists>nd. base_node_ok b na nd)
     \<and> (\<forall>na \<in> nodes_of b. \<forall>na' \<in> nodes_of b. na \<noteq> na' \<longrightarrow>
          set (node_ios (the (node_at b na))) \<inter> set (node_ios (the (node_at b na'))) = {})"

text \<open>An operation in no list.\<close>

definition unowned :: "addr \<Rightarrow> 'w base \<Rightarrow> bool" where
  "unowned a b \<longleftrightarrow> (\<forall>na \<in> nodes_of b. a \<notin> set (node_ios (the (node_at b na))))"

text \<open>The addresses in use, and that \<open>malloc\<close> returns others.\<close>

definition used :: "'w base \<Rightarrow> addr set" where
  "used b = fst ` set (b_nodes b) \<union> nodes_of b \<union> {a. io_at b a \<noteq> None}
     \<union> (\<Union>na \<in> nodes_of b. node_items (the (node_at b na)))"

definition mls_fresh :: "'w base \<Rightarrow> bool" where
  "mls_fresh b \<longleftrightarrow> distinct (filter (\<lambda>a. a \<noteq> 0) (b_mls b)) \<and> (\<forall>a \<in> set (b_mls b). a \<noteq> 0 \<longrightarrow> a \<notin> used b)"

definition base_inv :: "'w base \<Rightarrow> bool" where
  "base_inv b \<longleftrightarrow> base_wf b \<and> mls_fresh b"

lemma base_wf_node: "base_wf b \<Longrightarrow> na \<in> nodes_of b \<Longrightarrow> node_at b na = Some nd \<Longrightarrow> base_node_ok b na nd"
  by (fastforce simp: base_wf_def base_node_ok_def)

lemma set_node_sel [simp]:
  "b_nodes (set_node na nd b) = b_nodes b" "node_at (set_node na nd b) = (node_at b)(na \<mapsto> nd)"
  "io_at (set_node na nd b) = io_at b" "socket_at (set_node na nd b) = socket_at b"
  "b_mls (set_node na nd b) = b_mls b" "nodes_of (set_node na nd b) = nodes_of b"
  "b_timers (set_node na nd b) = b_timers b" "world (set_node na nd b) = world b"
  by (simp_all add: set_node_def nodes_of_def)

lemma set_io_sel [simp]:
  "b_nodes (set_io a x b) = b_nodes b" "node_at (set_io a x b) = node_at b"
  "io_at (set_io a x b) = (io_at b)(a \<mapsto> x)" "socket_at (set_io a x b) = socket_at b"
  "b_mls (set_io a x b) = b_mls b" "nodes_of (set_io a x b) = nodes_of b"
  "b_timers (set_io a x b) = b_timers b"
  by (simp_all add: set_io_def nodes_of_def)

lemma free_io_sel [simp]:
  "b_nodes (bano_free_io a b) = b_nodes b" "node_at (bano_free_io a b) = node_at b"
  "io_at (bano_free_io a b) = (io_at b)(a := None)" "socket_at (bano_free_io a b) = socket_at b"
  "b_mls (bano_free_io a b) = b_mls b" "nodes_of (bano_free_io a b) = nodes_of b"
  "b_timers (bano_free_io a b) = b_timers b"
  by (simp_all add: bano_free_io_def nodes_of_def)

lemma nodes_of_upd [simp]:
  "nodes_of (b\<lparr>b_mls := ms\<rparr>) = nodes_of b" "nodes_of (b\<lparr>world := w\<rparr>) = nodes_of b"
  "nodes_of (b\<lparr>b_timers := t\<rparr>) = nodes_of b" "nodes_of (b\<lparr>node_at := n\<rparr>) = nodes_of b"
  "nodes_of (b\<lparr>io_at := i\<rparr>) = nodes_of b" "nodes_of (b\<lparr>b_sockets := xs\<rparr>) = nodes_of b"
  by (simp_all add: nodes_of_def)

text \<open>The invariant depends on these parts of the state only.\<close>

lemma base_inv_cong:
  assumes "b_nodes b' = b_nodes b" "node_at b' = node_at b" "io_at b' = io_at b"
    "socket_at b' = socket_at b" "b_mls b' = b_mls b"
  shows "base_inv b' = base_inv b"
  using assms by (simp add: base_inv_def base_wf_def base_node_ok_def mls_fresh_def used_def nodes_of_def)

text \<open>Allocations consume the stream.\<close>

lemma mls_fresh_suffix:
  assumes "mls_fresh b" "b_mls b = ks @ b_mls b'" "used b' \<subseteq> used b"
  shows "mls_fresh b'"
  using assms by (auto simp: mls_fresh_def)

text \<open>
  Replacing a node by one with the same socket and no other operations or items than before.
\<close>

lemma base_inv_set_node:
  assumes "base_inv b" "node_at b na = Some nd" "na \<in> nodes_of b"
    and "node_wf nd'" "n_socket nd' = n_socket nd" "distinct (node_ios nd')"
    and "set (node_ios nd') \<subseteq> set (node_ios nd)" "node_items nd' \<subseteq> node_items nd"
    and "b_mls b = ks @ ms"
  shows "base_inv (set_node na nd' (b\<lparr>b_mls := ms\<rparr>))"
proof -
  let ?b = "set_node na nd' (b\<lparr>b_mls := ms\<rparr>)"
  have wf: "base_wf b" "mls_fresh b" using assms(1) by (auto simp: base_inv_def)
  have n [simp]: "nodes_of ?b = nodes_of b" by (simp add: nodes_of_def)
  have ok: "base_node_ok b na nd" by (rule base_wf_node [OF wf(1) assms(3,2)])
  have nodes: "\<exists>x. base_node_ok ?b ma x" if "ma \<in> nodes_of b" for ma
  proof (cases "ma = na")
    case True
    with ok assms(4-8) show ?thesis by (auto simp: base_node_ok_def)
  next
    case False
    from wf(1) that obtain x where "base_node_ok b ma x" by (auto simp: base_wf_def)
    with False show ?thesis by (auto simp: base_node_ok_def)
  qed
  have disj: "set (node_ios (the (node_at ?b x))) \<inter> set (node_ios (the (node_at ?b y))) = {}"
    if "x \<in> nodes_of b" "y \<in> nodes_of b" "x \<noteq> y" for x y
  proof -
    have sub: "set (node_ios (the (node_at ?b z))) \<subseteq> set (node_ios (the (node_at b z)))" for z
      using assms(2,7) by simp
    have "set (node_ios (the (node_at b x))) \<inter> set (node_ios (the (node_at b y))) = {}"
      using wf(1) that by (auto simp: base_wf_def)
    with sub [of x] sub [of y] show ?thesis by blast
  qed
  have "distinct (map fst (b_nodes ?b))" "distinct (map snd (b_nodes ?b))" "0 \<notin> fst ` set (b_nodes ?b)" "0 \<notin> nodes_of b"
    using wf(1) by (simp_all add: base_wf_def)
  then have "base_wf ?b"
    unfolding base_wf_def n using nodes disj by (intro conjI ballI impI)
  moreover have "used ?b \<subseteq> used b"
  proof -
    have "node_items (the (node_at b na)) \<subseteq> used b" using assms(3) by (auto simp: used_def)
    then have "node_items nd' \<subseteq> used b" using assms(2,8) by auto
    then show ?thesis by (auto simp: used_def split: if_splits)
  qed
  then have "mls_fresh ?b" using wf(2) assms(9) by (auto intro: mls_fresh_suffix)
  ultimately show ?thesis by (simp add: base_inv_def)
qed

lemma base_inv_free_io:
  assumes "base_inv b" "unowned a b"
  shows "base_inv (bano_free_io a b)"
proof -
  have "base_node_ok (bano_free_io a b) na nd" if "base_node_ok b na nd" "na \<in> nodes_of b" for na nd
  proof -
    have "node_at b na = Some nd" using that(1) by (simp add: base_node_ok_def)
    then have "a \<notin> set (node_ios nd)" using assms(2) that(2) by (fastforce simp: unowned_def)
    with that(1) show ?thesis by (auto simp: base_node_ok_def)
  qed
  then have "base_wf (bano_free_io a b)"
    using assms(1) by (simp add: base_inv_def base_wf_def) meson
  moreover have "used (bano_free_io a b) \<subseteq> used b" by (auto simp: used_def)
  ultimately show ?thesis
    using assms(1) by (auto simp: base_inv_def intro: mls_fresh_suffix [where ks = "[]"])
qed

lemma base_inv_set_io:
  assumes "base_inv b" "io_at b a \<noteq> None"
  shows "base_inv (set_io a x b)"
proof -
  have "base_node_ok (set_io a x b) na nd" if "base_node_ok b na nd" for na nd
    using that by (auto simp: base_node_ok_def)
  then have "base_wf (set_io a x b)"
    using assms(1) by (simp add: base_inv_def base_wf_def) meson
  moreover have "used (set_io a x b) \<subseteq> used b" using assms(2) by (auto simp: used_def)
  ultimately show ?thesis
    using assms(1) by (auto simp: base_inv_def intro: mls_fresh_suffix [where ks = "[]"])
qed

section \<open>The handlers keep the invariant\<close>

lemma malloc_suffix: "malloc ms = (a, ms') \<Longrightarrow> \<exists>ks. ms = ks @ ms'"
  by (cases ms) auto

lemma seq_add_tail_suffix: "seq_add_tail ms d xs = (r, ms', ys) \<Longrightarrow> \<exists>ks. ms = ks @ ms'"
  by (auto simp: seq_add_tail_def split: prod.splits if_splits dest: malloc_suffix)

lemma set_or_add_suffix: "bano_dict_set_or_add ms d k v = (r, ms', d') \<Longrightarrow> \<exists>ks. ms = ks @ ms'"
  by (auto simp: bano_dict_set_or_add_def bano_dict_add_def Let_def split: prod.splits rc.splits if_splits
      dest!: malloc_suffix)

lemma set_node_pair_inv:
  assumes "base_inv b" "na \<in> nodes_of b" "set_node_pair na k v b = Some b'"
  shows "base_inv b'" "nodes_of b' = nodes_of b"
proof -
  from assms(3) obtain nd d r ms d' where *: "node_at b na = Some nd" "keyval_pairs nd = Some d"
      "bano_dict_set_or_add (b_mls b) d (ucast k) v = (r, ms, d')"
      "b' = set_node na (nd\<lparr>keyval_pairs := Some d'\<rparr>) (b\<lparr>b_mls := ms\<rparr>)"
    by (auto simp: set_node_pair_def split: bind_splits prod.splits)
  have ok: "base_node_ok b na nd"
    using assms(1,2) *(1) by (auto simp: base_inv_def intro: base_wf_node)
  then have "dict_wf d" using *(2) by (auto simp: base_node_ok_def node_wf_def)
  from bano_dict_set_or_add_map(1) [OF this *(3)] have "dict_wf d'" .
  moreover obtain ks where "b_mls b = ks @ ms" using set_or_add_suffix [OF *(3)] by blast
  ultimately show "base_inv b'"
    unfolding *(4) using ok
    by (intro base_inv_set_node [OF assms(1) *(1) assms(2)])
      (auto simp: base_node_ok_def node_wf_def node_ios_def node_items_def)
  show "nodes_of b' = nodes_of b" by (simp add: *(4))
qed

lemma handle_set_value_inv:
  assumes "base_inv b" "na \<in> nodes_of b" "handle_set_value lib msg na b = Some b'"
  shows "base_inv b'" "nodes_of b' = nodes_of b"
proof -
  have w: "base_inv (b\<lparr>world := w\<rparr>)" for w using assms(1) base_inv_cong [of "b\<lparr>world := w\<rparr>" b] by simp
  obtain nd where nd: "node_at b na = Some nd"
    using assms(3) by (cases "node_at b na") (simp_all add: handle_set_value_def)
  define v where "v = \<lparr>nv_val = set_val msg, nv_mtime = gettime lib (world b)\<rparr>"
  have "b' = b \<or> (\<exists>b1. set_node_pair na (set_key msg) v b1 = Some b' \<and> (b1 = b \<or> (\<exists>w. b1 = b\<lparr>world := w\<rparr>)))"
  proof (cases "has_flag (flags msg) BANO_MSG_FLAG_ERR")
    case True
    with assms(3) nd show ?thesis by (simp add: handle_set_value_def)
  next
    case False
    note s = assms(3) [unfolded handle_set_value_def Let_def, folded v_def]
    show ?thesis
    proof (cases "n_nodl nd")
      case None
      with s nd False have "set_node_pair na (set_key msg) v b = Some b'" by simp
      then show ?thesis by blast
    next
      case (Some dl)
      then obtain r where r: "bano_nodl_find_key dl (set_key msg) = Some r"
        using s nd False by (cases "bano_nodl_find_key dl (set_key msg)") simp_all
      show ?thesis
      proof (cases r)
        case None
        with s nd False Some r show ?thesis by simp
      next
        case (Some kv)
        with s nd False \<open>n_nodl nd = Some dl\<close> r have
          "set_node_pair na (set_key msg) v (if has_flag (kv_flags kv) BANO_NODL_FLAG_NOTIF
             then b\<lparr>world := snd (sms_send_uint32 lib (nv_val v) (world b))\<rparr> else b) = Some b'"
          by simp
        then show ?thesis by (cases "has_flag (kv_flags kv) BANO_NODL_FLAG_NOTIF") auto
      qed
    qed
  qed
  then consider "b' = b" | b1 where "set_node_pair na (set_key msg) v b1 = Some b'" "b1 = b \<or> (\<exists>w. b1 = b\<lparr>world := w\<rparr>)"
    by blast
  then have "base_inv b' \<and> nodes_of b' = nodes_of b"
  proof cases
    case 2
    then have "base_inv b1" "nodes_of b1 = nodes_of b" using assms(1) w by auto
    with set_node_pair_inv [OF _ _ 2(1)] assms(2) show ?thesis by simp
  qed (use assms(1) in simp)
  then show "base_inv b'" "nodes_of b' = nodes_of b" by auto
qed

lemma find_pending_item_Some:
  "find_pending_item ios answ nd xs = Some (Some (it, ioa)) \<Longrightarrow>
     (it, ioa) \<in> set xs \<and> (\<exists>io. ios ioa = Some io \<and> cmp_pending_io answ nd io)"
  by (induction ios answ nd xs rule: find_pending_item.induct) (auto split: option.splits if_splits)

text \<open>The first match in the order the operations became pending.\<close>

lemma find_pending_item_find:
  assumes "\<And>a. a \<in> snd ` set xs \<Longrightarrow> ios a \<noteq> None"
  shows "find_pending_item ios answ nd xs =
     Some (find (\<lambda>x. cmp_pending_io answ nd (the (ios (snd x)))) xs)"
  using assms
  by (induction ios answ nd xs rule: find_pending_item.induct) (auto split: option.splits)

lemma seq_del_snd:
  assumes "distinct (map snd xs)" "(it, d) \<in> set xs"
  shows "d \<notin> snd ` set (seq_del it xs)"
proof
  assume "d \<in> snd ` set (seq_del it xs)"
  then obtain it' where it': "(it', d) \<in> set xs" "it' \<noteq> it" by auto
  have "inj_on snd (set xs)" using assms(1) by (simp add: distinct_map)
  from inj_onD [OF this, of "(it, d)" "(it', d)"] assms(2) it' show False by simp
qed

lemma find_pending_io_inv:
  assumes "base_inv b" "na \<in> nodes_of b" "find_pending_io na answ b = Some (ioa, b')"
  shows "base_inv b'" "nodes_of b' = nodes_of b" "ioa \<noteq> 0 \<Longrightarrow> unowned ioa b' \<and> io_at b' ioa \<noteq> None"
proof -
  from assms(3) obtain nd where nd: "node_at b na = Some nd"
    by (auto simp: find_pending_io_def split: bind_splits)
  have ok: "base_node_ok b na nd"
    using assms(1,2) nd by (auto simp: base_inv_def intro: base_wf_node)
  show "base_inv b'" "nodes_of b' = nodes_of b" "ioa \<noteq> 0 \<Longrightarrow> unowned ioa b' \<and> io_at b' ioa \<noteq> None"
  proof (atomize (full), cases "\<exists>it. find_pending_item (io_at b) answ nd (pending_ios nd) = Some (Some (it, ioa)) \<and> ioa \<noteq> 0")
    case False
    have "b' = b \<and> ioa = 0"
    proof (cases "find_pending_item (io_at b) answ nd (pending_ios nd)")
      case (Some r)
      show ?thesis
      proof (cases r)
        case (Some p)
        obtain it a where p: "p = (it, a)" by fastforce
        with assms(3) nd Some \<open>find_pending_item (io_at b) answ nd (pending_ios nd) = Some r\<close> have "a = ioa"
          by (simp add: find_pending_io_def)
        moreover have "(it, a) \<in> set (pending_ios nd)"
          using find_pending_item_Some Some \<open>find_pending_item (io_at b) answ nd (pending_ios nd) = Some r\<close> p by blast
        then have "a \<in> set (node_ios nd)" unfolding node_ios_def by force
        then have "a \<noteq> 0" using ok unfolding base_node_ok_def by blast
        ultimately show ?thesis
          using False p Some \<open>find_pending_item (io_at b) answ nd (pending_ios nd) = Some r\<close> by blast
      qed (use assms(3) nd Some in \<open>simp add: find_pending_io_def\<close>)
    qed (use assms(3) nd in \<open>simp add: find_pending_io_def\<close>)
    with assms(1) show "base_inv b' \<and> nodes_of b' = nodes_of b \<and> (ioa \<noteq> 0 \<longrightarrow> unowned ioa b' \<and> io_at b' ioa \<noteq> None)" by simp
  next
    case True
    then obtain it where it: "find_pending_item (io_at b) answ nd (pending_ios nd) = Some (Some (it, ioa))" "ioa \<noteq> 0" by blast
    let ?nd = "nd\<lparr>pending_ios := seq_del it (pending_ios nd)\<rparr>"
    have b': "b' = set_node na ?nd b" using assms(3) nd it by (auto simp: find_pending_io_def)
    have m: "(it, ioa) \<in> set (pending_ios nd)" "io_at b ioa \<noteq> None"
      using find_pending_item_Some [OF it(1)] by auto
    have d: "distinct (map snd (pending_ios nd))" "distinct (map snd (posted_ios nd))"
        "snd ` set (posted_ios nd) \<inter> snd ` set (pending_ios nd) = {}"
      using ok by (auto simp: base_node_ok_def node_ios_def)
    have sub: "set (node_ios ?nd) \<subseteq> set (node_ios nd)" "node_items ?nd \<subseteq> node_items nd"
      by (auto simp: node_ios_def node_items_def)
    have dd: "distinct (map snd (seq_del it (pending_ios nd)))"
      using d(1) by (auto simp: seq_del_def distinct_map intro: inj_on_subset)
    then have dn: "distinct (node_ios ?nd)" using d by (auto simp: node_ios_def)
    have "node_wf ?nd" using ok by (auto simp: base_node_ok_def node_wf_def distinct_seq_del)
    then have "base_inv (set_node na ?nd (b\<lparr>b_mls := b_mls b\<rparr>))"
      by (intro base_inv_set_node [OF assms(1) nd assms(2), where ks = "[]"]) (use sub dn in auto)
    then have inv: "base_inv b'" by (simp add: b')
    have "ioa \<in> snd ` set (pending_ios nd)" using m(1) by force
    then have "ioa \<notin> snd ` set (posted_ios nd)" using d(3) by blast
    then have "ioa \<notin> set (node_ios ?nd)"
      using seq_del_snd [OF d(1) m(1)] by (simp add: node_ios_def)
    moreover have "ioa \<notin> set (node_ios (the (node_at b ma)))" if "ma \<in> nodes_of b" "ma \<noteq> na" for ma
    proof -
      have "set (node_ios (the (node_at b ma))) \<inter> set (node_ios (the (node_at b na))) = {}"
        using assms(1,2) that by (auto simp: base_inv_def base_wf_def)
      moreover have "ioa \<in> set (node_ios nd)" using m(1) by (force simp: node_ios_def)
      ultimately show ?thesis using nd by auto
    qed
    ultimately have "unowned ioa b'" by (auto simp: unowned_def b')
    with inv m(2) show "base_inv b' \<and> nodes_of b' = nodes_of b \<and> (ioa \<noteq> 0 \<longrightarrow> unowned ioa b' \<and> io_at b' ioa \<noteq> None)"
      by (simp add: b')
  qed
qed

text \<open>
  What the callbacks must keep: the invariant, and a completion function also must not put the
  operation it completes back into a list.
\<close>

definition compl_ok :: "'w base_lib \<Rightarrow> bool" where
  "compl_ok lib \<longleftrightarrow> (\<forall>fn d a b b'. base_inv b \<longrightarrow> unowned a b \<longrightarrow> io_at b a \<noteq> None \<longrightarrow>
     compl lib fn d a b = Some b' \<longrightarrow> base_inv b' \<and> unowned a b')"

definition handlers_ok :: "'w loop_info \<Rightarrow> bool" where
  "handlers_ok linfo \<longleftrightarrow>
     (\<forall>f na k v b. set_fn linfo = Some f \<longrightarrow> base_inv b \<longrightarrow> na \<in> nodes_of b \<longrightarrow> base_inv (f na k v b))
   \<and> (\<forall>f na k b. get_fn linfo = Some f \<longrightarrow> base_inv b \<longrightarrow> na \<in> nodes_of b \<longrightarrow> base_inv (f na k b))
   \<and> (\<forall>f na r b. node_fn linfo = Some f \<longrightarrow> base_inv b \<longrightarrow> na \<in> nodes_of b \<longrightarrow>
        base_inv (f na r b) \<and> na \<in> nodes_of (f na r b))"

lemma complete_reply_inv:
  assumes "compl_ok lib" "base_inv b" "na \<in> nodes_of b" "complete_reply lib msg na b = Some b'"
  shows "base_inv b'"
proof -
  from assms(4) obtain ioa b1 where b1: "find_pending_io na msg b = Some (ioa, b1)"
    by (auto simp: complete_reply_def split: bind_splits)
  note inv = find_pending_io_inv [OF assms(2,3) b1]
  show ?thesis
  proof (cases "ioa = 0")
    case True
    with assms(4) b1 inv(1) show ?thesis by (simp add: complete_reply_def)
  next
    case False
    with inv(3) obtain io where io: "io_at b1 ioa = Some io" "unowned ioa b1" by auto
    from assms(4) b1 False io(1) obtain b2 t where b2: "b' = bano_free_io ioa (b2\<lparr>b_timers := t\<rparr>)"
        "b2 = b1 \<or> (\<exists>x. compl lib (io_compl_fn io) (io_compl_data io) ioa (set_io ioa x b1) = Some b2)"
      by (auto simp: complete_reply_def Let_def split: bind_splits if_splits)
    have "base_inv (set_io ioa x b1) \<and> unowned ioa (set_io ioa x b1) \<and> io_at (set_io ioa x b1) ioa \<noteq> None" for x
      using base_inv_set_io [OF inv(1)] io by (simp add: unowned_def)
    then have "base_inv b2 \<and> unowned ioa b2"
      using b2(2) inv(1) io(2) assms(1) unfolding compl_ok_def by blast
    then have "base_inv (b2\<lparr>b_timers := t\<rparr>)" "unowned ioa (b2\<lparr>b_timers := t\<rparr>)"
      using base_inv_cong [of "b2\<lparr>b_timers := t\<rparr>" b2] by (simp_all add: unowned_def)
    then show ?thesis unfolding b2(1) by (rule base_inv_free_io)
  qed
qed

lemma handle_set_msg_inv:
  assumes "compl_ok lib" "handlers_ok linfo" "base_inv b" "na \<in> nodes_of b"
    and "handle_set_msg lib linfo msg na b = Some b'"
  shows "base_inv b'"
proof -
  from assms(5) obtain b1 where b1: "handle_set_value lib msg na b = Some b1"
    by (auto simp: handle_set_msg_def split: bind_splits)
  note v = handle_set_value_inv [OF assms(3,4) b1]
  with assms(4) have "na \<in> nodes_of b1" by simp
  with assms(1,2,5) b1 v(1) show ?thesis
    by (auto simp: handle_set_msg_def handlers_ok_def split: if_splits option.splits
        intro: complete_reply_inv)
qed

text \<open>
  A new node needs the array of its dictionary, whose allocation the code does not check: the
  second result of \<open>malloc\<close> after the node itself.
\<close>

definition dict_memory :: "'w base \<Rightarrow> bool" where
  "dict_memory b \<longleftrightarrow> (\<exists>a c ms. b_mls b = a # c # ms \<and> c \<noteq> 0)"

lemma add_node_inv:
  assumes "base_inv b" "b_mls b = na # c # it # ms" "na \<noteq> 0" "it \<noteq> 0"
    and "node_wf nd" "node_ios nd = []" "socket_at b (n_socket nd) \<noteq> None"
  shows "base_inv (set_node na nd (b\<lparr>b_mls := ms, b_nodes := b_nodes b @ [(it, na)]\<rparr>))"
proof -
  let ?b = "set_node na nd (b\<lparr>b_mls := ms, b_nodes := b_nodes b @ [(it, na)]\<rparr>)"
  have wf: "base_wf b" "mls_fresh b" using assms(1) by (auto simp: base_inv_def)
  have fr: "na \<notin> used b" "it \<notin> used b" "na \<noteq> it" "na \<notin> set ms" "it \<notin> set ms"
    using wf(2) assms(2-4) by (auto simp: mls_fresh_def split: if_splits)
  have n [simp]: "nodes_of ?b = insert na (nodes_of b)" by (auto simp: nodes_of_def)
  have items: "node_items nd = {}" using assms(6) by (simp add: node_ios_def node_items_def)
  have new: "na \<notin> nodes_of b" "it \<notin> fst ` set (b_nodes b)" using fr by (auto simp: used_def)
  have nodes: "\<exists>x. base_node_ok ?b ma x" if "ma \<in> insert na (nodes_of b)" for ma
  proof (cases "ma = na")
    case True
    then have "base_node_ok ?b ma nd" using assms(5-7) items by (simp add: base_node_ok_def)
    then show ?thesis by blast
  next
    case False
    with wf(1) that obtain x where "base_node_ok b ma x" by (auto simp: base_wf_def)
    with False have "base_node_ok ?b ma x" by (simp add: base_node_ok_def)
    then show ?thesis by blast
  qed
  have disj: "set (node_ios (the (node_at ?b x))) \<inter> set (node_ios (the (node_at ?b y))) = {}"
    if "x \<in> insert na (nodes_of b)" "y \<in> insert na (nodes_of b)" "x \<noteq> y" for x y
  proof -
    have "x = na \<or> y = na \<or> set (node_ios (the (node_at b x))) \<inter> set (node_ios (the (node_at b y))) = {}"
      using wf(1) that unfolding base_wf_def by blast
    with that(3) assms(6) show ?thesis by auto
  qed
  have "distinct (map fst (b_nodes ?b))" "distinct (map snd (b_nodes ?b))"
      "0 \<notin> fst ` set (b_nodes ?b)" "0 \<notin> insert na (nodes_of b)"
    using wf(1) new assms(3,4) by (auto simp: base_wf_def nodes_of_def)
  then have "base_wf ?b"
    unfolding base_wf_def n using nodes disj by (intro conjI ballI impI)
  moreover have "mls_fresh ?b"
  proof -
    have old: "the (node_at ?b x) = the (node_at b x)" if "x \<in> nodes_of b" for x
      using that new by auto
    have "used ?b \<subseteq> insert na (insert it (used b))"
    proof
      fix x assume x: "x \<in> used ?b"
      have eq: "fst ` set (b_nodes ?b) = insert it (fst ` set (b_nodes b))" "io_at ?b = io_at b" by auto
      from x consider "x \<in> {na, it}" | "x \<in> fst ` set (b_nodes b) \<union> nodes_of b \<union> {a. io_at b a \<noteq> None}"
        | y where "y \<in> insert na (nodes_of b)" "x \<in> node_items (the (node_at ?b y))"
        unfolding used_def n eq by blast
      then show "x \<in> insert na (insert it (used b))"
      proof cases
        case 3
        show ?thesis
        proof (cases "y = na")
          case False
          with 3 old have "x \<in> node_items (the (node_at b y))" "y \<in> nodes_of b" by auto
          then show ?thesis by (auto simp: used_def)
        qed (use 3 items in simp)
      qed (auto simp: used_def)
    qed
    moreover have "distinct (filter (\<lambda>a. a \<noteq> 0) ms)" "\<forall>a \<in> set ms. a \<noteq> 0 \<longrightarrow> a \<notin> used b"
      using wf(2) assms(2) by (auto simp: mls_fresh_def split: if_splits)
    ultimately show ?thesis using fr(4,5) by (auto simp: mls_fresh_def)
  qed
  ultimately show ?thesis by (simp add: base_inv_def)
qed

lemma node_of_msg_inv:
  assumes "handlers_ok linfo" "base_inv b" "socket_at b sa \<noteq> None"
    and "has_flag (b_flags b) BANO_BASE_FLAG_NEW_NODES \<Longrightarrow> dict_memory b"
    and "node_of_msg linfo sa a b = Some (r, na, b')"
  shows "base_inv b'" "na \<noteq> 0 \<Longrightarrow> na \<in> nodes_of b'"
proof -
  have found: "x \<in> snd ` set xs" if "find_node_by_addr (node_at b) a xs = Some x" "x \<noteq> 0" for x xs
    using that by (induction xs rule: find_node_by_addr.induct [of _ "node_at b" a]) (auto split: option.splits if_splits)
  from assms(5) obtain x where x: "find_node_by_addr (node_at b) a (b_nodes b) = Some x"
    by (auto simp: node_of_msg_def split: bind_splits)
  have mls: "base_inv (b\<lparr>b_mls := ms\<rparr>)" if "b_mls b = ks @ ms" for ks ms
  proof -
    have "base_wf (b\<lparr>b_mls := ms\<rparr>) = base_wf b" "used (b\<lparr>b_mls := ms\<rparr>) = used b"
      by (simp_all add: base_wf_def base_node_ok_def used_def)
    then show ?thesis using assms(2) that by (auto simp: base_inv_def intro: mls_fresh_suffix)
  qed
  have "base_inv b' \<and> (na \<noteq> 0 \<longrightarrow> na \<in> nodes_of b')"
  proof (cases "x \<noteq> 0 \<or> \<not> has_flag (b_flags b) BANO_BASE_FLAG_NEW_NODES")
    case True
    with assms(2,5) x found [OF x] show ?thesis by (auto simp: node_of_msg_def nodes_of_def split: if_splits)
  next
    case False
    with assms(4) obtain n c ms where ms: "b_mls b = n # c # ms" "c \<noteq> 0" by (auto simp: dict_memory_def)
    show ?thesis
    proof (cases "n = 0 \<or> ms = [] \<or> hd ms = 0")
      case True
      with False assms(5) x ms have "na = 0 \<and> (b' = b\<lparr>b_mls := c # ms\<rparr> \<or> b' = b\<lparr>b_mls := tl ms\<rparr>)"
        by (cases ms) (auto simp: node_of_msg_def bano_node_alloc_def bano_dict_init_def bano_dict_init_with_nlist_def
            seq_add_tail_def split: if_splits)
      moreover have "b_mls b = [n] @ (c # ms)" "b_mls b = n # c # take 1 ms @ tl ms"
        using ms by (cases ms; simp)+
      then have "base_inv (b\<lparr>b_mls := c # ms\<rparr>)" "base_inv (b\<lparr>b_mls := tl ms\<rparr>)"
        using mls [of "[n]"] mls [of "n # c # take 1 ms"] by auto
      ultimately show ?thesis by auto
    next
      case False2: False
      then obtain it ms' where it: "ms = it # ms'" "it \<noteq> 0" "n \<noteq> 0" by (cases ms) auto
      obtain d :: "node_val dict" where d: "bano_dict_init (c # it # ms') 16 = (it # ms', Some d)"
        using ms(2) by (auto simp: bano_dict_init_def bano_dict_init_with_nlist_def)
      define nd where "nd = \<lparr>n_flags = 0, n_addr = a, n_name = [], n_socket = sa, n_nodl = None,
            posted_ios = [], pending_ios = [], keyval_pairs = Some d\<rparr>"
      define b1 where "b1 = set_node n nd (b\<lparr>b_mls := ms', b_nodes := b_nodes b @ [(it, n)]\<rparr>)"
      have wfd: "dict_wf d"
        using bano_dict_init_wf [OF d [unfolded bano_dict_init_def]] by simp
      have inv1: "base_inv b1"
        unfolding b1_def
        by (rule add_node_inv [OF assms(2) _ it(3,2)])
          (use ms it wfd assms(3) in \<open>simp_all add: nd_def node_wf_def node_ios_def\<close>)
      have n1: "n \<in> nodes_of b1" by (simp add: b1_def nodes_of_def)
      define nd0 where "nd0 = nd\<lparr>n_addr := 0, n_socket := 0\<rparr>"
      have "bano_node_alloc (b_mls b) = (it # ms', Some (n, nd0))"
        using ms it d by (simp add: bano_node_alloc_def nd_def nd0_def)
      moreover have "set_node n (nd0\<lparr>n_addr := a, n_socket := sa\<rparr>) (b\<lparr>b_mls := ms', b_nodes := b_nodes b @ [(it, n)]\<rparr>) = b1"
        by (simp add: b1_def nd_def nd0_def)
      ultimately have "na = n \<and> b' = (case node_fn linfo of None \<Rightarrow> b1 | Some f \<Rightarrow> f n BANO_NODE_REASON_NEW b1)"
        using assms(5) x False it
        by (cases "node_fn linfo") (auto simp: node_of_msg_def seq_add_tail_def Let_def)
      with inv1 n1 assms(1) show ?thesis by (auto simp: handlers_ok_def split: option.splits)
    qed
  qed
  then show "base_inv b'" "na \<noteq> 0 \<Longrightarrow> na \<in> nodes_of b'" by auto
qed

text \<open>Handling a received message keeps the invariant, whatever the message.\<close>

lemma handle_bano_msg_inv:
  assumes "compl_ok lib" "handlers_ok linfo" "base_inv b" "socket_at b sa \<noteq> None"
    and "has_flag (b_flags b) BANO_BASE_FLAG_NEW_NODES \<Longrightarrow> dict_memory b"
    and "handle_bano_msg lib linfo sa m b = Some (r, b')"
  shows "base_inv b'"
proof -
  define msg where "msg = decrypt_msg (b_cipher b) m"
  from assms(6) obtain r1 na b1 where b1: "node_of_msg linfo sa (saddr msg) b = Some (r1, na, b1)"
    by (auto simp: handle_bano_msg_def Let_def msg_def split: bind_splits)
  note n = node_of_msg_inv [OF assms(2-5) b1]
  have "na = 0 \<Longrightarrow> b' = b1"
    using assms(6) b1 by (simp add: handle_bano_msg_def Let_def flip: msg_def)
  moreover have "na \<noteq> 0 \<Longrightarrow> b' = b1 \<or> handle_set_msg lib linfo msg na b1 = Some b' \<or> handle_get_msg linfo msg na b1 = Some b'"
    using assms(6) b1 by (auto simp: handle_bano_msg_def Let_def simp flip: msg_def split: if_splits)
  moreover have "base_inv b'" if "na \<noteq> 0" "handle_get_msg linfo msg na b1 = Some b'"
    using that n assms(2) by (auto simp: handle_get_msg_def handlers_ok_def split: option.splits)
  ultimately show ?thesis
    using n handle_set_msg_inv [OF assms(1,2) n(1)] by (cases "na = 0") auto
qed

section \<open>What the operations do\<close>

lemma find_node_by_addr_find:
  assumes "\<And>na. na \<in> snd ` set xs \<Longrightarrow> nodes na \<noteq> None"
  shows "find_node_by_addr nodes a xs =
     Some (case find (\<lambda>x. n_addr (the (nodes (snd x))) = a) xs of None \<Rightarrow> 0 | Some x \<Rightarrow> snd x)"
  using assms
  by (induction nodes a xs rule: find_node_by_addr.induct) (auto split: option.splits)

text \<open>
  A value reported without error for a key the node has is stored with the time; when memory
  for a new key is missing, nothing changes. No other node changes.
\<close>

lemma handle_set_value_stores:
  assumes "base_inv b" "na \<in> nodes_of b" "node_at b na = Some nd"
    and "\<not> has_flag (flags msg) BANO_MSG_FLAG_ERR"
    and "\<And>dl. n_nodl nd = Some dl \<Longrightarrow> \<exists>kv. bano_nodl_find_key dl (set_key msg) = Some (Some kv)"
  shows "\<exists>b' nd'. handle_set_value lib msg na b = Some b' \<and> node_at b' = (node_at b)(na \<mapsto> nd')
    \<and> io_at b' = io_at b \<and> posted_ios nd' = posted_ios nd \<and> pending_ios nd' = pending_ios nd
    \<and> n_addr nd' = n_addr nd \<and> b_timers b' = b_timers b
    \<and> (node_values nd' = (node_values nd)(ucast (set_key msg) \<mapsto> \<lparr>nv_val = set_val msg, nv_mtime = gettime lib (world b)\<rparr>)
       \<or> node_values nd (ucast (set_key msg)) = None \<and> nd' = nd
         \<and> \<not> (\<exists>p i ms. b_mls b = p # i # ms \<and> p \<noteq> 0 \<and> i \<noteq> 0))"
proof -
  let ?k = "ucast (set_key msg) :: u32" and ?v = "\<lparr>nv_val = set_val msg, nv_mtime = gettime lib (world b)\<rparr>"
  have ok: "base_node_ok b na nd"
    using assms(1-3) by (auto simp: base_inv_def intro: base_wf_node)
  then obtain d where d: "keyval_pairs nd = Some d" "dict_wf d" by (auto simp: base_node_ok_def node_wf_def)
  obtain r ms d' where sa: "bano_dict_set_or_add (b_mls b) d ?k ?v = (r, ms, d')"
    by (cases "bano_dict_set_or_add (b_mls b) d ?k ?v") auto
  note m = bano_dict_set_or_add_map [OF d(2) sa]
  have oom: "r = Err \<Longrightarrow> dict_map d ?k = None \<and> \<not> (\<exists>p i ms. b_mls b = p # i # ms \<and> p \<noteq> 0 \<and> i \<noteq> 0)"
    using sa bano_dict_set_map [OF d(2), of ?k ?v]
    by (auto simp: bano_dict_set_or_add_def bano_dict_add_def Let_def split: prod.splits rc.splits if_splits)
  have res: "\<exists>b1. (b1 = b \<or> (\<exists>w. b1 = b\<lparr>world := w\<rparr>)) \<and>
      handle_set_value lib msg na b = set_node_pair na (set_key msg) ?v b1"
  proof (cases "n_nodl nd")
    case None
    then show ?thesis using assms(3,4) by (auto simp: handle_set_value_def Let_def)
  next
    case (Some dl)
    with assms(5) obtain kv where "bano_nodl_find_key dl (set_key msg) = Some (Some kv)" by blast
    then show ?thesis using Some assms(3,4) by (auto simp: handle_set_value_def Let_def)
  qed
  then obtain b1 where b1: "b1 = b \<or> (\<exists>w. b1 = b\<lparr>world := w\<rparr>)"
      "handle_set_value lib msg na b = set_node_pair na (set_key msg) ?v b1" by blast
  let ?nd = "nd\<lparr>keyval_pairs := Some d'\<rparr>"
  have s: "set_node_pair na (set_key msg) ?v b1 = Some (set_node na ?nd (b1\<lparr>b_mls := ms\<rparr>))"
    using b1(1) assms(3) d(1) sa by (auto simp: set_node_pair_def)
  have v: "node_values ?nd = (node_values nd)(?k \<mapsto> ?v)
       \<or> node_values nd ?k = None \<and> ?nd = nd \<and> \<not> (\<exists>p i ms. b_mls b = p # i # ms \<and> p \<noteq> 0 \<and> i \<noteq> 0)"
    using m(2,3) oom d(1) by (cases r) (auto simp: node_values_def)
  show ?thesis
    using b1 s v
    by (intro exI [of _ "set_node na ?nd (b1\<lparr>b_mls := ms\<rparr>)"] exI [of _ ?nd]) auto
qed

text \<open>
  A description that does not have the key: the value is not stored, with or without a reply
  flag.
\<close>

lemma handle_set_value_unknown_key:
  assumes "node_at b na = Some nd" "n_nodl nd = Some dl" "bano_nodl_find_key dl (set_key msg) = Some None"
  shows "handle_set_value lib msg na b = Some b"
  using assms by (simp add: handle_set_value_def Let_def)

text \<open>A completion function that only looks at the operation and acts outside the base.\<close>

definition compl_world :: "'w base_lib \<Rightarrow> (nat \<Rightarrow> nat \<Rightarrow> io \<Rightarrow> 'w \<Rightarrow> 'w) \<Rightarrow> bool" where
  "compl_world lib g \<longleftrightarrow>
     (\<forall>fn d a b. compl lib fn d a b = Some (b\<lparr>world := g fn d (the (io_at b a)) (world b)\<rparr>))"

lemma compl_world_ok: "compl_world lib g \<Longrightarrow> compl_ok lib"
proof -
  assume g: "compl_world lib g"
  have "base_inv (b\<lparr>world := w\<rparr>) = base_inv b" for b :: "'a base" and w
    by (rule base_inv_cong) simp_all
  with g show ?thesis by (simp add: compl_ok_def compl_world_def unowned_def)
qed

text \<open>
  A reply completes the first pending operation it matches: its completion function sees
  success and the value, and then operation, list item and timer are gone.
\<close>

lemma complete_reply_completes:
  assumes "base_inv b" "na \<in> nodes_of b" "node_at b na = Some nd"
    and "find (\<lambda>x. cmp_pending_io msg nd (the (io_at b (snd x)))) (pending_ios nd) = Some (it, ioa)"
    and "io_at b ioa = Some io" "io_compl_fn io \<noteq> 0" "\<not> has_flag (flags msg) BANO_MSG_FLAG_ERR"
    and "compl_world lib g"
    and "timers_wf (b_timers b) as" "dll (tm_heap (b_timers b)) (tm_list (b_timers b)) as"
    and "a \<in> set as" "io_timer io = timer_of (b_timers b) a"
  shows "\<exists>b'. complete_reply lib msg na b = Some b'
    \<and> world b' = g (io_compl_fn io) (io_compl_data io)
        (io\<lparr>io_compl_err := BANO_IO_ERR_SUCCESS, io_compl_val := set_val msg\<rparr>) (world b)
    \<and> io_at b' = (io_at b)(ioa := None)
    \<and> node_at b' = (node_at b)(na \<mapsto> nd\<lparr>pending_ios := seq_del it (pending_ios nd)\<rparr>)
    \<and> timers_wf (b_timers b') (remove1 a as)"
proof -
  have ok: "base_node_ok b na nd"
    using assms(1-3) by (auto simp: base_inv_def intro: base_wf_node)
  have live: "a \<in> snd ` set (pending_ios nd) \<Longrightarrow> io_at b a \<noteq> None" for a
    using ok by (auto simp: base_node_ok_def node_ios_def)
  have f: "find_pending_item (io_at b) msg nd (pending_ios nd) = Some (Some (it, ioa))"
    using find_pending_item_find [of "pending_ios nd" "io_at b" msg nd, OF live] assms(4) by simp
  then have mem: "(it, ioa) \<in> set (pending_ios nd)" by (blast dest: find_pending_item_Some)
  have nz: "ioa \<noteq> 0"
  proof -
    have "ioa \<in> set (node_ios nd)" using mem unfolding node_ios_def by force
    then show ?thesis using ok unfolding base_node_ok_def by blast
  qed
  let ?nd = "nd\<lparr>pending_ios := seq_del it (pending_ios nd)\<rparr>"
  let ?io = "io\<lparr>io_compl_err := BANO_IO_ERR_SUCCESS, io_compl_val := set_val msg\<rparr>"
  obtain t where t: "bano_timer_del (b_timers b) (io_timer io) = Some t" "timers_wf t (remove1 a as)"
    using bano_timer_del_rels [OF assms(9-11)] assms(12) by metis
  have p: "find_pending_io na msg b = Some (ioa, set_node na ?nd b)"
    using assms(3) f by (simp add: find_pending_io_def)
  let ?w = "g (io_compl_fn io) (io_compl_data io) ?io (world b)"
  let ?b2 = "(set_io ioa ?io (set_node na ?nd b))\<lparr>world := ?w\<rparr>"
  have c: "compl lib (io_compl_fn io) (io_compl_data io) ioa (set_io ioa ?io (set_node na ?nd b)) = Some ?b2"
    using assms(8) by (simp add: compl_world_def set_io_def)
  have "complete_reply lib msg na b = Some (bano_free_io ioa (?b2\<lparr>b_timers := t\<rparr>))"
    using p nz assms(5-7) c t(1) by (simp add: complete_reply_def Let_def)
  with t(2) show ?thesis
    by (intro exI [of _ "bano_free_io ioa (?b2\<lparr>b_timers := t\<rparr>)"]) (simp add: bano_free_io_def)
qed

text \<open>A reply that matches nothing changes nothing.\<close>

lemma complete_reply_no_match:
  assumes "base_inv b" "na \<in> nodes_of b" "node_at b na = Some nd"
    and "find (\<lambda>x. cmp_pending_io msg nd (the (io_at b (snd x)))) (pending_ios nd) = None"
  shows "complete_reply lib msg na b = Some b"
proof -
  have ok: "base_node_ok b na nd"
    using assms(1-3) by (auto simp: base_inv_def intro: base_wf_node)
  have live: "a \<in> snd ` set (pending_ios nd) \<Longrightarrow> io_at b a \<noteq> None" for a
    using ok by (auto simp: base_node_ok_def node_ios_def)
  have "find_pending_item (io_at b) msg nd (pending_ios nd) = Some None"
    using find_pending_item_find [of "pending_ios nd" "io_at b" msg nd, OF live] assms(4) by simp
  with assms(3) show ?thesis by (simp add: complete_reply_def find_pending_io_def)
qed

section \<open>Posting\<close>

lemma timers_wf_data:
  assumes "timers_wf t as" "tm_store t ti = Some tm"
  shows "timers_wf (t\<lparr>tm_store := (tm_store t)(ti \<mapsto> tm\<lparr>t_data := x\<rparr>)\<rparr>) as"
    "rels (t\<lparr>tm_store := (tm_store t)(ti \<mapsto> tm\<lparr>t_data := x\<rparr>)\<rparr>) as = rels t as"
proof -
  have "timer_of (t\<lparr>tm_store := s\<rparr>) = timer_of t" for s by (rule ext) (simp add: timer_of_def)
  with assms show "timers_wf (t\<lparr>tm_store := (tm_store t)(ti \<mapsto> tm\<lparr>t_data := x\<rparr>)\<rparr>) as"
    "rels (t\<lparr>tm_store := (tm_store t)(ti \<mapsto> tm\<lparr>t_data := x\<rparr>)\<rparr>) as = rels t as"
    by (auto simp: timers_wf_def rels_def)
qed

text \<open>
  Sending an operation that wants a reply: it moves from the posted to the pending list, and a
  timer that leads back to its item is armed at its deadline.
\<close>

lemma post_io_pending:
  assumes "io_at b ioa = Some io" "has_flag (io_flags io) BANO_IO_FLAG_REPLY" "node_at b na = Some nd"
    and "socket_at b (n_socket nd) = Some s"
    and "m = (if has_flag (n_flags nd) BANO_NODE_FLAG_CIPHER then encrypt_msg (b_cipher b) (io_msg io) else io_msg io)"
    and "bano_socket_write (snrf_lib.truncate lib) s (n_addr nd) m (world b) = (Ok, w)"
    and "b_mls b = p # ti # i # ms" "p \<noteq> 0" "ti \<noteq> 0" "i \<noteq> 0"
    and "timers_wf (b_timers b) as" "dll (tm_heap (b_timers b)) (tm_list (b_timers b)) as"
    and "sum_list (map unat (rels (b_timers b) as)) < 2 ^ 32"
    and "tm_store (b_timers b) ti = None" "tm_heap (b_timers b) i = None"
  shows "\<exists>b' k tm. post_io lib na it ioa b = Some (False, b') \<and> world b' = w
    \<and> node_at b' = (node_at b)(na \<mapsto> nd\<lparr>pending_ios := pending_ios nd @ [(p, ioa)], posted_ios := seq_del it (posted_ios nd)\<rparr>)
    \<and> io_at b' = (io_at b)(ioa \<mapsto> io\<lparr>io_timer := ti\<rparr>)
    \<and> timers_wf (b_timers b') (take k as @ i # drop k as) \<and> timer_of (b_timers b') i = ti
    \<and> tm_store (b_timers b') ti = Some tm \<and> t_data tm = (na, p)
    \<and> deadlines 0 (map unat (rels (b_timers b') (take k as @ i # drop k as))) =
        insert_deadline (unat (io_retry_ms io)) (deadlines 0 (map unat (rels (b_timers b) as)))"
proof -
  let ?as = "\<lambda>k. take k as @ i # drop k as"
  obtain t k where t: "bano_timer_add (ti # i # ms) (b_timers b) (io_retry_ms io) = Some (Ok, ti, ms, t)"
      "timers_wf t (?as k)" "timer_of t i = ti"
      "map unat (rels t (?as k)) = delta_insert (unat (io_retry_ms io)) (map unat (rels (b_timers b) as))"
    using bano_timer_add_inserts [OF assms(11-13) assms(9,10,14,15)] by metis
  obtain tm where tm: "tm_store t ti = Some tm" using t(2,3) by (force simp: timers_wf_def)
  let ?t = "t\<lparr>tm_store := (tm_store t)(ti \<mapsto> tm\<lparr>t_data := (na, p)\<rparr>)\<rparr>"
  let ?nd = "nd\<lparr>pending_ios := pending_ios nd @ [(p, ioa)], posted_ios := seq_del it (posted_ios nd)\<rparr>"
  let ?b1 = "set_node na (nd\<lparr>pending_ios := pending_ios nd @ [(p, ioa)]\<rparr>) (b\<lparr>world := w, b_mls := ms, b_timers := t\<rparr>)"
  let ?b = "set_node na ?nd (set_io ioa (io\<lparr>io_timer := ti\<rparr>) (?b1\<lparr>b_timers := ?t\<rparr>))"
  have "post_io lib na it ioa b = Some (False, ?b)"
    using assms(1-8) t(1) tm by (simp add: post_io_def Let_def seq_add_tail_def)
  moreover have "timers_wf ?t (?as k)" "rels ?t (?as k) = rels t (?as k)" "timer_of ?t i = ti"
    using timers_wf_data [OF t(2) tm] t(3) by (simp_all add: timer_of_def)
  ultimately show ?thesis
    using t(4) deadlines_delta_insert [of 0 "unat (io_retry_ms io)" "map unat (rels (b_timers b) as)"]
    by (intro exI [of _ ?b] exI [of _ k] exI [of _ "tm\<lparr>t_data := (na, p)\<rparr>"]) (simp add: set_io_def)
qed

lemma free_nodes_gone: "free_nodes xs b = Some b' \<Longrightarrow> na \<in> snd ` set xs \<Longrightarrow> node_at b' na = None"
proof (induction xs b rule: free_nodes.induct)
  case (2 it x xs b)
  have keep: "node_at b1 na = None \<Longrightarrow> free_nodes ys b1 = Some b2 \<Longrightarrow> node_at b2 na = None" for b1 b2 :: "'a base" and ys
  proof (induction ys b1 rule: free_nodes.induct)
    case (2 it y ys b1)
    have n: "node_at (fold bano_free_io as c) = node_at c" for as and c :: "'a base"
      by (induction as arbitrary: c) simp_all
    from 2(3) obtain nd where "node_at b1 y = Some nd" by (auto split: bind_splits)
    with 2 show ?case by (auto simp: n)
  qed simp
  have n: "node_at (fold bano_free_io as c) = node_at c" for as and c :: "'a base"
    by (induction as arbitrary: c) simp_all
  from 2(2) obtain nd where nd: "node_at b x = Some nd"
      "free_nodes xs (fold bano_free_io (bano_node_free nd) (b\<lparr>node_at := (node_at b)(x := None)\<rparr>)) = Some b'"
    by (auto split: bind_splits)
  show ?case
  proof (cases "x = na")
    case True
    then show ?thesis by (intro keep [OF _ nd(2)]) (simp add: n)
  next
    case False
    with 2(1) [OF nd] 2(3) show ?thesis by auto
  qed
qed simp

text \<open>
  A failed write is fatal: the node whose operation was written is freed, and \<open>post_io\<close>
  goes on to use its list item.
\<close>

lemma post_io_write_fails:
  assumes "io_at b ioa = Some io" "node_at b na = Some nd" "na \<in> nodes_of b"
    and "socket_at b (n_socket nd) = Some s"
    and "fst (bano_socket_write (snrf_lib.truncate lib) s (n_addr nd)
      (if has_flag (n_flags nd) BANO_NODE_FLAG_CIPHER then encrypt_msg (b_cipher b) (io_msg io) else io_msg io)
      (world b)) = Err"
  shows "post_io lib na it ioa b = None"
proof -
  have gone: "bano_socket_free lib sa (b\<lparr>world := w\<rparr>) = Some b1 \<Longrightarrow> node_at b1 na = None" for sa w b1
    using assms(3) by (auto simp: bano_socket_free_def nodes_of_def split: bind_splits dest: free_nodes_gone)
  obtain w where "bano_socket_write (snrf_lib.truncate lib) s (n_addr nd)
      (if has_flag (n_flags nd) BANO_NODE_FLAG_CIPHER then encrypt_msg (b_cipher b) (io_msg io) else io_msg io)
      (world b) = (Err, w)"
    using assms(5) by (metis prod.collapse)
  with assms(1-4) gone [of "n_socket nd" w] show ?thesis
    by (cases "bano_socket_free lib (n_socket nd) (b\<lparr>world := w\<rparr>)") (simp_all add: post_io_def Let_def)
qed

section \<open>Allocating and posting keep the invariant\<close>

lemma base_inv_mls: "base_inv b \<Longrightarrow> b_mls b = ks @ ms \<Longrightarrow> base_inv (b\<lparr>b_mls := ms\<rparr>)"
proof -
  assume b: "base_inv b" "b_mls b = ks @ ms"
  have "base_wf (b\<lparr>b_mls := ms\<rparr>) = base_wf b" "used (b\<lparr>b_mls := ms\<rparr>) = used b"
    by (simp_all add: base_wf_def base_node_ok_def used_def)
  with b show ?thesis by (auto simp: base_inv_def intro: mls_fresh_suffix)
qed

lemma base_inv_new_io:
  assumes "base_inv b" "b_mls b = a # ms" "a \<noteq> 0"
  shows "base_inv (b\<lparr>b_mls := ms, io_at := (io_at b)(a \<mapsto> x)\<rparr>)"
    and "unowned a (b\<lparr>b_mls := ms, io_at := (io_at b)(a \<mapsto> x)\<rparr>)"
proof -
  let ?b = "b\<lparr>b_mls := ms, io_at := (io_at b)(a \<mapsto> x)\<rparr>"
  have wf: "base_wf b" "mls_fresh b" using assms(1) by (auto simp: base_inv_def)
  have fr: "a \<notin> used b" "a \<notin> set ms" using wf(2) assms(2,3) by (auto simp: mls_fresh_def split: if_splits)
  have "base_node_ok ?b na nd" if "base_node_ok b na nd" for na nd
    using that by (auto simp: base_node_ok_def)
  then have "base_wf ?b" using wf(1) by (simp add: base_wf_def nodes_of_def) meson
  moreover have "used ?b \<subseteq> insert a (used b)" by (auto simp: used_def nodes_of_def split: if_splits)
  then have "mls_fresh ?b"
    using wf(2) assms(2) fr by (auto simp: mls_fresh_def split: if_splits)
  ultimately show "base_inv ?b" by (simp add: base_inv_def)
  show "unowned a ?b"
    unfolding unowned_def
  proof
    fix na assume na: "na \<in> nodes_of ?b"
    then have na': "na \<in> nodes_of b" by (simp add: nodes_of_def)
    with wf(1) obtain nd where nd: "base_node_ok b na nd" by (auto simp: base_wf_def)
    have "a \<notin> set (node_ios nd)"
    proof
      assume "a \<in> set (node_ios nd)"
      with nd have "io_at b a \<noteq> None" by (auto simp: base_node_ok_def)
      with fr(1) show False by (simp add: used_def)
    qed
    then show "a \<notin> set (node_ios (the (node_at ?b na)))" using nd by (simp add: base_node_ok_def)
  qed
qed

lemma alloc_io_inv:
  assumes "base_inv b"
    and "bano_alloc_get_io junk k fn d b = (a, b') \<or> bano_alloc_set_io junk k v ack fn d b = (a, b')"
  shows "base_inv b'" "a \<noteq> 0 \<Longrightarrow> unowned a b' \<and> io_at b' a \<noteq> None" "nodes_of b' = nodes_of b"
    "hod_at b' = hod_at b" "node_at b' = node_at b"
proof -
  obtain x ms where m: "malloc (b_mls b) = (x, ms)" by fastforce
  obtain ks where ks: "b_mls b = ks @ ms" using malloc_suffix [OF m] by blast
  have "base_inv b' \<and> (a \<noteq> 0 \<longrightarrow> unowned a b' \<and> io_at b' a \<noteq> None) \<and> nodes_of b' = nodes_of b \<and> hod_at b' = hod_at b \<and> node_at b' = node_at b"
  proof (cases "x = 0")
    case True
    with assms(2) m have "b' = b\<lparr>b_mls := ms\<rparr> \<and> a = 0"
      by (auto simp: bano_alloc_get_io_def bano_alloc_set_io_def)
    with base_inv_mls [OF assms(1) ks]
    show ?thesis
      by simp
  next
    case False
    then have ms: "b_mls b = x # ms" using m by (cases "b_mls b") auto
    from assms(2) m False obtain io where "b' = b\<lparr>b_mls := ms, io_at := (io_at b)(x \<mapsto> io)\<rparr>" "a = x"
      by (auto simp: bano_alloc_get_io_def bano_alloc_set_io_def Let_def)
    with base_inv_new_io [OF assms(1) ms False]
    show ?thesis
      by (simp add: nodes_of_def)
  qed
  then show "base_inv b'" "a \<noteq> 0 \<Longrightarrow> unowned a b' \<and> io_at b' a \<noteq> None" "nodes_of b' = nodes_of b"
    "hod_at b' = hod_at b" "node_at b' = node_at b" by auto
qed

text \<open>Posting an operation that is in no list.\<close>

lemma bano_post_io_inv:
  assumes "base_inv b" "na \<in> nodes_of b" "unowned a b" "a \<noteq> 0" "bano_post_io na a b = Some (r, b')"
  shows "base_inv b'" "nodes_of b' = nodes_of b" "r = Err \<Longrightarrow> unowned a b'" "hod_at b' = hod_at b"
proof -
  from assms(5) obtain nd where nd: "node_at b na = Some nd"
    by (auto simp: bano_post_io_def split: bind_splits)
  have wf: "base_wf b" "mls_fresh b" using assms(1) by (auto simp: base_inv_def)
  have ok: "base_node_ok b na nd" by (rule base_wf_node [OF wf(1) assms(2) nd])
  obtain it ms where m: "malloc (b_mls b) = (it, ms)" by fastforce
  obtain ks where ks: "b_mls b = ks @ ms" using malloc_suffix [OF m] by blast
  have "base_inv b' \<and> nodes_of b' = nodes_of b \<and> (r = Err \<longrightarrow> unowned a b') \<and> hod_at b' = hod_at b"
  proof (cases "it = 0")
    case True
    with assms(5) m nd have "b' = b\<lparr>b_mls := ms\<rparr>"
      by (auto simp: bano_post_io_def seq_add_tail_def)
    with base_inv_mls [OF assms(1) ks] assms(3)
    show ?thesis
      by (simp add: unowned_def)
  next
    case False
    then have ms: "b_mls b = it # ms" using m by (cases "b_mls b") auto
    have fr: "it \<notin> used b" "it \<notin> set ms" using wf(2) ms False by (auto simp: mls_fresh_def split: if_splits)
    let ?nd = "nd\<lparr>posted_ios := posted_ios nd @ [(it, a)]\<rparr>"
    from assms(5) m nd False obtain io where io: "io_at b a = Some io" "r = Ok"
        "b' = set_io a (io\<lparr>io_node := na\<rparr>) (set_node na ?nd (b\<lparr>b_mls := ms\<rparr>))"
      by (auto simp: bano_post_io_def seq_add_tail_def split: bind_splits)
    let ?b = "set_node na ?nd (b\<lparr>b_mls := ms\<rparr>)"
    have a: "a \<notin> set (node_ios (the (node_at b ma)))" if "ma \<in> nodes_of b" for ma
      using assms(3) that by (simp add: unowned_def)
    have "it \<notin> node_items nd" using fr(1) assms(2) nd by (force simp: used_def)
    then have okn: "base_node_ok ?b na ?nd"
      using ok a [OF assms(2)] nd io(1) assms(4) False
      by (auto simp: base_node_ok_def node_wf_def node_ios_def node_items_def)
    have oko: "base_node_ok ?b ma x" if "base_node_ok b ma x" "ma \<noteq> na" for ma x
      using that by (simp add: base_node_ok_def)
    have nodes: "\<exists>x. base_node_ok ?b ma x" if "ma \<in> nodes_of b" for ma
      using okn oko wf(1) that unfolding base_wf_def by metis
    have disj: "set (node_ios (the (node_at ?b x))) \<inter> set (node_ios (the (node_at ?b y))) = {}"
      if "x \<in> nodes_of b" "y \<in> nodes_of b" "x \<noteq> y" for x y
    proof -
      have sub: "set (node_ios (the (node_at ?b z))) \<subseteq> set (node_ios (the (node_at b z))) \<union> (if z = na then {a} else {})" for z
        using nd by (auto simp: node_ios_def)
      have "set (node_ios (the (node_at b x))) \<inter> set (node_ios (the (node_at b y))) = {}"
        using wf(1) that by (auto simp: base_wf_def)
      with sub [of x] sub [of y] a that show ?thesis by (fastforce split: if_splits)
    qed
    have n: "nodes_of ?b = nodes_of b" by simp
    have "distinct (map fst (b_nodes ?b))" "distinct (map snd (b_nodes ?b))" "0 \<notin> fst ` set (b_nodes ?b)" "0 \<notin> nodes_of b"
      using wf(1) by (simp_all add: base_wf_def)
    then have "base_wf ?b"
      unfolding base_wf_def n using nodes disj by (intro conjI ballI impI)
    moreover have "mls_fresh ?b"
    proof -
      have items: "node_items ?nd = insert it (node_items nd)" by (auto simp: node_items_def)
      have "used ?b \<subseteq> insert it (used b)"
      proof
        fix x assume "x \<in> used ?b"
        then consider "x \<in> fst ` set (b_nodes b) \<union> nodes_of b \<union> {a. io_at b a \<noteq> None}"
          | y where "y \<in> nodes_of b" "x \<in> node_items (the (node_at ?b y))"
          unfolding used_def n by auto
        then show "x \<in> insert it (used b)"
        proof cases
          case 2
          then have "x = it \<or> x \<in> node_items (the (node_at b y))"
            using nd items by (cases "y = na") auto
          with 2(1) show ?thesis by (auto simp: used_def)
        qed (auto simp: used_def)
      qed
      with wf(2) ms fr(2) show ?thesis by (auto simp: mls_fresh_def split: if_splits)
    qed
    ultimately have "base_inv ?b" by (simp add: base_inv_def)
    then have "base_inv b'" unfolding io(3) by (rule base_inv_set_io) (simp add: io(1))
    then show ?thesis
      using io(2,3) by (simp add: set_io_def set_node_def)
  qed
  then show "base_inv b'" "nodes_of b' = nodes_of b" "r = Err \<Longrightarrow> unowned a b'" "hod_at b' = hod_at b" by auto
qed

lemma find_node_by_addr_mem:
  "find_node_by_addr nodes a xs = Some x \<Longrightarrow> x \<noteq> 0 \<Longrightarrow> x \<in> snd ` set xs"
  by (induction nodes a xs rule: find_node_by_addr.induct) (auto split: option.splits if_splits)

end
