(* ===== verification/Node_Runtime.thy ===== *)
theory Node_Runtime
  imports Bano_Base
begin

text \<open>
  The runtime of a node, \<open>src/node/bano_node.c\<close>, an AVR microcontroller with a radio: its
  cipher, the messages it sends, the handling of one event by \<open>bano_loop\<close>, the set up of the
  registers by \<open>bano_init\<close>, and the wait for events with its interrupts. The radio code
  \<open>nrf\<close> and the block ciphers of \<open>crypto-lib\<close> are not part of the repository: they are the
  records \<open>nrf_lib\<close> and \<open>crypto_lib\<close>. The static configuration (\<open>BANO_CONFIG_xxx\<close>,
  \<open>F_CPU\<close>) is a record too.
\<close>

section \<open>Configuration and libraries\<close>

record node_config =
  cfg_addr :: u32
  cfg_alg :: bano_cipher_alg
  cfg_key :: "u8 list"
  cfg_fcpu :: u32

record crypto_lib =
  av_xtea_enc :: "u8 list \<Rightarrow> u8 list \<Rightarrow> u8 list"
  av_xtea_dec :: "u8 list \<Rightarrow> u8 list \<Rightarrow> u8 list"
  aes128_dec :: "u8 list \<Rightarrow> u8 list \<Rightarrow> u8 list"

text \<open>What the code relies on: the library's XTEA is the one of the base, on a block and a key.\<close>

definition xtea_lib_ok :: "crypto_lib \<Rightarrow> bool" where
  "xtea_lib_ok cl \<longleftrightarrow> (\<forall>v k. length v = 8 \<longrightarrow> av_xtea_enc cl v k = xtea_enc v k \<and> av_xtea_dec cl v k = xtea_dec v k)"

section \<open>Cipher\<close>

text \<open>With AES both directions call the decryption of the library, on the first 16 bytes.\<close>

definition cipher_enc :: "crypto_lib \<Rightarrow> node_config \<Rightarrow> u8 list \<Rightarrow> u8 list" where
  "cipher_enc cl cfg d = (case cfg_alg cfg of
     BANO_CIPHER_ALG_XTEA \<Rightarrow> on_two_blocks (\<lambda>v. av_xtea_enc cl v (cfg_key cfg)) d
   | BANO_CIPHER_ALG_AES \<Rightarrow> aes128_dec cl (take 16 d) (cfg_key cfg) @ drop 16 d
   | BANO_CIPHER_ALG_NONE \<Rightarrow> d)"

definition cipher_dec :: "crypto_lib \<Rightarrow> node_config \<Rightarrow> u8 list \<Rightarrow> u8 list" where
  "cipher_dec cl cfg d = (case cfg_alg cfg of
     BANO_CIPHER_ALG_XTEA \<Rightarrow> on_two_blocks (\<lambda>v. av_xtea_dec cl v (cfg_key cfg)) d
   | BANO_CIPHER_ALG_AES \<Rightarrow> aes128_dec cl (take 16 d) (cfg_key cfg) @ drop 16 d
   | BANO_CIPHER_ALG_NONE \<Rightarrow> d)"

section \<open>Messages\<close>

text \<open>\<open>send_msg\<close> up to the call of the radio: the message as it is left in memory.\<close>

definition send_msg :: "crypto_lib \<Rightarrow> node_config \<Rightarrow> bano_msg \<Rightarrow> bano_msg" where
  "send_msg cl cfg m =
     (let m1 = m\<lparr>saddr := cfg_addr cfg\<rparr> in
      if cfg_alg cfg \<noteq> BANO_CIPHER_ALG_NONE then
        let m2 = on_enc_part (cipher_enc cl cfg) m1 in m2\<lparr>flags := flags m2 OR BANO_MSG_FLAG_ENC\<rparr>
      else m1)"

definition make_set_msg :: "u16 \<Rightarrow> u32 \<Rightarrow> bano_msg \<Rightarrow> bano_msg" where
  "make_set_msg k v m = put_val v (put_key k (m\<lparr>op := BANO_MSG_OP_SET, flags := 0\<rparr>))"

definition make_get_msg :: "u16 \<Rightarrow> bano_msg \<Rightarrow> bano_msg" where
  "make_get_msg k m = put_key k (m\<lparr>op := BANO_MSG_OP_GET, flags := 0\<rparr>)"

text \<open>The message \<open>junk\<close> is what the stack held.\<close>

definition bano_send_set :: "crypto_lib \<Rightarrow> node_config \<Rightarrow> bano_msg \<Rightarrow> u16 \<Rightarrow> u32 \<Rightarrow> u8 list" where
  "bano_send_set cl cfg junk k v = msg_bytes (send_msg cl cfg (make_set_msg k v junk))"

text \<open>What \<open>bano_wait_event\<close> makes of a payload: it decrypts whatever the flags say.\<close>

definition receive_msg :: "crypto_lib \<Rightarrow> node_config \<Rightarrow> u8 list \<Rightarrow> bano_msg" where
  "receive_msg cl cfg bs = on_enc_part (cipher_dec cl cfg) (bytes_msg bs)"

section \<open>Events\<close>

definition BANO_EV_ERROR :: u8 where "BANO_EV_ERROR = 1"
definition BANO_EV_TIMER :: u8 where "BANO_EV_TIMER = 2"
definition BANO_EV_MSG :: u8 where "BANO_EV_MSG = 4"
definition BANO_EV_PCINT :: u8 where "BANO_EV_PCINT = 8"

text \<open>
  The handlers of the application, on its own state. Those of the timer and of the pins may send
  messages of their own: they return their payloads.
\<close>

record 'u handlers =
  bano_set_handler :: "u16 \<Rightarrow> u32 \<Rightarrow> 'u \<Rightarrow> u8 \<times> 'u"
  bano_get_handler :: "u16 \<Rightarrow> 'u \<Rightarrow> u8 \<times> u32 \<times> 'u"
  bano_timer_handler :: "'u \<Rightarrow> 'u \<times> u8 list list"
  bano_pcint_handler :: "'u \<Rightarrow> 'u \<times> u8 list list"

text \<open>
  The handling of a message: the application's state, the message left in the buffer and what
  was sent. A flag byte is cut to the 6 bits of the field.
\<close>

definition handle_event_msg ::
  "crypto_lib \<Rightarrow> node_config \<Rightarrow> 'u handlers \<Rightarrow> bano_msg \<Rightarrow> 'u \<Rightarrow> 'u \<times> bano_msg \<times> u8 list list" where
  "handle_event_msg cl cfg hs m u =
     (if op m = BANO_MSG_OP_SET then
        (case bano_set_handler hs (set_key m) (set_val m) u of (fl, u1) \<Rightarrow>
          if has_flag fl (ucast BANO_MSG_FLAG_REPLY) then
            let m1 = send_msg cl cfg (m\<lparr>flags := ucast fl\<rparr>) in (u1, m1, [msg_bytes m1])
          else (u1, m, []))
      else if op m = BANO_MSG_OP_GET then
        (case bano_get_handler hs (get_key m) u of (fl, v, u1) \<Rightarrow>
          let m1 = make_set_msg (get_key m) v m;
              m2 = send_msg cl cfg (m1\<lparr>flags := ucast (ucast BANO_MSG_FLAG_REPLY OR fl)\<rparr>)
          in (u1, m2, [msg_bytes m2]))
      else (u, m, []))"

definition node_turn ::
  "crypto_lib \<Rightarrow> node_config \<Rightarrow> 'u handlers \<Rightarrow> u8 \<Rightarrow> bano_msg \<Rightarrow> 'u \<Rightarrow> 'u \<times> bano_msg \<times> u8 list list" where
  "node_turn cl cfg hs ev m u =
     (let (u1, m1, sent) = (if has_flag ev BANO_EV_MSG then handle_event_msg cl cfg hs m u else (u, m, []));
          (u2, sent2) = (if has_flag ev BANO_EV_TIMER then bano_timer_handler hs u1 else (u1, []));
          (u3, sent3) = (if has_flag ev BANO_EV_PCINT then bano_pcint_handler hs u2 else (u2, []))
      in (u3, m1, sent @ sent2 @ sent3))"

section \<open>The node and the base\<close>

text \<open>The base's side of the wire: what \<open>post_io\<close> writes for a node.\<close>

definition posted_bytes :: "bano_cipher \<Rightarrow> node \<Rightarrow> bano_msg \<Rightarrow> u8 list" where
  "posted_bytes c nd m =
     msg_bytes (if has_flag (n_flags nd) BANO_NODE_FLAG_CIPHER then encrypt_msg c m else m)"

text \<open>A node and the base agree on the cipher and on the key.\<close>

definition same_cipher :: "node_config \<Rightarrow> bano_cipher \<Rightarrow> node \<Rightarrow> bool" where
  "same_cipher cfg c nd \<longleftrightarrow> cfg_alg cfg \<noteq> BANO_CIPHER_ALG_AES \<and> n_addr nd = cfg_addr cfg
     \<and> (if cfg_alg cfg = BANO_CIPHER_ALG_XTEA
        then has_flag (n_flags nd) BANO_NODE_FLAG_CIPHER \<and> alg c = BANO_CIPHER_ALG_XTEA \<and> key c = cfg_key cfg
        else \<not> has_flag (n_flags nd) BANO_NODE_FLAG_CIPHER)"

lemma on_two_blocks_cong:
  assumes "\<And>v. length v = 8 \<Longrightarrow> f v = g v" "16 \<le> length d"
  shows "on_two_blocks f d = on_two_blocks g d"
  using assms by (simp add: on_two_blocks_def)

lemma on_enc_part_cong:
  assumes "\<And>d. length d = 16 \<Longrightarrow> f d = g d" "msg_wf m"
  shows "on_enc_part f m = on_enc_part g m"
  using assms by (simp add: on_enc_part_def BANO_MSG_ENC_OFF_def)

lemma node_cipher_base:
  assumes "xtea_lib_ok cl" "cfg_alg cfg = BANO_CIPHER_ALG_XTEA" "alg c = BANO_CIPHER_ALG_XTEA"
    and "key c = cfg_key cfg" "length d = 16"
  shows "cipher_enc cl cfg d = snd (bano_cipher_enc c d)" "cipher_dec cl cfg d = snd (bano_cipher_dec c d)"
  using assms by (auto simp: cipher_enc_def cipher_dec_def bano_cipher_enc_def bano_cipher_dec_def xtea_lib_ok_def
      intro!: on_two_blocks_cong)

text \<open>The message the base posts is the message the node receives, but for the encryption flag.\<close>

lemma node_receives_posted:
  assumes "xtea_lib_ok cl" "same_cipher cfg c nd" "msg_wf m"
  shows "\<exists>f. receive_msg cl cfg (posted_bytes c nd m) = m\<lparr>flags := f\<rparr>"
proof (cases "cfg_alg cfg = BANO_CIPHER_ALG_XTEA")
  case True
  with assms(2) have c: "has_flag (n_flags nd) BANO_NODE_FLAG_CIPHER" "alg c = BANO_CIPHER_ALG_XTEA" "key c = cfg_key cfg"
    by (auto simp: same_cipher_def)
  have wf: "msg_wf (on_enc_part (\<lambda>d. snd (bano_cipher_enc c d)) m)"
    using assms(3) base_cipher.enc_length [of _ c] by (intro on_enc_part_wf) auto
  have inv: "on_enc_part (\<lambda>d. snd (bano_cipher_dec c d)) (on_enc_part (\<lambda>d. snd (bano_cipher_enc c d)) m) = m"
    using assms(3) base_cipher.enc_length [of _ c] base_cipher.dec_enc [of _ c]
    by (intro on_enc_part_inverse) auto
  have "on_enc_part (cipher_dec cl cfg) (encrypt_msg c m) = on_enc_part (\<lambda>d. snd (bano_cipher_dec c d)) (encrypt_msg c m)"
    using wf node_cipher_base(2) [OF assms(1) True c(2,3)]
    by (intro on_enc_part_cong) (auto simp: encrypt_msg_def Let_def)
  with inv c show ?thesis
    by (auto simp: receive_msg_def posted_bytes_def encrypt_msg_def Let_def on_enc_part_flags)
next
  case False
  with assms(2) have "cfg_alg cfg = BANO_CIPHER_ALG_NONE" "\<not> has_flag (n_flags nd) BANO_NODE_FLAG_CIPHER"
    by (cases "cfg_alg cfg"; simp add: same_cipher_def)+
  moreover from this have "cipher_dec cl cfg = (\<lambda>d. d)" by (simp add: cipher_dec_def fun_eq_iff)
  ultimately show ?thesis
    by (intro exI [of _ "flags m"]) (simp add: receive_msg_def posted_bytes_def)
qed

text \<open>What the node sends is what the base decrypts, with the node's address.\<close>

lemma base_decrypts_sent:
  assumes "xtea_lib_ok cl" "same_cipher cfg c nd" "msg_wf m"
    and "cfg_alg cfg = BANO_CIPHER_ALG_NONE \<Longrightarrow> \<not> has_flag (flags m) BANO_MSG_FLAG_ENC"
  shows "\<exists>f. decrypt_msg c (bytes_msg (msg_bytes (send_msg cl cfg m))) = m\<lparr>saddr := cfg_addr cfg, flags := f\<rparr>
    \<and> (\<forall>g. BANO_MSG_FLAG_ENC AND g = 0 \<longrightarrow> has_flag f g = has_flag (flags m) g)"
proof (cases "cfg_alg cfg = BANO_CIPHER_ALG_XTEA")
  case True
  with assms(2) have c: "alg c = BANO_CIPHER_ALG_XTEA" "key c = cfg_key cfg"
    by (auto simp: same_cipher_def)
  let ?m = "m\<lparr>saddr := cfg_addr cfg\<rparr>"
  have "on_enc_part (cipher_enc cl cfg) ?m = on_enc_part (\<lambda>d. snd (bano_cipher_enc c d)) ?m"
    using assms(3) node_cipher_base(1) [OF assms(1) True c] by (intro on_enc_part_cong) auto
  then have "send_msg cl cfg m = encrypt_msg c ?m"
    using True by (simp add: send_msg_def encrypt_msg_def Let_def)
  moreover have "decrypt_msg c (encrypt_msg c ?m) = ?m\<lparr>flags := flags ?m OR BANO_MSG_FLAG_ENC\<rparr>"
    by (rule decrypt_encrypt_msg) (simp add: assms(3))
  ultimately show ?thesis by (intro exI [of _ "flags m OR BANO_MSG_FLAG_ENC"]) simp
next
  case False
  with assms(2) have a: "cfg_alg cfg = BANO_CIPHER_ALG_NONE"
    by (cases "cfg_alg cfg") (simp_all add: same_cipher_def)
  with assms(4) have "\<not> has_flag (flags (m\<lparr>saddr := cfg_addr cfg\<rparr>)) BANO_MSG_FLAG_ENC" by simp
  with a show ?thesis
    by (intro exI [of _ "flags m"]) (simp add: send_msg_def decrypt_msg_def)
qed

lemma has_flag_bits: "has_flag x y \<longleftrightarrow> (\<exists>n. bit x n \<and> bit y n)"
  by (auto simp: has_flag_def bit_eq_iff bit_and_iff) (meson bit_imp_le_length)

lemma has_flag_ucast: "has_flag (ucast (x :: u8) :: 6 word) y \<longleftrightarrow> has_flag x (ucast y)"
  by (auto simp: has_flag_bits bit_simps) (meson not_bit_6 linorder_not_less)

lemma has_flag_or_left: "has_flag (x OR y) z \<longleftrightarrow> has_flag x z \<or> has_flag y z"
  by (auto simp: has_flag_bits bit_simps)

lemma reply_enc_disjoint: "BANO_MSG_FLAG_ENC AND BANO_MSG_FLAG_REPLY = 0" "BANO_MSG_FLAG_ENC AND BANO_MSG_FLAG_ERR = 0"
  by (simp_all add: BANO_MSG_FLAG_ENC_def BANO_MSG_FLAG_REPLY_def BANO_MSG_FLAG_ERR_def)

lemma flags_of_reply:
  "has_flag (ucast (ucast BANO_MSG_FLAG_REPLY OR fl :: u8) :: 6 word) BANO_MSG_FLAG_REPLY"
  "has_flag (ucast (ucast BANO_MSG_FLAG_REPLY OR fl :: u8) :: 6 word) BANO_MSG_FLAG_ENC = has_flag fl (ucast BANO_MSG_FLAG_ENC)"
  "has_flag (ucast (ucast BANO_MSG_FLAG_REPLY OR fl :: u8) :: 6 word) BANO_MSG_FLAG_ERR = has_flag fl (ucast BANO_MSG_FLAG_ERR)"
  unfolding has_flag_ucast has_flag_or_left
  by (simp_all add: has_flag_def BANO_MSG_FLAG_ENC_def BANO_MSG_FLAG_REPLY_def BANO_MSG_FLAG_ERR_def)

text \<open>
  A request of the base, its way to the node, the node's answer and its way back: the answer
  matches the pending operation, carries the reply flag and, for a get, the node's value. The
  flags the application's handler returns must ask for a reply to a set, and must not claim
  encryption on a node without a cipher.
\<close>

definition handler_flags :: "'u handlers \<Rightarrow> bano_msg \<Rightarrow> 'u \<Rightarrow> u8" where
  "handler_flags hs m u =
     (if op m = BANO_MSG_OP_SET then fst (bano_set_handler hs (set_key m) (set_val m) u)
      else fst (bano_get_handler hs (get_key m) u))"

lemma node_answers_request:
  assumes "xtea_lib_ok cl" "same_cipher cfg c nd" "msg_wf (io_msg io)"
    and "op (io_msg io) = BANO_MSG_OP_SET \<or> op (io_msg io) = BANO_MSG_OP_GET"
    and "op (io_msg io) = BANO_MSG_OP_SET \<Longrightarrow> has_flag (handler_flags hs (io_msg io) u) (ucast BANO_MSG_FLAG_REPLY)"
    and "cfg_alg cfg = BANO_CIPHER_ALG_NONE \<Longrightarrow> \<not> has_flag (handler_flags hs (io_msg io) u) (ucast BANO_MSG_FLAG_ENC)"
  shows "\<exists>u' m' bs ans. handle_event_msg cl cfg hs (receive_msg cl cfg (posted_bytes c nd (io_msg io))) u = (u', m', [bs])
    \<and> ans = decrypt_msg c (bytes_msg bs) \<and> cmp_pending_io ans nd io \<and> op ans = BANO_MSG_OP_SET
    \<and> has_flag (flags ans) BANO_MSG_FLAG_REPLY
    \<and> has_flag (flags ans) BANO_MSG_FLAG_ERR = has_flag (handler_flags hs (io_msg io) u) (ucast BANO_MSG_FLAG_ERR)
    \<and> set_val ans = (if op (io_msg io) = BANO_MSG_OP_SET then set_val (io_msg io)
        else fst (snd (bano_get_handler hs (get_key (io_msg io)) u)))"
proof -
  let ?m = "io_msg io"
  obtain f where r: "receive_msg cl cfg (posted_bytes c nd ?m) = ?m\<lparr>flags := f\<rparr>"
    using node_receives_posted [OF assms(1-3)] by blast
  have ad: "n_addr nd = cfg_addr cfg" using assms(2) by (simp add: same_cipher_def)
  have sg: "BANO_MSG_OP_GET \<noteq> BANO_MSG_OP_SET" by (simp add: BANO_MSG_OP_SET_def BANO_MSG_OP_GET_def)
  show ?thesis
  proof (cases "op ?m = BANO_MSG_OP_SET")
    case True
    obtain fl u1 where h: "bano_set_handler hs (set_key ?m) (set_val ?m) u = (fl, u1)" by fastforce
    have fl: "handler_flags hs ?m u = fl" using h True by (simp add: handler_flags_def)
    let ?s = "?m\<lparr>flags := ucast fl\<rparr>"
    have "has_flag fl (ucast BANO_MSG_FLAG_REPLY)" using assms(5) [OF True] fl by simp
    with r h True have e: "handle_event_msg cl cfg hs (receive_msg cl cfg (posted_bytes c nd ?m)) u =
        (u1, send_msg cl cfg ?s, [msg_bytes (send_msg cl cfg ?s)])"
      by (simp add: handle_event_msg_def Let_def)
    have wf: "msg_wf ?s" using assms(3) by simp
    have ne: "cfg_alg cfg = BANO_CIPHER_ALG_NONE \<Longrightarrow> \<not> has_flag (flags ?s) BANO_MSG_FLAG_ENC"
      using assms(6) fl by (simp add: has_flag_ucast)
    from base_decrypts_sent [OF assms(1,2) wf ne] obtain f' where d:
        "decrypt_msg c (bytes_msg (msg_bytes (send_msg cl cfg ?s))) = ?s\<lparr>saddr := cfg_addr cfg, flags := f'\<rparr>"
        "\<And>g. BANO_MSG_FLAG_ENC AND g = 0 \<Longrightarrow> has_flag f' g = has_flag (flags ?s) g" by blast
    have "has_flag f' BANO_MSG_FLAG_REPLY" "has_flag f' BANO_MSG_FLAG_ERR = has_flag fl (ucast BANO_MSG_FLAG_ERR)"
      using d(2) [OF reply_enc_disjoint(1)] d(2) [OF reply_enc_disjoint(2)] assms(5) [OF True] fl
      by (simp_all add: has_flag_ucast)
    with e d(1) True ad fl show ?thesis by (simp add: cmp_pending_io_def)
  next
    case False
    with assms(4) have g: "op ?m = BANO_MSG_OP_GET" by simp
    obtain fl v u1 where h: "bano_get_handler hs (get_key ?m) u = (fl, v, u1)"
      by (cases "bano_get_handler hs (get_key ?m) u") auto
    have fl: "handler_flags hs ?m u = fl" using h False by (simp add: handler_flags_def)
    let ?s = "make_set_msg (get_key ?m) v (?m\<lparr>flags := f\<rparr>)\<lparr>flags := ucast (ucast BANO_MSG_FLAG_REPLY OR fl)\<rparr>"
    from r h g sg have e: "handle_event_msg cl cfg hs (receive_msg cl cfg (posted_bytes c nd ?m)) u =
        (u1, send_msg cl cfg ?s, [msg_bytes (send_msg cl cfg ?s)])"
      by (simp add: handle_event_msg_def Let_def)
    have wf: "msg_wf ?s" using assms(3) by (simp add: make_set_msg_def)
    have ne: "cfg_alg cfg = BANO_CIPHER_ALG_NONE \<Longrightarrow> \<not> has_flag (flags ?s) BANO_MSG_FLAG_ENC"
      using assms(6) fl by (simp add: flags_of_reply)
    from base_decrypts_sent [OF assms(1,2) wf ne] obtain f' where d:
        "decrypt_msg c (bytes_msg (msg_bytes (send_msg cl cfg ?s))) = ?s\<lparr>saddr := cfg_addr cfg, flags := f'\<rparr>"
        "\<And>g. BANO_MSG_FLAG_ENC AND g = 0 \<Longrightarrow> has_flag f' g = has_flag (flags ?s) g" by blast
    have "has_flag f' BANO_MSG_FLAG_REPLY" "has_flag f' BANO_MSG_FLAG_ERR = has_flag fl (ucast BANO_MSG_FLAG_ERR)"
      using d(2) [OF reply_enc_disjoint(1)] d(2) [OF reply_enc_disjoint(2)]
      by (simp_all add: flags_of_reply)
    moreover have "get_key ?s = get_key ?m" "set_val ?s = v" "op ?s = BANO_MSG_OP_SET"
      using assms(3) by (simp_all add: make_set_msg_def)
    ultimately show ?thesis using e d(1) False ad fl h by (simp add: cmp_pending_io_def)
  qed
qed

end
