(* ===== verification/Node_Wait.thy ===== *)
theory Node_Wait
  imports Node_Runtime
begin

text \<open>
  The hardware side of the node: the registers as \<open>bano_init\<close> leaves them, the computation of
  the timer counter in 32 bits, and \<open>bano_wait_event\<close> as a machine whose steps interleave with
  the interrupts. The radio is the parameter \<open>nrf_lib\<close> on a state \<open>'r\<close>.
\<close>

section \<open>Registers\<close>

text \<open>The registers of the ATmega328P the code writes, and its own variables.\<close>

datatype sleep_mode = SLEEP_MODE_DEFAULT | SLEEP_MODE_IDLE

record avr =
  TCCR1A :: u8
  TCCR1B :: u8
  TCCR1C :: u8
  OCR1A :: u16
  TCNT1 :: u16
  TIMSK1 :: u8
  PORTB :: u8
  PORTC :: u8
  PORTD :: u8
  DDRB :: u8
  DDRC :: u8
  DDRD :: u8
  PCICR :: u8
  PCMSK0 :: u8
  PCMSK1 :: u8
  PCMSK2 :: u8
  UCSR0B :: u8
  PRR :: u8
  MCUSR :: u8
  WDTCSR :: u8
  ACSR :: u8
  ADMUX :: u8
  ADCSRA :: u8
  ADCSRB :: u8
  DIDR0 :: u8
  CLKPR :: u8
  sleep_mode :: sleep_mode
  timer_irq :: bool
  pcint_irq :: bool
  bano_wake_mask :: u8
  bano_timer_counter :: u16
  bano_timer_500ms :: u16

record 'r nrf_lib =
  nrf_setup :: "'r \<Rightarrow> 'r"
  nrf_set_payload_width :: "nat \<Rightarrow> 'r \<Rightarrow> 'r"
  nrf_set_addr_width :: "nat \<Rightarrow> 'r \<Rightarrow> 'r"
  nrf_set_tx_addr :: "u8 list \<Rightarrow> 'r \<Rightarrow> 'r"
  nrf_set_rx_addr :: "u8 list \<Rightarrow> 'r \<Rightarrow> 'r"
  nrf_set_powerdown_mode :: "'r \<Rightarrow> 'r"
  nrf_set_rx_mode :: "'r \<Rightarrow> 'r"
  nrf_setup_rx_irq :: "'r \<Rightarrow> 'r"
  nrf_disable_rx_irq :: "'r \<Rightarrow> 'r"
  nrf_enable_rx_irq :: "'r \<Rightarrow> 'r"
  nrf_get_rx_irq :: "'r \<Rightarrow> bool \<times> 'r"
  nrf_peek_rx_irq :: "'r \<Rightarrow> bool \<times> 'r"
  nrf_send_payload_zero :: "u8 list \<Rightarrow> 'r \<Rightarrow> 'r"
  nrf_read_payload_zero :: "'r \<Rightarrow> u8 list \<times> 'r"

definition uint32_to_le_buf :: "u32 \<Rightarrow> u8 list" where
  "uint32_to_le_buf x = u32_bytes x"

definition clk_set_prescal :: "u8 \<Rightarrow> avr \<Rightarrow> avr" where
  "clk_set_prescal x h = (h\<lparr>CLKPR := push_bit 7 1\<rparr>)\<lparr>CLKPR := x\<rparr>"

definition clk_set_prescal_max :: "avr \<Rightarrow> avr" where
  "clk_set_prescal_max h = clk_set_prescal 8 h"

text \<open>The timer: its interrupt stops it, its set up restarts it in compare mode.\<close>

definition TIMER1_COMPA_vect :: "avr \<Rightarrow> avr" where
  "TIMER1_COMPA_vect h = h\<lparr>TCCR1B := TCCR1B h AND NOT 7, timer_irq := True\<rparr>"

definition timer_setup :: "u16 \<Rightarrow> avr \<Rightarrow> avr" where
  "timer_setup n h = h\<lparr>TCCR1A := 0, OCR1A := n, TCNT1 := 0, TCCR1C := 0, TIMSK1 := 2,
     timer_irq := False, TCCR1B := 8 OR 5\<rparr>"

text \<open>The three vectors of the pin change interrupts do the same.\<close>

definition PCINT_vect :: "avr \<Rightarrow> avr" where
  "PCINT_vect h = h\<lparr>pcint_irq := True\<rparr>"

definition pcint_setup :: "u8 \<Rightarrow> u8 \<Rightarrow> u8 \<Rightarrow> avr \<Rightarrow> avr" where
  "pcint_setup m0 m1 m2 h =
     (let h = h\<lparr>pcint_irq := False\<rparr>;
          h = (if m0 \<noteq> 0 then h\<lparr>PORTB := PORTB h AND NOT m0, DDRB := DDRB h AND NOT m0,
                 PCICR := PCICR h OR 1, PCMSK0 := PCMSK0 h OR m0\<rparr> else h);
          h = (if m1 \<noteq> 0 then h\<lparr>PORTC := PORTC h AND NOT m1, DDRC := DDRC h AND NOT m1,
                 PCICR := PCICR h OR 2, PCMSK1 := PCMSK1 h OR m1\<rparr> else h)
      in if m2 \<noteq> 0 then h\<lparr>PORTD := PORTD h AND NOT m2, DDRD := DDRD h AND NOT m2,
           PCICR := PCICR h OR 4, PCMSK2 := PCMSK2 h OR m2\<rparr> else h)"

section \<open>Initialisation\<close>

definition BANO_WAKE_TIMER :: u8 where "BANO_WAKE_TIMER = 1"
definition BANO_WAKE_MSG :: u8 where "BANO_WAKE_MSG = 2"
definition BANO_WAKE_POLL :: u8 where "BANO_WAKE_POLL = 4"
definition BANO_WAKE_PCINT :: u8 where "BANO_WAKE_PCINT = 8"
definition BANO_DISABLE_ADC :: u8 where "BANO_DISABLE_ADC = 1"
definition BANO_DISABLE_WDT :: u8 where "BANO_DISABLE_WDT = 2"
definition BANO_DISABLE_CMP :: u8 where "BANO_DISABLE_CMP = 4"
definition BANO_DISABLE_USART :: u8 where "BANO_DISABLE_USART = 8"

lemmas wake_defs = BANO_WAKE_TIMER_def BANO_WAKE_MSG_def BANO_WAKE_POLL_def BANO_WAKE_PCINT_def

record bano_info =
  timer_100ms :: u16
  wake_mask :: u8
  disable_mask :: u8
  pcint_mask :: u32

definition bano_info_default :: bano_info where
  "bano_info_default = \<lparr>timer_100ms = 0, wake_mask = 0, disable_mask = 0, pcint_mask = 0\<rparr>"

definition TIMER_PRESCAL :: u32 where "TIMER_PRESCAL = 1024"
definition CLK_PRESCAL :: u32 where "CLK_PRESCAL = 256"

text \<open>The product and the quotient are 32 bits wide, the counter 16.\<close>

definition timer_count :: "u32 \<Rightarrow> u16 \<Rightarrow> u16" where
  "timer_count fcpu t =
     (let p = TIMER_PRESCAL * CLK_PRESCAL in ucast ((fcpu * ucast t) div (p * 10)))"

definition init_radio :: "'r nrf_lib \<Rightarrow> node_config \<Rightarrow> bano_info \<Rightarrow> 'r \<Rightarrow> 'r" where
  "init_radio nrf cfg info r =
     (let r = nrf_setup nrf r;
          r = nrf_set_payload_width nrf BANO_MSG_SIZE r;
          r = nrf_set_addr_width nrf 4 r;
          r = nrf_set_tx_addr nrf (uint32_to_le_buf BANO_DEFAULT_BASE_ADDR) r;
          r = nrf_set_rx_addr nrf (uint32_to_le_buf (cfg_addr cfg)) r;
          r = nrf_set_powerdown_mode nrf r
      in if has_flag (wake_mask info) BANO_WAKE_MSG then nrf_setup_rx_irq nrf r else r)"

definition init_wake :: "node_config \<Rightarrow> bano_info \<Rightarrow> avr \<Rightarrow> avr" where
  "init_wake cfg info h =
     (let h = h\<lparr>bano_wake_mask := wake_mask info\<rparr>;
          timed = has_flag (wake_mask info) (BANO_WAKE_TIMER OR BANO_WAKE_POLL);
          h = (if timed
               then h\<lparr>bano_timer_counter := timer_count (cfg_fcpu cfg) (timer_100ms info),
                      bano_timer_500ms := timer_count (cfg_fcpu cfg) 5\<rparr> else h);
          h = (if has_flag (wake_mask info) BANO_WAKE_PCINT
               then pcint_setup (ucast (pcint_mask info)) (ucast (drop_bit 8 (pcint_mask info)))
                      (ucast (drop_bit 16 (pcint_mask info))) h else h)
      in if timed then h\<lparr>sleep_mode := SLEEP_MODE_IDLE\<rparr>
         else if has_flag (wake_mask info) BANO_WAKE_MSG then h\<lparr>sleep_mode := SLEEP_MODE_IDLE\<rparr>
         else h)"

text \<open>Modules are switched off one by one; \<open>wdt_reset\<close> only restarts the watchdog's count.\<close>

definition disable_modules :: "bano_info \<Rightarrow> avr \<Rightarrow> avr" where
  "disable_modules info h =
     (let h = (if has_flag (disable_mask info) BANO_DISABLE_USART
               then h\<lparr>UCSR0B := 0, PRR := PRR h OR push_bit 1 1\<rparr> else h);
          h = (if has_flag (disable_mask info) BANO_DISABLE_WDT
               then h\<lparr>MCUSR := MCUSR h AND NOT 8, WDTCSR := 0\<rparr> else h);
          h = (if has_flag (disable_mask info) BANO_DISABLE_CMP then h\<lparr>ACSR := push_bit 7 1\<rparr> else h)
      in if has_flag (disable_mask info) BANO_DISABLE_ADC
         then h\<lparr>ADMUX := 0, ADCSRA := 0, PRR := PRR h OR 1\<rparr> else h)"

definition node_init :: "'r nrf_lib \<Rightarrow> node_config \<Rightarrow> bano_info \<Rightarrow> 'r \<times> avr \<Rightarrow> 'r \<times> avr" where
  "node_init nrf cfg info s =
     (init_radio nrf cfg info (fst s),
      disable_modules info (clk_set_prescal_max (init_wake cfg info (snd s))))"

text \<open>
  The counter is the number of ticks of the prescaled clock in the asked time as long as the
  product fits 32 bits; beyond, it is the number of ticks of what is left of the product.
\<close>

lemma timer_count_value:
  "unat (timer_count fcpu t) = (unat fcpu * unat t mod 2 ^ 32) div 2621440"
proof -
  have p: "TIMER_PRESCAL * CLK_PRESCAL * 10 = (2621440 :: u32)"
    by (simp add: TIMER_PRESCAL_def CLK_PRESCAL_def)
  have e: "timer_count fcpu t = ucast ((fcpu * ucast t) div 2621440)"
    by (simp add: timer_count_def Let_def p)
  have t: "take_bit 32 (unat t) = unat t"
    by (rule take_bit_nat_eq_self, rule order_less_trans [OF unat_u16_less]) simp
  have u: "unat (fcpu * ucast t :: u32) = unat fcpu * unat t mod 2 ^ 32"
    by (simp add: unat_word_ariths unsigned_ucast_eq t)
  have d: "unat ((fcpu * ucast t :: u32) div 2621440) = (unat fcpu * unat t mod 2 ^ 32) div 2621440"
    by (simp only: unat_div u) simp
  have b: "(unat fcpu * unat t mod 2 ^ 32) div 2621440 < 2 ^ 16"
    by (rule order_le_less_trans [of _ "(2 ^ 32 - 1) div 2621440"], rule div_le_mono) simp_all
  have "unat (ucast (x :: u32) :: u16) = unat x" if "unat x < 2 ^ 16" for x
    using that by (simp add: unsigned_ucast_eq take_bit_nat_eq_self)
  with d b e show ?thesis by simp
qed

lemma timer_count_exact:
  "unat fcpu * unat t < 2 ^ 32 \<Longrightarrow> unat (timer_count fcpu t) = unat fcpu * unat t div 2621440"
  by (simp add: timer_count_value)

section \<open>Waiting for an event\<close>

text \<open>
  \<open>bano_wait_event\<close> in steps, between any two of which an interrupt may run: the set up, the
  three tests of an awake turn, the three tests with interrupts disabled, and \<open>sei; sleep\<close>, which
  the hardware executes as one. \<open>On_Event\<close> is the label \<open>on_event\<close>, \<open>Returned\<close> the return to
  \<open>bano_loop\<close>.
\<close>

datatype wait_pc = Wait_Start | Top_Timer | Top_Msg | Top_Pcint | Before_Cli
  | Guard_Timer | Guard_Msg | Guard_Pcint | Sei_Sleep | Sleeping | On_Event u8 | Returned u8

text \<open>
  The state: the place in the code, the interrupt enable flag, the interrupts the hardware has
  latched, registers, radio, the message buffer, the application.
\<close>

record ('r, 'u) wait =
  w_pc :: wait_pc
  w_ien :: bool
  t_latch :: bool
  p_latch :: bool
  w_hw :: avr
  w_radio :: 'r
  w_msg :: bano_msg
  w_user :: 'u

definition wakes :: "u8 \<Rightarrow> ('r, 'u) wait \<Rightarrow> bool" where
  "wakes m s \<longleftrightarrow> has_flag (bano_wake_mask (w_hw s)) m"

definition wait_msg_or_timer :: u8 where
  "wait_msg_or_timer = - 1"

definition on_event :: "crypto_lib \<Rightarrow> node_config \<Rightarrow> 'r nrf_lib \<Rightarrow> u8 \<Rightarrow> ('r, 'u) wait \<Rightarrow> ('r, 'u) wait" where
  "on_event cl cfg nrf ev s =
     (let s = (if wakes BANO_WAKE_MSG s then s\<lparr>w_radio := nrf_set_powerdown_mode nrf (w_radio s)\<rparr> else s) in
      if wakes BANO_WAKE_POLL s \<and> has_flag ev BANO_EV_TIMER then
        let m = send_msg cl cfg (make_get_msg BANO_KEY_NEXT_MSG (w_msg s));
            s = s\<lparr>w_msg := m, w_radio := nrf_send_payload_zero nrf (msg_bytes m) (w_radio s),
                  w_hw := timer_setup (bano_timer_500ms (w_hw s)) (w_hw s)\<rparr>
        in if wait_msg_or_timer = - 1 then
             (if \<not> wakes BANO_WAKE_TIMER s then s\<lparr>w_pc := Wait_Start\<rparr> else s\<lparr>w_pc := Returned ev\<rparr>)
           else s\<lparr>w_pc := Returned (ev OR BANO_EV_MSG)\<rparr>
      else s\<lparr>w_pc := Returned ev\<rparr>)"

text \<open>The capture of a message, with the interrupt of the radio disabled around it.\<close>

definition read_radio :: "crypto_lib \<Rightarrow> node_config \<Rightarrow> 'r nrf_lib \<Rightarrow> 'r \<Rightarrow> bano_msg \<times> 'r" where
  "read_radio cl cfg nrf r =
     (case nrf_read_payload_zero nrf (nrf_disable_rx_irq nrf r) of
        (bs, r') \<Rightarrow> (receive_msg cl cfg bs, nrf_enable_rx_irq nrf r'))"

definition main_step :: "crypto_lib \<Rightarrow> node_config \<Rightarrow> 'r nrf_lib \<Rightarrow> ('r, 'u) wait \<Rightarrow> ('r, 'u) wait option" where
  "main_step cl cfg nrf s =
     (let timed = wakes (BANO_WAKE_TIMER OR BANO_WAKE_POLL) s in
      case w_pc s of
        Wait_Start \<Rightarrow> Some (s\<lparr>w_pc := Top_Timer, w_ien := True,
          w_hw := (if timed then timer_setup (bano_timer_counter (w_hw s)) (w_hw s) else w_hw s),
          w_radio := (if wakes BANO_WAKE_MSG s then nrf_set_rx_mode nrf (w_radio s) else w_radio s)\<rparr>)
      | Top_Timer \<Rightarrow>
          Some (if timed \<and> timer_irq (w_hw s)
                then s\<lparr>w_hw := (w_hw s)\<lparr>timer_irq := False\<rparr>, w_pc := On_Event BANO_EV_TIMER\<rparr>
                else s\<lparr>w_pc := Top_Msg\<rparr>)
      | Top_Msg \<Rightarrow>
          Some (if wakes BANO_WAKE_MSG s then
                  (case nrf_get_rx_irq nrf (w_radio s) of
                     (True, r) \<Rightarrow> (case read_radio cl cfg nrf r of
                       (m, r') \<Rightarrow> s\<lparr>w_radio := r', w_msg := m, w_pc := On_Event BANO_EV_MSG\<rparr>)
                   | (False, r) \<Rightarrow> s\<lparr>w_radio := r, w_pc := Top_Pcint\<rparr>)
                else s\<lparr>w_pc := Top_Pcint\<rparr>)
      | Top_Pcint \<Rightarrow>
          Some (if wakes BANO_WAKE_PCINT s \<and> pcint_irq (w_hw s)
                then s\<lparr>w_hw := (w_hw s)\<lparr>pcint_irq := False\<rparr>, w_pc := On_Event BANO_EV_PCINT\<rparr>
                else s\<lparr>w_pc := Before_Cli\<rparr>)
      | Before_Cli \<Rightarrow> Some (s\<lparr>w_ien := False, w_pc := Guard_Timer\<rparr>)
      | Guard_Timer \<Rightarrow>
          Some (if timed \<and> timer_irq (w_hw s) then s\<lparr>w_ien := True, w_pc := Top_Timer\<rparr>
                else s\<lparr>w_pc := Guard_Msg\<rparr>)
      | Guard_Msg \<Rightarrow>
          Some (if wakes BANO_WAKE_MSG s then
                  (case nrf_peek_rx_irq nrf (w_radio s) of
                     (True, r) \<Rightarrow> s\<lparr>w_radio := r, w_ien := True, w_pc := Top_Timer\<rparr>
                   | (False, r) \<Rightarrow> s\<lparr>w_radio := r, w_pc := Guard_Pcint\<rparr>)
                else s\<lparr>w_pc := Guard_Pcint\<rparr>)
      | Guard_Pcint \<Rightarrow>
          Some (if wakes BANO_WAKE_PCINT s \<and> pcint_irq (w_hw s) then s\<lparr>w_ien := True, w_pc := Top_Timer\<rparr>
                else s\<lparr>w_pc := Sei_Sleep\<rparr>)
      | Sei_Sleep \<Rightarrow> Some (s\<lparr>w_ien := True, w_pc := Sleeping\<rparr>)
      | On_Event ev \<Rightarrow> Some (on_event cl cfg nrf ev s)
      | Sleeping \<Rightarrow> None
      | Returned ev \<Rightarrow> None)"

section \<open>The node as a step relation\<close>

definition rx_pin :: "'r nrf_lib \<Rightarrow> 'r \<Rightarrow> bool" where
  "rx_pin nrf r = fst (nrf_peek_rx_irq nrf r)"

text \<open>An interrupt wakes the processor.\<close>

fun wake_pc :: "wait_pc \<Rightarrow> wait_pc" where
  "wake_pc Sleeping = Top_Timer"
| "wake_pc p = p"

text \<open>
  Program steps; the two interrupts, when they are enabled; the hardware: a running timer
  reaches its limit, a pin changes, the radio moves on by itself, and latches a pin change when
  it raises its receive pin; and a turn of \<open>bano_loop\<close>, whose messages go to the radio.
\<close>

inductive node_step ::
  "crypto_lib \<Rightarrow> node_config \<Rightarrow> 'r nrf_lib \<Rightarrow> 'u handlers \<Rightarrow> ('r, 'u) wait \<Rightarrow> ('r, 'u) wait \<Rightarrow> bool"
for cl cfg nrf hs where
  program: "main_step cl cfg nrf s = Some s' \<Longrightarrow> node_step cl cfg nrf hs s s'"
| isr_timer: "w_ien s \<Longrightarrow> t_latch s \<Longrightarrow>
    node_step cl cfg nrf hs s (s\<lparr>t_latch := False, w_hw := TIMER1_COMPA_vect (w_hw s), w_pc := wake_pc (w_pc s)\<rparr>)"
| isr_pcint: "w_ien s \<Longrightarrow> p_latch s \<Longrightarrow>
    node_step cl cfg nrf hs s (s\<lparr>p_latch := False, w_hw := PCINT_vect (w_hw s), w_pc := wake_pc (w_pc s)\<rparr>)"
| timer_match: "TCCR1B (w_hw s) AND 7 \<noteq> 0 \<Longrightarrow> node_step cl cfg nrf hs s (s\<lparr>t_latch := True\<rparr>)"
| pin_change: "node_step cl cfg nrf hs s (s\<lparr>p_latch := True\<rparr>)"
| radio_moves: "l = (p_latch s \<or> rx_pin nrf r \<and> \<not> rx_pin nrf (w_radio s)) \<Longrightarrow>
    node_step cl cfg nrf hs s (s\<lparr>w_radio := r, p_latch := l\<rparr>)"
| turn: "w_pc s = Returned ev \<Longrightarrow> node_turn cl cfg hs ev (w_msg s) (w_user s) = (u, m, sent) \<Longrightarrow>
    node_step cl cfg nrf hs s (s\<lparr>w_user := u, w_msg := m, w_radio := fold (nrf_send_payload_zero nrf) sent (w_radio s),
      w_pc := Wait_Start\<rparr>)"

inductive node_reach ::
  "crypto_lib \<Rightarrow> node_config \<Rightarrow> 'r nrf_lib \<Rightarrow> 'u handlers \<Rightarrow> ('r, 'u) wait \<Rightarrow> bool"
for cl cfg nrf hs where
  start: "w_pc s = Wait_Start \<Longrightarrow> node_reach cl cfg nrf hs s"
| step: "node_reach cl cfg nrf hs s \<Longrightarrow> node_step cl cfg nrf hs s s' \<Longrightarrow> node_reach cl cfg nrf hs s'"

inductive_cases node_stepE: "node_step cl cfg nrf hs s s'"

text \<open>What is relied on: looking at the receive pin does not move the radio.\<close>

definition peek_pure :: "'r nrf_lib \<Rightarrow> bool" where
  "peek_pure nrf \<longleftrightarrow> (\<forall>r. snd (nrf_peek_rx_irq nrf r) = r)"

text \<open>
  The invariant of the guarded section: interrupts are disabled in it, and past each of its
  tests the flag tested is clear. The receive pin may rise there, but then the pin change is
  latched.
\<close>

definition wait_inv :: "'r nrf_lib \<Rightarrow> ('r, 'u) wait \<Rightarrow> bool" where
  "wait_inv nrf s \<longleftrightarrow>
     (w_pc s \<in> {Guard_Timer, Guard_Msg, Guard_Pcint, Sei_Sleep} \<longrightarrow> \<not> w_ien s)
   \<and> (w_pc s = Sleeping \<longrightarrow> w_ien s)
   \<and> (w_pc s \<in> {Guard_Msg, Guard_Pcint, Sei_Sleep, Sleeping} \<and> wakes (BANO_WAKE_TIMER OR BANO_WAKE_POLL) s
        \<longrightarrow> \<not> timer_irq (w_hw s))
   \<and> (w_pc s \<in> {Guard_Pcint, Sei_Sleep, Sleeping} \<and> wakes BANO_WAKE_MSG s \<and> rx_pin nrf (w_radio s)
        \<longrightarrow> p_latch s)
   \<and> (w_pc s \<in> {Sei_Sleep, Sleeping} \<and> wakes BANO_WAKE_PCINT s \<longrightarrow> \<not> pcint_irq (w_hw s))"

lemma on_event_pc: "w_pc (on_event cl cfg nrf ev s) \<in> {Wait_Start} \<union> range Returned"
  by (simp add: on_event_def Let_def)

lemma main_step_inv:
  assumes "peek_pure nrf" "wait_inv nrf s" "main_step cl cfg nrf s = Some s'"
  shows "wait_inv nrf s'"
proof (cases "w_pc s")
  case (On_Event ev)
  with assms(3) have "s' = on_event cl cfg nrf ev s" by (simp add: main_step_def)
  with on_event_pc [of cl cfg nrf ev s] show ?thesis by (auto simp: wait_inv_def)
next
  case Guard_Msg
  obtain b where b: "nrf_peek_rx_irq nrf (w_radio s) = (b, w_radio s)"
    using assms(1) by (metis peek_pure_def prod.collapse)
  with Guard_Msg assms(2,3) show ?thesis
    by (cases b) (auto simp: main_step_def wait_inv_def wakes_def rx_pin_def split: if_splits)
next
  case Top_Msg
  with assms(3) have "w_pc s' \<in> {Top_Pcint} \<union> range On_Event"
    by (auto simp: main_step_def split: if_splits prod.splits bool.splits)
  then show ?thesis by (auto simp: wait_inv_def)
qed (use assms(2,3) in \<open>auto simp: main_step_def wait_inv_def wakes_def split: if_splits\<close>)

lemma node_step_inv:
  assumes "node_step cl cfg nrf hs s s'" "peek_pure nrf" "wait_inv nrf s"
  shows "wait_inv nrf s'"
  using assms(1)
proof cases
  case program
  then show ?thesis by (rule main_step_inv [OF assms(2,3)])
next
  case isr_timer
  with assms(3) show ?thesis
    by (cases "w_pc s") (auto simp: wait_inv_def wakes_def TIMER1_COMPA_vect_def)
next
  case isr_pcint
  with assms(3) show ?thesis
    by (cases "w_pc s") (auto simp: wait_inv_def wakes_def PCINT_vect_def)
qed (use assms(3) in \<open>auto simp: wait_inv_def wakes_def\<close>)

lemma node_reach_inv: "node_reach cl cfg nrf hs s \<Longrightarrow> peek_pure nrf \<Longrightarrow> wait_inv nrf s"
proof (induction rule: node_reach.induct)
  case (start s)
  then show ?case by (simp add: wait_inv_def)
next
  case (step s s')
  then show ?case by (blast intro: node_step_inv)
qed

text \<open>
  A node asleep has seen every event it waits for: no flag it tests is set, and if the radio
  holds a message the interrupt that will wake it is already latched and enabled.
\<close>

lemma asleep_no_event_lost:
  assumes "node_reach cl cfg nrf hs s" "peek_pure nrf" "w_pc s = Sleeping"
  shows "(wakes (BANO_WAKE_TIMER OR BANO_WAKE_POLL) s \<longrightarrow> \<not> timer_irq (w_hw s))
    \<and> (wakes BANO_WAKE_PCINT s \<longrightarrow> \<not> pcint_irq (w_hw s))
    \<and> (wakes BANO_WAKE_MSG s \<and> rx_pin nrf (w_radio s) \<longrightarrow>
        (\<exists>s'. node_step cl cfg nrf hs s s' \<and> w_pc s' = Top_Timer \<and> w_radio s' = w_radio s))"
proof -
  have i: "wait_inv nrf s" by (rule node_reach_inv [OF assms(1,2)])
  have "\<exists>s'. node_step cl cfg nrf hs s s' \<and> w_pc s' = Top_Timer \<and> w_radio s' = w_radio s"
    if "wakes BANO_WAKE_MSG s" "rx_pin nrf (w_radio s)"
  proof -
    from i that assms(3) have "w_ien s" "p_latch s" by (auto simp: wait_inv_def)
    from node_step.isr_pcint [OF this, of cl cfg nrf hs] assms(3) show ?thesis by fastforce
  qed
  with i assms(3) show ?thesis by (auto simp: wait_inv_def)
qed

section \<open>A node that only polls\<close>

text \<open>
  With polling as the only wake up, \<open>wait_msg_or_timer\<close> being a stub, the answer to a poll is
  never read and \<open>bano_wait_event\<close> never returns.
\<close>

definition polls_only :: "('r, 'u) wait \<Rightarrow> bool" where
  "polls_only s \<longleftrightarrow> bano_wake_mask (w_hw s) = BANO_WAKE_POLL"

definition poll_inv :: "('r, 'u) wait \<Rightarrow> bool" where
  "poll_inv s \<longleftrightarrow> polls_only s \<and> (\<forall>ev. w_pc s \<noteq> Returned ev) \<and> (\<forall>ev. w_pc s = On_Event ev \<longrightarrow> ev = BANO_EV_TIMER)"

lemma poll_wakes:
  "polls_only s \<Longrightarrow> wakes BANO_WAKE_POLL s \<and> \<not> wakes BANO_WAKE_TIMER s \<and> \<not> wakes BANO_WAKE_MSG s \<and> \<not> wakes BANO_WAKE_PCINT s"
  by (simp add: wakes_def polls_only_def has_flag_def wake_defs)

lemma node_step_poll:
  assumes "node_step cl cfg nrf hs s s'" "poll_inv s"
  shows "poll_inv s'"
  using assms(1)
proof cases
  case program
  have w: "\<not> wakes BANO_WAKE_MSG s" "\<not> wakes BANO_WAKE_PCINT s" using poll_wakes assms(2) by (auto simp: poll_inv_def)
  show ?thesis
  proof (cases "w_pc s")
    case (On_Event ev)
    with assms(2) program have s': "s' = on_event cl cfg nrf BANO_EV_TIMER s"
      by (simp add: main_step_def poll_inv_def)
    have "w_pc (on_event cl cfg nrf BANO_EV_TIMER s) = Wait_Start"
      "bano_wake_mask (w_hw (on_event cl cfg nrf BANO_EV_TIMER s)) = BANO_WAKE_POLL"
      using poll_wakes [of s] assms(2) by (simp_all add: on_event_def wakes_def polls_only_def poll_inv_def
          timer_setup_def wait_msg_or_timer_def has_flag_def BANO_EV_TIMER_def wake_defs Let_def)
    with s' show ?thesis by (simp add: poll_inv_def polls_only_def)
  qed (use program w assms(2) in \<open>auto simp: main_step_def poll_inv_def polls_only_def timer_setup_def split: if_splits\<close>)
next
  case isr_timer
  with assms(2) show ?thesis
    by (cases "w_pc s") (auto simp: poll_inv_def polls_only_def TIMER1_COMPA_vect_def)
next
  case isr_pcint
  with assms(2) show ?thesis
    by (cases "w_pc s") (auto simp: poll_inv_def polls_only_def PCINT_vect_def)
qed (use assms(2) in \<open>auto simp: poll_inv_def polls_only_def\<close>)

lemma on_event_mask: "bano_wake_mask (w_hw (on_event cl cfg nrf ev s)) = bano_wake_mask (w_hw s)"
  by (simp add: on_event_def timer_setup_def Let_def)

lemma node_step_mask:
  assumes "node_step cl cfg nrf hs s s'"
  shows "bano_wake_mask (w_hw s') = bano_wake_mask (w_hw s)"
  using assms
proof cases
  case program
  then show ?thesis
    by (cases "w_pc s") (auto simp: main_step_def on_event_mask timer_setup_def Let_def
        split: if_splits prod.splits bool.splits)
qed (simp_all add: TIMER1_COMPA_vect_def PCINT_vect_def)

lemma polling_node_never_returns:
  assumes "node_reach cl cfg nrf hs s" "polls_only s"
  shows "poll_inv s"
  using assms
proof (induction rule: node_reach.induct)
  case (start s)
  then show ?case by (simp add: poll_inv_def)
next
  case (step s s')
  then have "polls_only s" using node_step_mask [OF step.hyps(2)] by (simp add: polls_only_def)
  with step show ?case by (blast intro: node_step_poll)
qed

end
