(* ===== verification/Node_Apps.thy ===== *)
theory Node_Apps
  imports Node_Wait
begin

text \<open>
  The two applications of the repository that run on a node: \<open>doc/node_power/tx_profile\<close>, which sends
  a burst of messages each time its timer fires, and \<open>doc/node_power/boot_adc_tx_profile\<close>, which
  samples its converter at boot. Each is the handlers it gives to the runtime and its \<open>main\<close> up to
  \<open>bano_loop\<close>. The calls of \<open>nrf905\<close> that set the power are a parameter on the radio's state.
\<close>

definition BANO_DISABLE_ALL :: u8 where "BANO_DISABLE_ALL = 0xff"

section \<open>The burst of tx\_profile\<close>

definition LED_MASK :: u8 where "LED_MASK = push_bit 1 1"

definition led_setup :: "avr \<Rightarrow> avr" where
  "led_setup h = h\<lparr>DDRB := DDRB h OR LED_MASK\<rparr>"

text \<open>
  The variables of the application. \<open>led_port\<close> is \<open>PORTB\<close>, which nothing else writes once
  the loop runs.
\<close>

record tx_app =
  led_value :: u8
  magic_value :: u32
  led_port :: u8

definition led_set_high :: "u8 \<Rightarrow> u8" where
  "led_set_high port = port OR LED_MASK"

definition led_set_low :: "u8 \<Rightarrow> u8" where
  "led_set_low port = port AND NOT LED_MASK"

definition KEY_LED_VALUE :: u16 where "KEY_LED_VALUE = 0"
definition KEY_MAGIC_SEED :: u16 where "KEY_MAGIC_SEED = 1"
definition KEY_MAGIC_VALUE :: u16 where "KEY_MAGIC_VALUE = 2"

text \<open>On an unknown key the value stays the 0 of \<open>bano_loop\<close>.\<close>

definition tx_get_handler :: "u16 \<Rightarrow> tx_app \<Rightarrow> u8 \<times> u32 \<times> tx_app" where
  "tx_get_handler k u =
     (if k = KEY_LED_VALUE then (0, ucast (led_value u), u)
      else if k = KEY_MAGIC_SEED then (0, magic_value u, u)
      else (ucast BANO_MSG_FLAG_ERR, 0, u))"

definition tx_set_handler :: "u16 \<Rightarrow> u32 \<Rightarrow> tx_app \<Rightarrow> u8 \<times> tx_app" where
  "tx_set_handler k v u =
     (if k = KEY_LED_VALUE then
        (ucast BANO_MSG_FLAG_REPLY,
         if ucast (led_value u) \<noteq> v then
           let u1 = u\<lparr>led_value := ucast v\<rparr> in
           if led_value u1 = 0 then u1\<lparr>led_port := led_set_low (led_port u1)\<rparr>
           else u1\<lparr>led_port := led_set_high (led_port u1)\<rparr>
         else u)
      else if k = KEY_MAGIC_SEED then (0, u\<lparr>magic_value := v\<rparr>)
      else (ucast BANO_MSG_FLAG_ERR, u))"

text \<open>\<open>junk i\<close> is what the stack holds at the call number \<open>i\<close> of \<open>bano_send_set\<close>.\<close>

definition tx_timer_handler ::
  "crypto_lib \<Rightarrow> node_config \<Rightarrow> (nat \<Rightarrow> bano_msg) \<Rightarrow> tx_app \<Rightarrow> tx_app \<times> u8 list list" where
  "tx_timer_handler cl cfg junk u =
     (u\<lparr>magic_value := magic_value u + 1\<rparr>,
      map (\<lambda>i. bano_send_set cl cfg (junk i) KEY_MAGIC_VALUE (magic_value u)) [0..<5])"

definition tx_handlers :: "crypto_lib \<Rightarrow> node_config \<Rightarrow> (nat \<Rightarrow> bano_msg) \<Rightarrow> tx_app handlers" where
  "tx_handlers cl cfg junk =
     \<lparr>bano_set_handler = tx_set_handler, bano_get_handler = tx_get_handler,
      bano_timer_handler = tx_timer_handler cl cfg junk, bano_pcint_handler = (\<lambda>u. (u, []))\<rparr>"

definition tx_info :: bano_info where
  "tx_info = bano_info_default\<lparr>wake_mask := wake_mask bano_info_default OR BANO_WAKE_TIMER, timer_100ms := 50,
     disable_mask := BANO_DISABLE_ALL\<rparr>"

definition tx_main :: "'r nrf_lib \<Rightarrow> ('r \<Rightarrow> 'r) \<Rightarrow> node_config \<Rightarrow> ('r, tx_app) wait \<Rightarrow> ('r, tx_app) wait" where
  "tx_main nrf set_power cfg s =
     (let h = led_setup (w_hw s); h = h\<lparr>PORTB := led_set_low (PORTB h)\<rparr>;
          (r, h) = node_init nrf cfg tx_info (w_radio s, h)
      in s\<lparr>w_pc := Wait_Start, w_hw := h, w_radio := set_power r,
           w_user := \<lparr>led_value = 0, magic_value = 0xdeadbeef, led_port = PORTB h\<rparr>\<rparr>)"

section \<open>The samples of boot\_adc\_tx\_profile\<close>

definition adc_setup :: "avr \<Rightarrow> avr" where
  "adc_setup h = h\<lparr>DDRC := DDRC h AND NOT 1, ADCSRA := 7, ADCSRB := 0, ADMUX := push_bit 6 1, DIDR0 := 1\<rparr>"

definition adc_start_free_running :: "avr \<Rightarrow> avr" where
  "adc_start_free_running h =
     (let h = h\<lparr>ADCSRB := 0\<rparr> in h\<lparr>ADCSRA := ADCSRA h OR (push_bit 7 1 OR push_bit 6 1 OR push_bit 5 1)\<rparr>)"

text \<open>A sample is the two bytes the hardware shows at the time of the read, the low one first.\<close>

definition adc_read :: "u8 \<times> u8 \<Rightarrow> u16" where
  "adc_read s = (push_bit 8 (ucast (snd s)) OR ucast (fst s)) AND 0x3ff"

text \<open>The sum of eight samples, divided by the loop's counter.\<close>

definition adc_average :: "(nat \<Rightarrow> u8 \<times> u8) \<Rightarrow> u16" where
  "adc_average smp = fold (\<lambda>i x. x + adc_read (smp i)) [0..<8] 0 div 8"

definition boot_messages :: "crypto_lib \<Rightarrow> node_config \<Rightarrow> (nat \<Rightarrow> bano_msg) \<Rightarrow> (nat \<Rightarrow> u8 \<times> u8) \<Rightarrow> u8 list list" where
  "boot_messages cl cfg junk smp =
     concat (map (\<lambda>j. let x = adc_average (\<lambda>i. smp (8 * j + i)) in
       [bano_send_set cl cfg (junk (2 * j)) 0x2a2b (ucast x), bano_send_set cl cfg (junk (2 * j + 1)) 0x2a2b (ucast x)]) [0..<4])"

definition boot_handlers :: "unit handlers" where
  "boot_handlers =
     \<lparr>bano_set_handler = (\<lambda>k v u. (ucast BANO_MSG_FLAG_ERR, u)), bano_get_handler = (\<lambda>k u. (ucast BANO_MSG_FLAG_ERR, 0, u)),
      bano_timer_handler = (\<lambda>u. (u, [])), bano_pcint_handler = (\<lambda>u. (u, []))\<rparr>"

definition boot_info :: bano_info where
  "boot_info = bano_info_default\<lparr>disable_mask := BANO_DISABLE_ALL AND NOT BANO_DISABLE_ADC\<rparr>"

definition boot_main ::
  "'r nrf_lib \<Rightarrow> ('r \<Rightarrow> 'r) \<Rightarrow> crypto_lib \<Rightarrow> node_config \<Rightarrow> (nat \<Rightarrow> bano_msg) \<Rightarrow> (nat \<Rightarrow> u8 \<times> u8) \<Rightarrow> ('r, unit) wait \<Rightarrow> ('r, unit) wait" where
  "boot_main nrf set_power cl cfg junk smp s =
     (let (r, h) = node_init nrf cfg boot_info (w_radio s, w_hw s);
          h = adc_start_free_running (adc_setup h)
      in s\<lparr>w_pc := Wait_Start, w_hw := h,
           w_radio := fold (nrf_send_payload_zero nrf) (boot_messages cl cfg junk smp) (set_power r), w_user := ()\<rparr>)"

section \<open>The samples stay in their range\<close>

lemma adc_read_less: "unat (adc_read s) < 1024"
proof -
  define x :: u16 where "x = push_bit 8 (ucast (snd s)) OR ucast (fst s)"
  have "adc_read s = take_bit 10 x"
    by (simp add: adc_read_def x_def [symmetric] take_bit_eq_mask mask_eq_exp_minus_1)
  then have "unat (adc_read s) = take_bit 10 (unat x)" by (simp only: unsigned_take_bit_eq)
  also have "\<dots> < 2 ^ 10" by (rule take_bit_nat_less_exp)
  finally show ?thesis by simp
qed

text \<open>The sum of \<open>n \<le> 8\<close> samples does not wrap in 16 bits.\<close>

lemma adc_sum:
  "n \<le> 8 \<Longrightarrow> unat (fold (\<lambda>i x. x + adc_read (smp i)) [0..<n] 0) = (\<Sum>i<n. unat (adc_read (smp i)))"
proof (induction n)
  case (Suc n)
  have "(\<Sum>i<n. unat (adc_read (smp i))) \<le> (\<Sum>i<n. 1023)"
    using adc_read_less by (intro sum_mono) (simp add: less_Suc_eq_le [symmetric])
  with Suc.prems adc_read_less [of "smp n"] have "(\<Sum>i<n. unat (adc_read (smp i))) + unat (adc_read (smp n)) < 2 ^ 16" by simp
  with Suc show ?case by (simp add: unat_word_ariths)
qed simp

lemma adc_average_exact:
  "unat (adc_average smp) = (\<Sum>i<8. unat (adc_read (smp i))) div 8" "unat (adc_average smp) < 1024"
proof -
  show a: "unat (adc_average smp) = (\<Sum>i<8. unat (adc_read (smp i))) div 8"
    using adc_sum [of 8 smp] by (simp add: adc_average_def unat_div)
  have "(\<Sum>i<(8::nat). unat (adc_read (smp i))) \<le> (\<Sum>i<(8::nat). 1023)"
    using adc_read_less by (intro sum_mono) (simp add: less_Suc_eq_le [symmetric])
  then show "unat (adc_average smp) < 1024" unfolding a by simp
qed

section \<open>The LED follows its value\<close>

definition led_ok :: "tx_app \<Rightarrow> bool" where
  "led_ok u \<longleftrightarrow> (bit (led_port u) 1 \<longleftrightarrow> led_value u \<noteq> 0)"

lemma led_bits [simp]: "bit (led_set_high p) (Suc 0)" "\<not> bit (led_set_low p) (Suc 0)"
  by (simp_all add: led_set_high_def led_set_low_def LED_MASK_def bit_simps)

lemma u8_up_down [simp]: "ucast (ucast (x :: u8) :: u32) = x"
  by (rule bit_word_eqI) (simp add: bit_simps)

lemma tx_set_led:
  assumes "led_ok u"
  shows "led_ok (snd (tx_set_handler k v u))"
    and "k = KEY_LED_VALUE \<Longrightarrow> led_value (snd (tx_set_handler k v u)) = ucast v"
  using assms by (auto simp: tx_set_handler_def led_ok_def Let_def)

text \<open>A set of the seed, or of an unknown key, is not answered: no reply flag, no message.\<close>

lemma tx_set_silent:
  assumes "op m = BANO_MSG_OP_SET" "set_key m \<noteq> KEY_LED_VALUE"
  shows "snd (snd (handle_event_msg cl cfg (tx_handlers cl cfg junk) m u)) = []"
  using assms by (simp add: handle_event_msg_def tx_handlers_def tx_set_handler_def has_flag_def
      BANO_MSG_FLAG_ERR_def BANO_MSG_FLAG_REPLY_def)

section \<open>The events of a running application\<close>

text \<open>An application is woken for the events of its mask only, and one at a time.\<close>

definition awaited :: "u8 \<Rightarrow> u8 \<Rightarrow> bool" where
  "awaited wm ev \<longleftrightarrow> ev = BANO_EV_TIMER \<and> has_flag wm (BANO_WAKE_TIMER OR BANO_WAKE_POLL)
     \<or> ev = BANO_EV_MSG \<and> has_flag wm BANO_WAKE_MSG \<or> ev = BANO_EV_PCINT \<and> has_flag wm BANO_WAKE_PCINT"

definition awaits :: "u8 \<Rightarrow> ('r, 'u) wait \<Rightarrow> bool" where
  "awaits wm s \<longleftrightarrow> bano_wake_mask (w_hw s) = wm \<and> (\<forall>ev. w_pc s = On_Event ev \<or> w_pc s = wait_pc.Returned ev \<longrightarrow> awaited wm ev)"

lemma on_event_returns: "w_pc (on_event cl cfg nrf ev s) \<in> {Wait_Start, wait_pc.Returned ev}"
  by (simp add: on_event_def wait_msg_or_timer_def Let_def)

lemma main_step_awaits:
  assumes "main_step cl cfg nrf s = Some s'" "awaits wm s"
  shows "awaits wm s'"
proof (cases "w_pc s")
  case (On_Event ev)
  with assms have "s' = on_event cl cfg nrf ev s" "awaited wm ev" by (auto simp: main_step_def awaits_def)
  with assms(2) on_event_returns [of cl cfg nrf ev s] show ?thesis
    by (auto simp: awaits_def on_event_mask)
next
  case Top_Msg
  with assms show ?thesis
    by (auto simp: main_step_def awaits_def awaited_def wakes_def split: if_splits prod.splits bool.splits)
next
  case Guard_Msg
  with assms show ?thesis
    by (auto simp: main_step_def awaits_def split: if_splits prod.splits bool.splits)
qed (use assms in \<open>auto simp: main_step_def awaits_def awaited_def wakes_def timer_setup_def split: if_splits\<close>)

lemma node_step_awaits:
  assumes "node_step cl cfg nrf hs s s'" "awaits wm s"
  shows "awaits wm s'"
  using assms(1)
proof cases
  case program
  then show ?thesis using assms(2) by (rule main_step_awaits)
next
  case isr_timer
  with assms(2) show ?thesis by (cases "w_pc s") (auto simp: awaits_def TIMER1_COMPA_vect_def)
next
  case isr_pcint
  with assms(2) show ?thesis by (cases "w_pc s") (auto simp: awaits_def PCINT_vect_def)
qed (use assms(2) in \<open>auto simp: awaits_def\<close>)

abbreviation node_steps :: "crypto_lib \<Rightarrow> node_config \<Rightarrow> 'r nrf_lib \<Rightarrow> 'u handlers \<Rightarrow> ('r, 'u) wait \<Rightarrow> ('r, 'u) wait \<Rightarrow> bool" where
  "node_steps cl cfg nrf hs \<equiv> (node_step cl cfg nrf hs)\<^sup>*\<^sup>*"

text \<open>The application's variables change only in a turn.\<close>

lemma main_step_user: "main_step cl cfg nrf s = Some s' \<Longrightarrow> w_user s' = w_user s"
  by (auto simp: main_step_def on_event_def Let_def split: wait_pc.splits if_splits prod.splits bool.splits)

text \<open>A property the handlers keep for the awaited events holds in every state the node reaches.\<close>

lemma node_steps_keep:
  assumes "node_steps cl cfg nrf hs s0 s" "awaits wm s0" "P (w_user s0)"
    and "\<And>ev m u. awaited wm ev \<Longrightarrow> P u \<Longrightarrow> P (fst (node_turn cl cfg hs ev m u))"
  shows "awaits wm s \<and> P (w_user s)"
  using assms(1)
proof (induction rule: rtranclp_induct)
  case (step s s')
  then have IH: "awaits wm s" "P (w_user s)" by simp_all
  have "P (w_user s')"
    using step.hyps(2)
  proof cases
    case program
    then show ?thesis using main_step_user IH(2) by fastforce
  next
    case (turn ev u m sent)
    with IH have "awaited wm ev" by (simp add: awaits_def)
    from assms(4) [OF this IH(2), of "w_msg s"] turn show ?thesis by simp
  qed (use IH(2) in simp_all)
  with node_step_awaits [OF step.hyps(2) IH(1)] show ?case by simp
qed (use assms in simp)

section \<open>What the applications do\<close>

lemma node_init_mask: "bano_wake_mask (snd (node_init nrf cfg info (r, h))) = wake_mask info"
  by (auto simp: node_init_def init_wake_def disable_modules_def clk_set_prescal_max_def clk_set_prescal_def pcint_setup_def Let_def)

lemma node_init_port: "\<not> has_flag (wake_mask info) BANO_WAKE_PCINT \<Longrightarrow> PORTB (snd (node_init nrf cfg info (r, h))) = PORTB h"
  by (simp add: node_init_def init_wake_def disable_modules_def clk_set_prescal_max_def clk_set_prescal_def Let_def)

lemma tx_awaited: "awaited BANO_WAKE_TIMER ev \<longleftrightarrow> ev = BANO_EV_TIMER"
  by (auto simp: awaited_def has_flag_def wake_defs)

lemma tx_info_mask: "wake_mask tx_info = BANO_WAKE_TIMER"
  by (simp add: tx_info_def bano_info_default_def)

lemma tx_main_awaits:
  "awaits BANO_WAKE_TIMER (tx_main nrf set_power cfg s)" "led_value (w_user (tx_main nrf set_power cfg s)) = 0"
  "led_ok (w_user (tx_main nrf set_power cfg s))"
proof -
  let ?h = "(led_setup (w_hw s))\<lparr>PORTB := led_set_low (PORTB (led_setup (w_hw s)))\<rparr>"
  obtain r h where n: "node_init nrf cfg tx_info (w_radio s, ?h) = (r, h)" by fastforce
  have "bano_wake_mask h = BANO_WAKE_TIMER" "PORTB h = PORTB ?h"
    using node_init_mask [of nrf cfg tx_info "w_radio s" ?h] node_init_port [of tx_info nrf cfg "w_radio s" ?h] n tx_info_mask
    by (simp_all add: has_flag_def wake_defs)
  with n show "awaits BANO_WAKE_TIMER (tx_main nrf set_power cfg s)" "led_value (w_user (tx_main nrf set_power cfg s)) = 0"
    "led_ok (w_user (tx_main nrf set_power cfg s))"
    by (simp_all add: tx_main_def Let_def awaits_def led_ok_def)
qed

lemma tx_timer_turn:
  "node_turn cl cfg (tx_handlers cl cfg junk) BANO_EV_TIMER m u = (u\<lparr>magic_value := magic_value u + 1\<rparr>, m,
     map (\<lambda>i. bano_send_set cl cfg (junk i) KEY_MAGIC_VALUE (magic_value u)) [0..<5])"
  by (simp add: node_turn_def tx_handlers_def tx_timer_handler_def has_flag_def BANO_EV_TIMER_def BANO_EV_MSG_def BANO_EV_PCINT_def)

lemma tx_never_serves:
  assumes "node_steps cl cfg nrf (tx_handlers cl cfg junk) (tx_main nrf set_power cfg s0) s"
  shows "led_value (w_user s) = 0 \<and> \<not> bit (led_port (w_user s)) 1 \<and> (w_pc s = wait_pc.Returned ev \<longrightarrow> ev = BANO_EV_TIMER)"
proof -
  have "awaits BANO_WAKE_TIMER s \<and> led_value (w_user s) = 0 \<and> led_ok (w_user s)"
    using tx_main_awaits [of nrf set_power cfg s0]
    by (intro node_steps_keep [OF assms, where P = "\<lambda>u. led_value u = 0 \<and> led_ok u"])
      (auto simp: tx_awaited tx_timer_turn led_ok_def)
  then show ?thesis by (auto simp: awaits_def tx_awaited led_ok_def)
qed

text \<open>The other application sleeps after its samples: it waits for no event.\<close>

lemma boot_never_returns:
  assumes "node_steps cl cfg nrf boot_handlers (boot_main nrf set_power cl cfg junk smp s0) s"
  shows "w_pc s \<noteq> wait_pc.Returned ev"
proof -
  let ?b = "boot_main nrf set_power cl cfg junk smp s0"
  obtain r h where n: "node_init nrf cfg boot_info (w_radio s0, w_hw s0) = (r, h)" by fastforce
  have "bano_wake_mask h = 0"
    using node_init_mask [of nrf cfg boot_info "w_radio s0" "w_hw s0"] n by (simp add: boot_info_def bano_info_default_def)
  with n have "awaits 0 ?b"
    by (simp add: boot_main_def awaits_def adc_start_free_running_def adc_setup_def Let_def)
  then have "awaits 0 s" using node_steps_keep [OF assms, where P = "\<lambda>_. True"] by simp
  then show ?thesis by (auto simp: awaits_def awaited_def has_flag_def)
qed

end
