(* ===== verification/Bano_Html.thy ===== *)
theory Bano_Html
  imports Bano_Base
begin

text \<open>
  The growing buffer of \<open>src/base/bano_html.c\<close> and the page the base station generates
  (\<open>format_time\<close>, \<open>gen_pair_html\<close>, \<open>gen_node_html\<close>, \<open>gen_base_html\<close> in
  \<open>bano_base.c\<close>). The buffer is refined against the plain concatenation of what is printed.
\<close>

section \<open>The buffer\<close>

text \<open>\<open>h_data\<close> is the first \<open>off\<close> characters of the buffer, \<open>h_size\<close> its allocated size.\<close>

record html =
  h_data :: string
  h_size :: nat
  h_err :: bool

definition h_off :: "html \<Rightarrow> nat" where
  "h_off h = length (h_data h)"

definition bano_html_init :: html where
  "bano_html_init = \<lparr>h_data = [], h_size = 0, h_err = False\<rparr>"

text \<open>The results of \<open>realloc\<close> come from the stream of \<open>malloc\<close>.\<close>

definition resize_data :: "mallocs \<Rightarrow> html \<Rightarrow> nat \<Rightarrow> rc \<times> mallocs \<times> html" where
  "resize_data ms h sz =
     (let new_size = (sz + 0x1000) div 0x1000 * 0x1000 in
      case malloc ms of (a, ms') \<Rightarrow>
        if a = 0 then (Err, ms', h\<lparr>h_err := True\<rparr>)
        else (Ok, ms', h\<lparr>h_size := new_size\<rparr>))"

definition free_data :: "html \<Rightarrow> html" where
  "free_data h = h\<lparr>h_data := [], h_size := 0\<rparr>"

definition bano_html_fini :: "html \<Rightarrow> html" where
  "bano_html_fini h = free_data h"

definition bano_html_get_data :: "html \<Rightarrow> string" where
  "bano_html_get_data h = h_data h"

definition bano_html_get_size :: "html \<Rightarrow> nat" where
  "bano_html_get_size h = h_off h"

definition bano_html_is_err :: "html \<Rightarrow> bool" where
  "bano_html_is_err h = h_err h"

text \<open>
  \<open>text\<close> is the text the format and its arguments stand for, what \<open>vsnprintf\<close> would write
  into a large buffer; its result is the length of that text.
\<close>

definition html_fail :: "html \<Rightarrow> html" where
  "html_fail h = (free_data h)\<lparr>h_err := True\<rparr>"

definition bano_html_printf :: "string \<Rightarrow> mallocs \<times> html \<Rightarrow> rc \<times> mallocs \<times> html" where
  "bano_html_printf text s = (case s of (ms, h) \<Rightarrow>
     if h_err h then (Err, ms, h)
     else
       let len = length text in
       if h_size h - h_off h \<le> len then
         (case resize_data ms h (h_off h + len + 1) of
            (Err, ms', h') \<Rightarrow> (Err, ms', html_fail h')
          | (Ok, ms', h') \<Rightarrow>
              if h_size h' - h_off h' \<le> len then (Err, ms', html_fail h')
              else (Ok, ms', h'\<lparr>h_data := h_data h' @ text\<rparr>))
       else (Ok, ms, h\<lparr>h_data := h_data h @ text\<rparr>))"

text \<open>Including a file, which is \<open>None\<close> when it cannot be opened or read in full.\<close>

definition bano_html_include :: "string option \<Rightarrow> mallocs \<times> html \<Rightarrow> rc \<times> mallocs \<times> html" where
  "bano_html_include file s = (case s of (ms, h) \<Rightarrow>
     if h_err h then (Err, ms, h)
     else (case file of None \<Rightarrow> (Err, ms, html_fail h)
       | Some text \<Rightarrow>
           let new_size = h_off h + length text in
           if h_size h < new_size then
             (case resize_data ms h new_size of
                (Err, ms', h') \<Rightarrow> (Err, ms', html_fail h')
              | (Ok, ms', h') \<Rightarrow> (Ok, ms', h'\<lparr>h_data := h_data h' @ text\<rparr>))
           else (Ok, ms, h\<lparr>h_data := h_data h @ text\<rparr>)))"

text \<open>The generators ignore the results of the calls: a sequence of texts printed in order.\<close>

definition html_print :: "string list \<Rightarrow> mallocs \<times> html \<Rightarrow> mallocs \<times> html" where
  "html_print ts s = fold (\<lambda>t s. snd (bano_html_printf t s)) ts s"

text \<open>
  The buffer never overflows: what is printed, with the terminating NUL of \<open>vsnprintf\<close>, fits
  the allocated size; an included file fits it too.
\<close>

definition html_wf :: "html \<Rightarrow> bool" where
  "html_wf h \<longleftrightarrow> h_off h \<le> h_size h \<and> (h_err h \<longrightarrow> h_data h = [] \<and> h_size h = 0)"

lemma round_up_gt: "n < (n + 0x1000) div 0x1000 * (0x1000 :: nat)"
proof -
  have "(n + 0x1000) mod 0x1000 < (0x1000 :: nat)" by (rule mod_less_divisor) simp
  then show ?thesis using div_mult_mod_eq [of "n + 0x1000" "0x1000 :: nat"] by linarith
qed

lemma resize_data_Ok:
  "resize_data ms h n = (Ok, ms', h') \<Longrightarrow> h' = h\<lparr>h_size := (n + 0x1000) div 0x1000 * 0x1000\<rparr> \<and> n < h_size h'"
  using round_up_gt [of n] by (auto simp: resize_data_def Let_def split: prod.splits if_splits)

lemma resize_data_Err: "resize_data ms h n = (Err, ms', h') \<Longrightarrow> h' = h\<lparr>h_err := True\<rparr>"
  by (auto simp: resize_data_def Let_def split: prod.splits if_splits)

lemma html_fail_wf [simp]: "html_wf (html_fail h)" "h_err (html_fail h)"
  by (simp_all add: html_fail_def free_data_def html_wf_def h_off_def)

text \<open>Printing appends the text, or leaves an empty buffer in error, which stays so.\<close>

lemma bano_html_printf_appends:
  assumes "html_wf h" "bano_html_printf text (ms, h) = (r, ms', h')"
  shows "html_wf h'"
    and "r = Ok \<Longrightarrow> h_data h' = h_data h @ text \<and> \<not> h_err h' \<and> h_off h' < h_size h'"
    and "r = Err \<Longrightarrow> h_err h' \<and> h_data h' = []"
    and "h_err h \<Longrightarrow> r = Err \<and> h' = h"
proof -
  have "html_wf h' \<and> (r = Ok \<longrightarrow> h_data h' = h_data h @ text \<and> \<not> h_err h' \<and> h_off h' < h_size h')
      \<and> (r = Err \<longrightarrow> h_err h' \<and> h_data h' = []) \<and> (h_err h \<longrightarrow> r = Err \<and> h' = h)"
  proof (cases "h_err h \<or> \<not> h_size h - h_off h \<le> length text")
    case True
    with assms show ?thesis
      by (auto simp: bano_html_printf_def Let_def html_wf_def h_off_def split: if_splits)
  next
    case False
    obtain q ms1 h1 where q: "resize_data ms h (h_off h + length text + 1) = (q, ms1, h1)"
      by (cases "resize_data ms h (h_off h + length text + 1)") auto
    show ?thesis
    proof (cases q)
      case Ok
      from resize_data_Ok [OF q [unfolded Ok]] have h1: "h_data h1 = h_data h" "h_err h1 = h_err h"
          "h_off h + length text + 1 < h_size h1" by auto
      then have "\<not> h_size h1 - h_off h1 \<le> length text" by (simp add: h_off_def)
      with False assms(2) q Ok h1 show ?thesis
        by (auto simp: bano_html_printf_def Let_def html_wf_def h_off_def)
    next
      case Err
      with False assms(2) q show ?thesis
        by (auto simp: bano_html_printf_def Let_def html_fail_def free_data_def html_wf_def h_off_def)
    qed
  qed
  then show "html_wf h'" "r = Ok \<Longrightarrow> h_data h' = h_data h @ text \<and> \<not> h_err h' \<and> h_off h' < h_size h'"
    "r = Err \<Longrightarrow> h_err h' \<and> h_data h' = []" "h_err h \<Longrightarrow> r = Err \<and> h' = h" by auto
qed

lemma bano_html_include_appends:
  assumes "html_wf h" "bano_html_include file (ms, h) = (r, ms', h')"
  shows "html_wf h'" "r = Ok \<Longrightarrow> \<exists>text. file = Some text \<and> h_data h' = h_data h @ text \<and> \<not> h_err h'"
    and "r = Err \<Longrightarrow> h_err h' \<and> h_data h' = []"
proof -
  have "html_wf h' \<and> (r = Ok \<longrightarrow> (\<exists>text. file = Some text \<and> h_data h' = h_data h @ text \<and> \<not> h_err h'))
      \<and> (r = Err \<longrightarrow> h_err h' \<and> h_data h' = [])"
  proof (cases "h_err h \<or> file = None")
    case True
    with assms show ?thesis
      by (auto simp: bano_html_include_def html_fail_def free_data_def html_wf_def h_off_def split: if_splits)
  next
    case False
    then obtain tx where f: "file = Some tx" "\<not> h_err h" by auto
    obtain q ms1 h1 where q: "resize_data ms h (h_off h + length tx) = (q, ms1, h1)"
      by (cases "resize_data ms h (h_off h + length tx)") auto
    show ?thesis
    proof (cases q)
      case Ok
      from resize_data_Ok [OF q [unfolded Ok]] f assms(2) q Ok show ?thesis
        by (auto simp: bano_html_include_def Let_def html_wf_def h_off_def split: if_splits)
    next
      case Err
      with f assms(2) q show ?thesis
        by (auto simp: bano_html_include_def Let_def html_fail_def free_data_def html_wf_def h_off_def
            split: if_splits)
    qed
  qed
  then show "html_wf h'" "r = Ok \<Longrightarrow> \<exists>text. file = Some text \<and> h_data h' = h_data h @ text \<and> \<not> h_err h'"
    "r = Err \<Longrightarrow> h_err h' \<and> h_data h' = []" by auto
qed

text \<open>
  The buffer refines concatenation: after any texts it holds all of them, or nothing and the
  error flag. A page is never cut short.
\<close>

lemma html_print_Cons:
  "html_print (t # ts) s = html_print ts (snd (bano_html_printf t s))"
  by (simp add: html_print_def)

lemma html_print_append: "html_print (ts @ us) s = html_print us (html_print ts s)"
  by (simp add: html_print_def)

lemma html_print_all_or_nothing:
  assumes "html_wf h" "html_print ts (ms, h) = (ms', h')"
  shows "html_wf h'"
    and "\<not> h_err h' \<Longrightarrow> h_data h' = h_data h @ concat ts \<and> \<not> h_err h"
    and "h_err h' \<Longrightarrow> h_data h' = []"
proof -
  have "html_wf h' \<and> (\<not> h_err h' \<longrightarrow> h_data h' = h_data h @ concat ts \<and> \<not> h_err h) \<and> (h_err h' \<longrightarrow> h_data h' = [])"
    using assms
  proof (induction ts arbitrary: ms h)
    case Nil
    then show ?case by (auto simp: html_print_def html_wf_def)
  next
    case (Cons t ts)
    obtain r ms1 h1 where p: "bano_html_printf t (ms, h) = (r, ms1, h1)"
      by (cases "bano_html_printf t (ms, h)") auto
    note a = bano_html_printf_appends [OF Cons.prems(1) p]
    from Cons.prems(2) p have "html_print ts (ms1, h1) = (ms', h')" by (simp add: html_print_Cons)
    from Cons.IH [OF a(1) this] a(2-4) show ?case by (cases r) auto
  qed
  then show "html_wf h'" "\<not> h_err h' \<Longrightarrow> h_data h' = h_data h @ concat ts \<and> \<not> h_err h"
    "h_err h' \<Longrightarrow> h_data h' = []" by auto
qed

section \<open>The page\<close>

definition format_time :: "int \<Rightarrow> int \<Rightarrow> string" where
  "format_time tm_now tm_mod =
     (let d = (if tm_now \<le> tm_mod then 0 else tm_now - tm_mod) in
      if 60 * 60 * 24 < d then dec (nat (d div (60 * 60 * 24))) @ '' d''
      else if 60 * 60 < d then dec (nat (d div (60 * 60))) @ '' h''
      else if 60 < d then dec (nat (d div 60)) @ '' m''
      else dec (nat d) @ '' s'')"

definition hex4 :: "u16 \<Rightarrow> string" where
  "hex4 k = ''0x'' @ hex_fixed 4 (unat k)"

definition nl :: string where
  "nl = [CHR 0x0A]"

definition quote :: string where
  "quote = [CHR 0x27]"

text \<open>An attribute \<open>name='value'\<close>.\<close>

definition attr :: "string \<Rightarrow> string \<Rightarrow> string" where
  "attr n v = '' '' @ n @ ''='' @ quote @ v @ quote"

definition div_box :: "string \<Rightarrow> string \<Rightarrow> string" where
  "div_box cls v = ''<div'' @ attr ''class'' cls @ ''> '' @ v @ '' </div>''"

definition submit :: "string \<Rightarrow> string" where
  "submit v = ''<input'' @ attr ''type'' ''submit'' @ attr ''name'' ''op'' @ attr ''value'' v @ '' />'' @ nl"

text \<open>
  The texts of \<open>gen_pair_html\<close>: a form when the key can be set, read or reset, else the value.
\<close>

definition pair_html :: "int \<Rightarrow> node \<Rightarrow> u32 \<times> nodl_keyval \<Rightarrow> string list option" where
  "pair_html tm_now nd p = do {
     d \<leftarrow> keyval_pairs nd;
     let kv = snd p;
     let naddr = bano_node_get_addr nd;
     let is_dec = has_flag (kv_flags kv) BANO_NODL_FLAG_BASE_DEC;
     let is_mtime = has_flag (kv_flags kv) BANO_NODL_FLAG_MTIME;
     let is_ack = has_flag (kv_flags kv) BANO_NODL_FLAG_ACK;
     let is_set = has_flag (kv_flags kv) BANO_NODL_FLAG_SET;
     let is_get = has_flag (kv_flags kv) BANO_NODL_FLAG_GET;
     let is_rst = has_flag (kv_flags kv) BANO_NODL_FLAG_RST;
     let r = bano_dict_get d (ucast (kv_key kv));
     let val = (case r of None \<Rightarrow> 0xffffffff | Some v \<Rightarrow> nv_val v);
     let mtime = (case r of None \<Rightarrow> ''na''
                  | Some v \<Rightarrow> if is_mtime then format_time tm_now (nv_mtime v) else ''na'');
     let shown = (if is_dec then dec (unat val) else hex8 val);
     Some (if is_set \<or> is_get \<or> is_rst then
         [''<form action='' @ quote @ ''/?naddr='' @ hex8 naddr @ ''&key='' @ hex4 (kv_key kv)
            @ ''&is_ack='' @ (if is_ack then ''1'' else ''0'') @ quote @ attr ''method'' ''post'' @ ''>'' @ nl,
          div_box ''bano_mtime'' mtime @ nl,
          div_box ''bano_key'' (kv_name kv),
          ''<input'' @ attr ''type'' ''text'' @ attr ''name'' ''val'' @ '' value='' @ quote,
          shown,
          quote @ '' />'' @ nl]
         @ (if is_set then [submit ''set''] else [])
         @ (if is_get then [submit ''get''] else [])
         @ (if is_rst then [submit ''rst''] else [])
         @ [''</form>'' @ nl]
       else
         [div_box ''bano_mtime'' mtime @ nl,
          div_box ''bano_key'' (kv_name kv) @ nl,
          ''<div'' @ attr ''class'' ''bano_val'' @ ''> '',
          shown,
          '' </div>'' @ nl,
          ''<br/>'' @ nl])
   }"

definition gen_pair_html ::
  "int \<Rightarrow> node \<Rightarrow> u32 \<times> nodl_keyval \<Rightarrow> (mallocs \<times> html) option \<Rightarrow> bool \<times> (mallocs \<times> html) option" where
  "gen_pair_html tm_now nd p s =
     (False, Option.bind s (\<lambda>s. map_option (\<lambda>ts. html_print ts s) (pair_html tm_now nd p)))"

definition node_header :: "node \<Rightarrow> string list" where
  "node_header nd =
     [''<div'' @ attr ''class'' ''bano_box bano_node'' @ ''>'' @ nl,
      div_box ''bano_mtime'' ''na'', div_box ''bano_key'' ''name'',
      div_box ''bano_val'' (bano_node_get_name nd), ''<br/>'' @ nl,
      div_box ''bano_mtime'' ''na'', div_box ''bano_key'' ''address'',
      div_box ''bano_val'' (hex8 (bano_node_get_addr nd)), ''<br/>'' @ nl]"

definition gen_node_html :: "int \<Rightarrow> node \<Rightarrow> mallocs \<times> html \<Rightarrow> (mallocs \<times> html) option" where
  "gen_node_html tm_now nd s = do {
     let s1 = html_print (node_header nd) s;
     s2 \<leftarrow> (case n_nodl nd of
        None \<Rightarrow> Some s1
      | Some dl \<Rightarrow> Option.bind (keyvals dl) (\<lambda>d. snd (bano_dict_foreach d (gen_pair_html tm_now nd) (Some s1))));
     Some (html_print [''</div>'' @ nl, ''<br/>'' @ nl] s2)
   }"

fun gen_nodes_html :: "int \<Rightarrow> (addr \<Rightarrow> node option) \<Rightarrow> addr items \<Rightarrow> mallocs \<times> html \<Rightarrow> (mallocs \<times> html) option" where
  "gen_nodes_html tm_now nodes [] s = Some s"
| "gen_nodes_html tm_now nodes ((it, na) # xs) s = do {
     nd \<leftarrow> nodes na;
     s' \<leftarrow> gen_node_html tm_now nd s;
     gen_nodes_html tm_now nodes xs s'
   }"

text \<open>\<open>%08x\<close> of a \<open>time_t\<close> prints its low 32 bits.\<close>

definition cam_html :: "int \<Rightarrow> int \<Rightarrow> string list" where
  "cam_html sec usec =
     [''<div'' @ attr ''class'' ''bano_box bano_cam'' @ ''>'' @ nl,
      ''<img src='' @ quote @ ''/?ob=cam'',
      ''&id='' @ hex_fixed 8 (nat (sec mod 2 ^ 32)) @ hex_fixed 8 (nat (usec mod 2 ^ 32)) @ quote @ '' />'' @ nl,
      ''</div>'' @ nl, ''<br/>'' @ nl]"

definition refresh_html :: "bool \<Rightarrow> string list" where
  "refresh_html cam =
     [''<div'' @ attr ''class'' ''bano_box bano_refresh'' @ ''>'' @ nl,
      ''<form'' @ attr ''action'' ''/'' @ attr ''method'' ''get'' @ ''>'' @ nl,
      ''<input'' @ attr ''type'' ''submit'' @ attr ''value'' ''refresh'' @ '' />'' @ nl]
     @ (if cam then [submit ''cam''] else [])
     @ [''</form>'' @ nl, ''</div>'' @ nl, ''<br/>'' @ nl]"

definition status_html :: "u32 \<Rightarrow> u32 \<Rightarrow> string list" where
  "status_html compl_err compl_val =
     (let s = (if compl_err \<noteq> 0 then ''error'' else ''success'') in
      [''<div'' @ attr ''class'' (''bano_box bano_status bano_status_'' @ s) @ ''>'' @ nl,
       ''status: '' @ s @ '' ('' @ hex8 compl_err @ '', '' @ hex8 compl_val @ '')'' @ nl,
       ''</div>'' @ nl])"

definition gen_base_html :: "'w base_lib \<Rightarrow> u32 \<Rightarrow> u32 \<Rightarrow> 'w base \<Rightarrow> (mallocs \<times> html) option" where
  "gen_base_html lib compl_err compl_val b = do {
     let s = html_print [''<html><body>'' @ nl,
       ''<style'' @ attr ''media'' ''screen'' @ attr ''type'' ''text/css'' @ ''>'' @ nl] (b_mls b, bano_html_init);
     let s = snd (bano_html_include (files lib ''./conf/bano.css'') s);
     let s = html_print [''</style>'' @ nl] s;
     s \<leftarrow> gen_nodes_html (gettime lib (world b)) (node_at b) (b_nodes b) s;
     let s = (if is_cam b then html_print (cam_html (gettime lib (world b)) (gettime_usec lib (world b))) s else s);
     let s = html_print (refresh_html (is_cam b)) s;
     let s = html_print (status_html compl_err compl_val) s;
     Some (html_print [''</body></html>'' @ nl] s)
   }"

text \<open>
  A page that is sent is whole: it begins and ends with the document's tags, holds the style
  sheet and ends with the status of the operation it answers.
\<close>

definition html_grows :: "mallocs \<times> html \<Rightarrow> mallocs \<times> html \<Rightarrow> bool" where
  "html_grows s s' \<longleftrightarrow> suffix (fst s') (fst s) \<and>
     (html_wf (snd s) \<longrightarrow> html_wf (snd s') \<and>
       (\<not> h_err (snd s') \<longrightarrow> \<not> h_err (snd s) \<and> prefix (h_data (snd s)) (h_data (snd s'))))"

lemma html_grows_refl [simp]: "html_grows s s"
  by (simp add: html_grows_def)

lemma html_grows_trans: "html_grows s s1 \<Longrightarrow> html_grows s1 s2 \<Longrightarrow> html_grows s s2"
  unfolding html_grows_def by (meson prefix_order.trans suffix_order.trans)

lemma resize_data_suffix: "resize_data ms h n = (r, ms', h') \<Longrightarrow> suffix ms' ms"
  by (cases ms) (auto simp: resize_data_def Let_def suffix_def split: if_splits)

lemma bano_html_printf_suffix: "suffix (fst (snd (bano_html_printf t s))) (fst s)"
  by (cases s) (auto simp: bano_html_printf_def Let_def split: prod.splits rc.splits dest: resize_data_suffix)

lemma bano_html_include_suffix: "suffix (fst (snd (bano_html_include f s))) (fst s)"
  by (cases s) (auto simp: bano_html_include_def Let_def split: prod.splits rc.splits option.splits
      dest: resize_data_suffix)

lemma html_print_suffix: "suffix (fst (html_print ts s)) (fst s)"
proof (induction ts arbitrary: s)
  case (Cons t ts)
  show ?case
    unfolding html_print_Cons by (rule suffix_order.trans [OF Cons bano_html_printf_suffix])
qed (simp add: html_print_def)

lemma html_print_grows: "html_grows s (html_print ts s)"
proof -
  obtain ms h ms' h' where s: "s = (ms, h)" "html_print ts (ms, h) = (ms', h')" by (metis surj_pair)
  show ?thesis
    using html_print_all_or_nothing [OF _ s(2)] html_print_suffix [of ts s] by (auto simp: s html_grows_def)
qed

lemma foreach_until_pairs_grow:
  assumes "snd (foreach_until (gen_pair_html tm nd) ps (Some s)) = Some s'"
  shows "html_grows s s'"
  using assms
proof (induction ps arbitrary: s)
  case (Cons p ps)
  show ?case
  proof (cases "pair_html tm nd p")
    case None
    have "foreach_until (gen_pair_html tm nd) qs None = (Ok, None)" for qs
      by (induction qs) (auto simp: gen_pair_html_def)
    with Cons.prems None show ?thesis by (simp add: gen_pair_html_def [of tm nd p "Some s"])
  next
    case (Some ts)
    with Cons.prems have "snd (foreach_until (gen_pair_html tm nd) ps (Some (html_print ts s))) = Some s'"
      by (simp add: gen_pair_html_def [of tm nd p "Some s"])
    from Cons.IH [OF this] html_print_grows show ?thesis by (rule html_grows_trans [rotated])
  qed
qed simp

lemma foreach_lists_pairs_grow:
  assumes "snd (foreach_lists (gen_pair_html tm nd) ls (Some s)) = Some s'"
  shows "html_grows s s'"
proof -
  have "foreach_lists (gen_pair_html tm nd) ls s0 = foreach_until (gen_pair_html tm nd) (concat ls) s0" for s0
    by (induction ls arbitrary: s0) (auto simp: foreach_until_append split: prod.splits rc.splits)
  with assms foreach_until_pairs_grow show ?thesis by metis
qed

lemma gen_node_html_grows: "gen_node_html tm nd s = Some s' \<Longrightarrow> html_grows s s'"
proof -
  assume g: "gen_node_html tm nd s = Some s'"
  define s1 where "s1 = html_print (node_header nd) s"
  have 1: "html_grows s s1" by (simp add: s1_def html_print_grows)
  from g obtain s2 where s2: "s2 = s1 \<or> (\<exists>d. snd (bano_dict_foreach d (gen_pair_html tm nd) (Some s1)) = Some s2)"
      "s' = html_print [''</div>'' @ nl, ''<br/>'' @ nl] s2"
    by (auto simp: gen_node_html_def Let_def simp flip: s1_def split: bind_splits option.splits)
  have "html_grows s1 s2"
    using s2(1) foreach_lists_pairs_grow [where s = s1 and s' = s2 and tm = tm and nd = nd]
    by (metis bano_dict_foreach_def html_grows_refl)
  moreover have "html_grows s2 s'" unfolding s2(2) by (rule html_print_grows)
  ultimately show ?thesis using 1 html_grows_trans by blast
qed

lemma gen_nodes_html_grows: "gen_nodes_html tm nodes xs s = Some s' \<Longrightarrow> html_grows s s'"
proof (induction tm nodes xs s rule: gen_nodes_html.induct)
  case (2 tm nodes it na xs s)
  from 2(2) obtain nd s1 where s1: "nodes na = Some nd" "gen_node_html tm nd s = Some s1"
      "gen_nodes_html tm nodes xs s1 = Some s'" by (auto split: bind_splits)
  from html_grows_trans [OF gen_node_html_grows [OF s1(2)] 2(1) [OF s1]] show ?case .
qed simp

text \<open>Generating a page only consumes memory.\<close>

lemma gen_base_html_suffix:
  assumes "gen_base_html lib e v b = Some (ms, h)"
  shows "suffix ms (b_mls b)"
proof -
  let ?t0 = "[''<html><body>'' @ nl, ''<style'' @ attr ''media'' ''screen'' @ attr ''type'' ''text/css'' @ ''>'' @ nl]"
  define s0 where "s0 = html_print ?t0 (b_mls b, bano_html_init)"
  define s1 where "s1 = snd (bano_html_include (files lib ''./conf/bano.css'') s0)"
  define s2 where "s2 = html_print [''</style>'' @ nl] s1"
  note g0 = assms [unfolded gen_base_html_def Let_def, folded s0_def, folded s1_def, folded s2_def]
  from g0 obtain s3 where s3: "gen_nodes_html (gettime lib (world b)) (node_at b) (b_nodes b) s2 = Some s3"
    by (cases "gen_nodes_html (gettime lib (world b)) (node_at b) (b_nodes b) s2") simp_all
  define s4 where "s4 = (if is_cam b then html_print (cam_html (gettime lib (world b)) (gettime_usec lib (world b))) s3 else s3)"
  have e: "(ms, h) = html_print [''</body></html>'' @ nl] (html_print (status_html e v) (html_print (refresh_html (is_cam b)) s4))"
    using g0 [unfolded s3 Option.bind.bind_lunit, folded s4_def] by simp
  have "ms = fst (html_print [''</body></html>'' @ nl] (html_print (status_html e v) (html_print (refresh_html (is_cam b)) s4)))"
    by (simp only: fst_conv flip: e)
  then have "suffix ms (fst s4)"
    by (simp only:) (rule suffix_order.trans [OF html_print_suffix
        suffix_order.trans [OF html_print_suffix html_print_suffix]])
  moreover have "suffix (fst s4) (fst s3)" by (simp add: s4_def html_print_suffix)
  moreover have "suffix (fst s3) (fst s2)" using gen_nodes_html_grows [OF s3] by (simp add: html_grows_def)
  moreover have "suffix (fst s2) (fst s1)" by (simp add: s2_def html_print_suffix)
  moreover have "suffix (fst s1) (fst s0)" by (simp add: s1_def bano_html_include_suffix)
  moreover have "suffix (fst s0) (b_mls b)" unfolding s0_def by (rule suffix_order.trans [OF html_print_suffix]) simp
  ultimately show ?thesis by (meson suffix_order.trans)
qed

lemma gen_base_html_whole:
  assumes "gen_base_html lib e v b = Some (ms, h)" "\<not> h_err h"
  shows "\<exists>css mid. files lib ''./conf/bano.css'' = Some css \<and>
     h_data h = ''<html><body>'' @ nl @ ''<style'' @ attr ''media'' ''screen'' @ attr ''type'' ''text/css'' @ ''>'' @ nl
       @ css @ mid @ concat (status_html e v) @ ''</body></html>'' @ nl"
proof -
  let ?t0 = "[''<html><body>'' @ nl, ''<style'' @ attr ''media'' ''screen'' @ attr ''type'' ''text/css'' @ ''>'' @ nl]"
  obtain m0 h0 where p0: "html_print ?t0 (b_mls b, bano_html_init) = (m0, h0)" by fastforce
  obtain r1 m1 h1 where p1: "bano_html_include (files lib ''./conf/bano.css'') (m0, h0) = (r1, m1, h1)"
    by (cases "bano_html_include (files lib ''./conf/bano.css'') (m0, h0)") auto
  define s2 where "s2 = html_print [''</style>'' @ nl] (m1, h1)"
  note g0 = assms(1) [unfolded gen_base_html_def Let_def p0 p1 snd_conv, folded s2_def]
  from g0 obtain s3 where s3: "gen_nodes_html (gettime lib (world b)) (node_at b) (b_nodes b) s2 = Some s3"
    by (cases "gen_nodes_html (gettime lib (world b)) (node_at b) (b_nodes b) s2") simp_all
  define s4 where "s4 = (if is_cam b then html_print (cam_html (gettime lib (world b)) (gettime_usec lib (world b))) s3 else s3)"
  define s5 where "s5 = html_print (refresh_html (is_cam b)) s4"
  have s6: "html_print (status_html e v @ [''</body></html>'' @ nl]) s5 = (ms, h)"
    using g0 [unfolded s3 Option.bind.bind_lunit, folded s4_def, folded s5_def]
    unfolding html_print_append by (rule option.inject [THEN iffD1])
  have w0: "html_wf bano_html_init" by (simp add: bano_html_init_def html_wf_def h_off_def)
  note a0 = html_print_all_or_nothing [OF w0 p0]
  note a1 = bano_html_include_appends [OF a0(1) p1]
  have g2: "html_grows (m1, h1) s2" by (simp add: s2_def html_print_grows)
  have g3: "html_grows s2 s3" by (rule gen_nodes_html_grows [OF s3])
  have g4: "html_grows s3 s4" by (simp add: s4_def html_print_grows)
  have g5: "html_grows s4 s5" by (simp add: s5_def html_print_grows)
  have g: "html_grows (m1, h1) s5" using g2 g3 g4 g5 html_grows_trans by blast
  then have w5: "html_wf (snd s5)" using a1(1) by (simp add: html_grows_def)
  have s6': "html_print (status_html e v @ [''</body></html>'' @ nl]) (fst s5, snd s5) = (ms, h)" using s6 by simp
  note a6 = html_print_all_or_nothing [OF w5 s6']
  from a6(2) [OF assms(2)] have d6: "h_data h = h_data (snd s5) @ concat (status_html e v) @ ''</body></html>'' @ nl"
      "\<not> h_err (snd s5)" by auto
  with g a1(1) have e1: "\<not> h_err h1" "prefix (h_data h1) (h_data (snd s5))" by (auto simp: html_grows_def)
  then have "r1 = Ok" using a1(3) by (cases r1) auto
  with a1(2) obtain css where css: "files lib ''./conf/bano.css'' = Some css" "h_data h1 = h_data h0 @ css" by blast
  have "\<not> h_err h0"
    using p1 \<open>r1 = Ok\<close> by (auto simp: bano_html_include_def split: if_splits)
  then have "h_data h0 = concat ?t0" using a0(2) by (simp add: bano_html_init_def)
  with css e1(2) d6(1) show ?thesis by (auto simp: prefix_def)
qed

end
