(* ===== verification/Bano_Httpd.thy ===== *)
theory Bano_Httpd
  imports Bano_Html
begin

text \<open>
  The http server: decoding requests, handing them to the event loop and completing them
  (\<open>src/base/bano_httpd.c\<close>), and what the event loop does with them (\<open>handle_httpd_msg\<close>
  and its helpers in \<open>bano_base.c\<close>). The server library and the thread synchronisation are
  parameters.
\<close>

section \<open>Completing a request\<close>

definition bano_httpd_complete_msg :: "'w base_lib \<Rightarrow> httpd_msg \<Rightarrow> rc \<Rightarrow> string \<Rightarrow> 'w \<Rightarrow> 'w" where
  "bano_httpd_complete_msg lib msg err data w =
     (let c = hm_conn msg;
          s = (case hm_fmt msg of BANO_HTTPD_MSG_FMT_PLAIN \<Rightarrow> ''text/plain'' | _ \<Rightarrow> ''text/html'');
          w = mg_send_header lib c ''Content-Type'' s w;
          w = mg_send_header lib c ''Cache-Control'' ''no-cache'' w;
          w = mg_send_header lib c ''Content-Length'' (dec (length data)) w;
          w = mg_send_data lib c data w
      in compl_signal lib c err w)"

definition plain_compl :: "u32 \<Rightarrow> u32 \<Rightarrow> string" where
  "plain_compl compl_err compl_val = hex8 compl_err @ '', '' @ hex8 compl_val"

text \<open>A page that cannot be generated becomes a plain answer with the error code.\<close>

definition complete_httpd_msg :: "'w base_lib \<Rightarrow> httpd_msg \<Rightarrow> u32 \<Rightarrow> u32 \<Rightarrow> 'w base \<Rightarrow> 'w base option" where
  "complete_httpd_msg lib msg compl_err compl_val b =
     (if hm_fmt msg = BANO_HTTPD_MSG_FMT_PLAIN then
        Some (b\<lparr>world := bano_httpd_complete_msg lib msg Ok (plain_compl compl_err compl_val) (world b)\<rparr>)
      else do {
        (ms, h) \<leftarrow> gen_base_html lib compl_err compl_val b;
        let b = b\<lparr>b_mls := ms\<rparr>;
        Some (if \<not> bano_html_is_err h then
                b\<lparr>world := bano_httpd_complete_msg lib msg Ok (bano_html_get_data h) (world b)\<rparr>
              else
                b\<lparr>world := bano_httpd_complete_msg lib (msg\<lparr>hm_fmt := BANO_HTTPD_MSG_FMT_PLAIN\<rparr>) Ok
                  (plain_compl BANO_IO_ERR_FAILURE 0) (world b)\<rparr>)
      })"

text \<open>The completion function of the server's operations, and its code pointer.\<close>

definition ON_HTTPD_IO_COMPL :: nat where
  "ON_HTTPD_IO_COMPL = 1"

definition on_httpd_io_compl :: "'w base_lib \<Rightarrow> addr \<Rightarrow> nat \<Rightarrow> 'w base \<Rightarrow> 'w base option" where
  "on_httpd_io_compl lib ioa p b = do {
     msg \<leftarrow> hod_at b p;
     io \<leftarrow> io_at b ioa;
     b' \<leftarrow> complete_httpd_msg lib msg (io_compl_err io) (io_compl_val io) b;
     Some (b'\<lparr>hod_at := (hod_at b')(p := None)\<rparr>)
   }"

text \<open>The functions a completion pointer leads to, with the server's among them.\<close>

definition with_httpd :: "'w base_lib \<Rightarrow> 'w base_lib" where
  "with_httpd lib = lib\<lparr>compl := \<lambda>fn d a b.
     if fn = ON_HTTPD_IO_COMPL then on_httpd_io_compl lib a d b else compl lib fn d a b\<rparr>"

section \<open>Handling a request\<close>

text \<open>
  Posting the operation a get or set request asks for: \<open>Ok\<close> when it is posted and the
  request waits for it.
\<close>

definition post_httpd_io :: "'w base_lib \<Rightarrow> httpd_msg \<Rightarrow> 'w base \<Rightarrow> (rc \<times> 'w base) option" where
  "post_httpd_io lib msg b = do {
     (r, na) \<leftarrow> bano_find_node_by_addr b (hm_naddr msg);
     if r = Err then Some (Err, b)
     else (case malloc (b_mls b) of (hod, ms) \<Rightarrow>
       if hod = 0 then Some (Err, b\<lparr>b_mls := ms\<rparr>)
       else
         let b1 = b\<lparr>b_mls := ms, hod_at := (hod_at b)(hod \<mapsto> msg)\<rparr>;
             (ioa, b2) = (if hm_op msg = BANO_HTTPD_MSG_OP_SET
               then bano_alloc_set_io (io_junk lib) (hm_key msg) (hm_val msg) (hm_is_ack msg \<noteq> 0) ON_HTTPD_IO_COMPL hod b1
               else bano_alloc_get_io (io_junk lib) (hm_key msg) ON_HTTPD_IO_COMPL hod b1)
         in if ioa = 0 then Some (Err, b2\<lparr>hod_at := (hod_at b2)(hod := None)\<rparr>)
            else do {
              (r, b3) \<leftarrow> bano_post_io na ioa b2;
              Some (if r = Err
                    then (Err, (bano_free_io ioa b3)\<lparr>hod_at := (hod_at b3)(hod := None)\<rparr>)
                    else (Ok, b3))
            })
   }"

definition handle_httpd_msg :: "'w base_lib \<Rightarrow> httpd_msg \<Rightarrow> 'w base \<Rightarrow> 'w base option" where
  "handle_httpd_msg lib msg b =
     (case hm_op msg of
        BANO_HTTPD_MSG_OP_RST \<Rightarrow> do {
          (r, na) \<leftarrow> bano_find_node_by_addr b (hm_naddr msg);
          if r = Err then complete_httpd_msg lib msg BANO_IO_ERR_FAILURE 0 b
          else do {
            nd \<leftarrow> node_at b na;
            d \<leftarrow> keyval_pairs nd;
            (case bano_dict_set_or_add (b_mls b) d (ucast (hm_key msg)) \<lparr>nv_val = 0, nv_mtime = gettime lib (world b)\<rparr> of
               (r, ms, d') \<Rightarrow>
                 complete_httpd_msg lib msg (if r = Err then BANO_IO_ERR_FAILURE else 0) 0
                   (set_node na (nd\<lparr>keyval_pairs := Some d'\<rparr>) (b\<lparr>b_mls := ms\<rparr>)))
          }
        }
      | BANO_HTTPD_MSG_OP_CAM \<Rightarrow>
          (if is_cam b then
             (case cam_capture lib (world b) of (r, w) \<Rightarrow>
                complete_httpd_msg lib msg (if r = Ok then 0 else - 1) 0 (b\<lparr>world := w\<rparr>))
           else complete_httpd_msg lib msg (- 1) 0 b)
      | BANO_HTTPD_MSG_OP_INVALID \<Rightarrow> complete_httpd_msg lib msg BANO_IO_ERR_SUCCESS 0 b
      | _ \<Rightarrow> do {
          (r, b') \<leftarrow> post_httpd_io lib msg b;
          if r = Ok then Some b' else complete_httpd_msg lib msg BANO_IO_ERR_FAILURE 0 b'
        })"

section \<open>Decoding a request\<close>

text \<open>\<open>get_base\<close> of this file reads a C string, without the length check of \<open>bano_string\<close>.\<close>

definition httpd_get_base :: "string \<Rightarrow> nat" where
  "httpd_get_base s =
     (case s of a # b # _ \<Rightarrow> if \<not> (a = CHR ''0'' \<and> b = CHR ''x'') then 10 else 16 | _ \<Rightarrow> 10)"

definition str_to_uint16 :: "nat \<Rightarrow> string \<Rightarrow> u16" where
  "str_to_uint16 W s = of_nat (strtoul W s (httpd_get_base s))"

definition str_to_uint32 :: "nat \<Rightarrow> string \<Rightarrow> u32" where
  "str_to_uint32 W s = of_nat (strtoul W s (httpd_get_base s))"

text \<open>
  \<open>var\<close> is \<open>mg_get_var\<close> with a buffer of 32 characters: the variable's value, empty when it is
  absent. What the buffer holds of a value that does not fit is in \<open>Mongoose_Request\<close>. \<open>W\<close> is the
  width of \<open>unsigned long\<close>.
\<close>

definition decode_request :: "nat \<Rightarrow> (string \<Rightarrow> string) \<Rightarrow> nat \<Rightarrow> httpd_msg" where
  "decode_request W var conn =
     \<lparr>hm_op = (if var ''op'' = ''get'' then BANO_HTTPD_MSG_OP_GET
               else if var ''op'' = ''set'' then BANO_HTTPD_MSG_OP_SET
               else if var ''op'' = ''rst'' then BANO_HTTPD_MSG_OP_RST
               else if var ''op'' = ''cam'' then BANO_HTTPD_MSG_OP_CAM
               else BANO_HTTPD_MSG_OP_INVALID),
      hm_fmt = (if var ''fmt'' = ''plain'' then BANO_HTTPD_MSG_FMT_PLAIN else BANO_HTTPD_MSG_FMT_HTML),
      hm_naddr = str_to_uint32 W (var ''naddr''),
      hm_key = str_to_uint16 W (var ''key''),
      hm_val = str_to_uint32 W (var ''val''),
      hm_is_ack = str_to_uint32 W (var ''is_ack''),
      hm_conn = conn\<rparr>"

text \<open>
  The other calls of the server library and of the system. \<open>cam_get_image\<close> is the last image
  and its type, as \<open>bano_cam_get_image\<close> returns them.
\<close>

record 'w httpd_lib = "'w base_lib" +
  pipe_write :: "httpd_msg \<Rightarrow> 'w \<Rightarrow> rc \<times> 'w"
  cam_get_image :: "'w \<Rightarrow> string \<times> string"
  mg_authorize_digest :: "nat \<Rightarrow> string \<Rightarrow> bool"
  os_pipe :: "'w \<Rightarrow> (int \<times> int) option \<times> 'w"
  os_mutex_init :: "'w \<Rightarrow> rc \<times> 'w"
  os_mutex_destroy :: "'w \<Rightarrow> 'w"
  os_cond_init :: "'w \<Rightarrow> rc \<times> 'w"
  os_cond_destroy :: "'w \<Rightarrow> 'w"
  os_close :: "int \<Rightarrow> 'w \<Rightarrow> 'w"
  mg_create_server :: "'w \<Rightarrow> rc \<times> 'w"
  mg_set_option :: "string \<Rightarrow> string \<Rightarrow> 'w \<Rightarrow> 'w"
  mg_start_thread :: "'w \<Rightarrow> 'w"
  mg_stop_thread :: "'w \<Rightarrow> 'w"
  mg_destroy_server :: "'w \<Rightarrow> 'w"

text \<open>What the server's thread does next: it has answered, or waits for the event loop.\<close>

datatype http_step = Answered | Waiting

definition on_request ::
  "'w httpd_lib \<Rightarrow> nat \<Rightarrow> bool \<Rightarrow> (string \<Rightarrow> string) \<Rightarrow> nat \<Rightarrow> 'w \<Rightarrow> http_step \<times> 'w" where
  "on_request lib W cam var conn w =
     (if var ''ob'' = ''cam'' then
        let (im, mime) = (if cam then cam_get_image lib w else ([], ''image/bmp''));
            w = mg_send_header lib conn ''Content-Type'' mime w;
            w = mg_send_header lib conn ''Cache-Control'' ''no-cache'' w;
            w = mg_send_header lib conn ''Content-Length'' (dec (length im)) w
        in (Answered, mg_send_data lib conn im w)
      else
        (case pipe_write lib (decode_request W var conn) w of
           (Err, w) \<Rightarrow>
             (Answered, mg_send_data lib conn (''-1'' @ nl) (mg_send_header lib conn ''Content-Type'' ''text/plain'' w))
         | (Ok, w) \<Rightarrow> (Waiting, w)))"

definition BANO_HTTPD_FLAG_PORT :: u32 where "BANO_HTTPD_FLAG_PORT = 1"
definition BANO_HTTPD_FLAG_AUTH :: u32 where "BANO_HTTPD_FLAG_AUTH = 2"

definition on_auth :: "'w httpd_lib \<Rightarrow> u32 \<Rightarrow> nat \<Rightarrow> bool" where
  "on_auth lib fl conn =
     (if \<not> has_flag fl BANO_HTTPD_FLAG_AUTH then True
      else (case files lib ''./conf/httpd.auth'' of
        None \<Rightarrow> False
      | Some passwords \<Rightarrow> mg_authorize_digest lib conn passwords))"

record httpd_info =
  hi_flags :: u32
  hi_port :: u16

record httpd =
  hd_flags :: u32
  hd_pipe :: "int \<times> int"

definition bano_init_httpd_info :: "httpd_info \<Rightarrow> httpd_info" where
  "bano_init_httpd_info i = i\<lparr>hi_flags := 0\<rparr>"

text \<open>The text of \<open>%hd\<close> for the port, a signed 16 bit number.\<close>

definition port_text :: "u16 \<Rightarrow> string" where
  "port_text p = dec_int (sint p)"

text \<open>
  Starting the server. The pipe's descriptor becomes that of the socket added before it; the
  socket stays in the base when a later step fails, while what that step had made is undone.
\<close>

definition bano_httpd_init ::
  "'w httpd_lib \<Rightarrow> socket_info \<Rightarrow> httpd_info \<Rightarrow> 'w base \<Rightarrow> (httpd option \<times> 'w base) option" where
  "bano_httpd_init lib junk info b =
     (let si = junk\<lparr>si_type := BANO_SOCKET_TYPE_HTTPD\<rparr> in
      case bano_add_socket (base_lib.truncate lib) si b of
        None \<Rightarrow> None
      | Some (Err, b1) \<Rightarrow> Some (None, b1)
      | Some (Ok, b1) \<Rightarrow>
        Some (case os_pipe lib (world b1) of
           (None, w) \<Rightarrow> (None, b1\<lparr>world := w\<rparr>)
         | (Some (rd, wr), w) \<Rightarrow>
           let close_pipe = (\<lambda>w. os_close lib wr (os_close lib rd w));
               hs = (case socket_at b1 (snd (last (b_sockets b1))) of None \<Rightarrow> 0 | Some s \<Rightarrow> s_data s);
               b2 = b1\<lparr>pipes := (pipes b1)(hs := rd)\<rparr>
           in (case os_mutex_init lib w of
             (Err, w) \<Rightarrow> (None, b2\<lparr>world := close_pipe w\<rparr>)
           | (Ok, w) \<Rightarrow>
             (case os_cond_init lib w of
               (Err, w) \<Rightarrow> (None, b2\<lparr>world := close_pipe (os_mutex_destroy lib w)\<rparr>)
             | (Ok, w) \<Rightarrow>
               (case mg_create_server lib w of
                 (Err, w) \<Rightarrow> (None, b2\<lparr>world := close_pipe (os_mutex_destroy lib (os_cond_destroy lib w))\<rparr>)
               | (Ok, w) \<Rightarrow>
                 let port = (if has_flag (hi_flags info) BANO_HTTPD_FLAG_PORT then hi_port info else 80)
                 in (Some \<lparr>hd_flags = hi_flags info, hd_pipe = (rd, wr)\<rparr>,
                     b2\<lparr>world := mg_start_thread lib (mg_set_option lib ''listening_port'' (port_text port) w)\<rparr>))))))"

text \<open>
  Stopping the server: its thread is told to end, and joined by polling \<open>is_done\<close>
  (\<open>mg_stop_thread\<close>), then everything that \<open>bano_httpd_init\<close> made is released, except the socket,
  which the base closes.
\<close>

definition bano_httpd_fini :: "'w httpd_lib \<Rightarrow> httpd \<Rightarrow> 'w \<Rightarrow> 'w" where
  "bano_httpd_fini lib h w =
     (let w = mg_destroy_server lib (mg_stop_thread lib w);
          w = os_mutex_destroy lib (os_cond_destroy lib w)
      in os_close lib (snd (hd_pipe h)) (os_close lib (fst (hd_pipe h)) w))"

section \<open>Addresses and keys on the page come back unchanged\<close>

lemma httpd_get_base_0x: "httpd_get_base (''0x'' @ s) = 16"
  by (simp add: httpd_get_base_def)

lemma str_to_uint32_hex8: "32 \<le> W \<Longrightarrow> str_to_uint32 W (hex8 x) = x"
proof -
  assume W: "32 \<le> W"
  have v: "digits_val 16 0 (hex_fixed 8 (unat x)) = unat x"
    by (simp add: digits_val_hex_fixed)
  have "strtoul W (''0x'' @ hex_fixed 8 (unat x) @ []) 16 = unat x"
    using hex_fixed_digits unat_u32_less_pow [OF W, of x] v
    by (subst strtoul_0x) (auto simp: length_0_conv [symmetric] simp del: length_0_conv)
  then show ?thesis by (simp add: str_to_uint32_def hex8_def httpd_get_base_def)
qed

lemma str_to_uint16_hex4: "16 \<le> W \<Longrightarrow> str_to_uint16 W (hex4 k) = k"
proof -
  assume W: "16 \<le> W"
  have v: "digits_val 16 0 (hex_fixed 4 (unat k)) = unat k"
    by (simp add: digits_val_hex_fixed)
  have "unat k < 2 ^ W"
    by (rule order_less_le_trans [OF unat_u16_less]) (use W power_increasing [of 16 W "2 :: nat"] in simp)
  then have "strtoul W (''0x'' @ hex_fixed 4 (unat k) @ []) 16 = unat k"
    using hex_fixed_digits v
    by (subst strtoul_0x) (auto simp: length_0_conv [symmetric] simp del: length_0_conv)
  then show ?thesis by (simp add: str_to_uint16_def hex4_def httpd_get_base_def)
qed

text \<open>A port from 32768 on is announced as a negative number.\<close>

lemma sint_small: "unat (p :: u16) < 32768 \<Longrightarrow> sint p = int (unat p)"
proof -
  assume p: "unat p < 32768"
  then have "int (unat p) < int 32768" by (simp only: of_nat_less_iff)
  then have "uint p < 32768" by simp
  moreover have "- 32768 \<le> uint p" by (rule order_trans [of _ 0]) simp_all
  ultimately have "signed_take_bit 15 (uint p) = uint p"
    by (intro signed_take_bit_int_eq_self) simp_all
  then show ?thesis by (simp add: sint_uint)
qed

lemma sint_large: "32768 \<le> unat (p :: u16) \<Longrightarrow> sint p = int (unat p) - 65536"
proof -
  assume p: "32768 \<le> unat p"
  have b: "int 32768 \<le> int (unat p)" "int (unat p) < int 65536"
    using p unat_u16_less [of p] by (simp_all only: of_nat_less_iff of_nat_le_iff)
  have "signed_take_bit 15 (uint p) = signed_take_bit 15 (uint p - 65536)"
    by (simp add: signed_take_bit_eq_take_bit_shift take_bit_eq_mod mod_eq_dvd_iff)
  also have "\<dots> = uint p - 65536"
    using b by (intro signed_take_bit_int_eq_self) simp_all
  finally show ?thesis by (simp add: sint_uint)
qed

lemma port_text_small: "unat p < 32768 \<Longrightarrow> port_text p = dec (unat p)"
  by (simp only: port_text_def dec_int_def sint_small nat_int) simp

lemma port_text_large:
  assumes "32768 \<le> unat p"
  shows "port_text p = CHR ''-'' # dec (65536 - unat p)"
proof -
  have l: "unat p < 65536" by (rule unat_u16_less)
  then have "int (unat p) - 65536 < 0" by linarith
  moreover have "nat (- (int (unat p) - 65536)) = 65536 - unat p" using l by linarith
  ultimately show ?thesis by (simp only: port_text_def dec_int_def sint_large [OF assms] if_True)
qed

section \<open>The server's requests keep the base's invariant\<close>

lemma complete_httpd_msg_effect:
  assumes "complete_httpd_msg lib msg e v b = Some b'"
  shows "\<exists>ms w. suffix ms (b_mls b) \<and> b' = b\<lparr>b_mls := ms, world := w\<rparr>"
proof (cases "hm_fmt msg = BANO_HTTPD_MSG_FMT_PLAIN")
  case True
  with assms have "b' = b\<lparr>b_mls := b_mls b, world := world b'\<rparr>" by (auto simp: complete_httpd_msg_def)
  then show ?thesis by blast
next
  case False
  with assms obtain ms h where g: "gen_base_html lib e v b = Some (ms, h)"
    by (auto simp: complete_httpd_msg_def split: bind_splits)
  with assms False have "b' = b\<lparr>b_mls := ms, world := world b'\<rparr>"
    by (auto simp: complete_httpd_msg_def Let_def split: if_splits)
  with gen_base_html_suffix [OF g] show ?thesis by blast
qed

lemma base_inv_out:
  assumes "base_inv b" "suffix ms (b_mls b)"
  shows "base_inv (b\<lparr>b_mls := ms, world := w\<rparr>)" "base_inv (b\<lparr>b_mls := ms, world := w, hod_at := h\<rparr>)"
proof -
  from assms have i: "base_inv (b\<lparr>b_mls := ms\<rparr>)" by (auto simp: suffix_def intro: base_inv_mls)
  show "base_inv (b\<lparr>b_mls := ms, world := w\<rparr>)"
    by (rule base_inv_cong [of _ "b\<lparr>b_mls := ms\<rparr>", THEN iffD2]) (simp_all add: i)
  show "base_inv (b\<lparr>b_mls := ms, world := w, hod_at := h\<rparr>)"
    by (rule base_inv_cong [of _ "b\<lparr>b_mls := ms\<rparr>", THEN iffD2]) (simp_all add: i)
qed

lemma base_inv_hod [simp]: "base_inv (b\<lparr>hod_at := h\<rparr>) = base_inv b"
  by (rule base_inv_cong) simp_all

lemma base_inv_world [simp]: "base_inv (b\<lparr>world := w\<rparr>) = base_inv b"
  by (rule base_inv_cong) simp_all

lemma nodes_of_hod [simp]: "nodes_of (b\<lparr>hod_at := h\<rparr>) = nodes_of b"
  by (simp add: nodes_of_def)

lemma unowned_hod [simp]: "unowned a (b\<lparr>hod_at := h\<rparr>) = unowned a b"
  by (simp add: unowned_def)

text \<open>The server's completion function is one the message handlers may call.\<close>

lemma with_httpd_compl_ok: "compl_ok lib \<Longrightarrow> compl_ok (with_httpd lib)"
proof -
  assume ok: "compl_ok lib"
  have "base_inv b' \<and> unowned a b'"
    if "base_inv b" "unowned a b" "on_httpd_io_compl lib a d b = Some b'" for a d and b b' :: "'a base"
  proof -
    note on = that(3)
    obtain msg where m: "hod_at b d = Some msg"
      using on by (cases "hod_at b d") (simp_all add: on_httpd_io_compl_def)
    obtain io where io: "io_at b a = Some io"
      using on m by (cases "io_at b a") (simp_all add: on_httpd_io_compl_def)
    obtain b1 where b1: "complete_httpd_msg lib msg (io_compl_err io) (io_compl_val io) b = Some b1"
      using on m io by (cases "complete_httpd_msg lib msg (io_compl_err io) (io_compl_val io) b")
        (simp_all add: on_httpd_io_compl_def)
    with on m io have "b' = b1\<lparr>hod_at := (hod_at b1)(d := None)\<rparr>"
      by (simp add: on_httpd_io_compl_def)
    with complete_httpd_msg_effect [OF b1] obtain ms w where "suffix ms (b_mls b)"
        "b1 = b\<lparr>b_mls := ms, world := w\<rparr>" "b' = b1\<lparr>hod_at := (hod_at b1)(d := None)\<rparr>" by blast
    with that(1,2) base_inv_out(1) [OF that(1)] show ?thesis by (simp add: unowned_def)
  qed
  note on = this
  show ?thesis
    unfolding compl_ok_def
  proof (intro allI impI)
    fix fn d a and b b' :: "'a base"
    assume a: "base_inv b" "unowned a b" "io_at b a \<noteq> None" "compl (with_httpd lib) fn d a b = Some b'"
    show "base_inv b' \<and> unowned a b'"
    proof (cases "fn = ON_HTTPD_IO_COMPL")
      case True
      with a(4) have "on_httpd_io_compl lib a d b = Some b'" by (simp add: with_httpd_def)
      with on a(1,2) show ?thesis by blast
    next
      case False
      with a(4) have "compl lib fn d a b = Some b'" by (simp add: with_httpd_def)
      with ok a(1-3) show ?thesis unfolding compl_ok_def by blast
    qed
  qed
qed

lemma post_httpd_io_inv:
  assumes "base_inv b" "post_httpd_io lib msg b = Some (r, b')"
  shows "base_inv b'"
proof -
  from assms(2) obtain q na where f: "bano_find_node_by_addr b (hm_naddr msg) = Some (q, na)"
    by (auto simp: post_httpd_io_def split: bind_splits)
  show ?thesis
  proof (cases "q = Err")
    case True
    with assms f show ?thesis by (simp add: post_httpd_io_def)
  next
    case False
    then have na: "na \<in> nodes_of b"
      using f find_node_by_addr_mem by (fastforce simp: bano_find_node_by_addr_def nodes_of_def split: if_splits)
    obtain hod ms where m: "malloc (b_mls b) = (hod, ms)" by fastforce
    obtain ks where ks: "b_mls b = ks @ ms" using malloc_suffix [OF m] by blast
    note inv0 = base_inv_mls [OF assms(1) ks]
    show ?thesis
    proof (cases "hod = 0")
      case True
      with assms(2) f False m inv0 show ?thesis by (simp add: post_httpd_io_def)
    next
      case h: False
      define b1 where "b1 = b\<lparr>b_mls := ms, hod_at := (hod_at b)(hod \<mapsto> msg)\<rparr>"
      define al where "al = (if hm_op msg = BANO_HTTPD_MSG_OP_SET
               then bano_alloc_set_io (io_junk lib) (hm_key msg) (hm_val msg) (hm_is_ack msg \<noteq> 0) ON_HTTPD_IO_COMPL hod b1
               else bano_alloc_get_io (io_junk lib) (hm_key msg) ON_HTTPD_IO_COMPL hod b1)"
      obtain a b2 where al: "al = (a, b2)" by fastforce
      have inv1: "base_inv b1" using inv0 by (simp add: b1_def)
      have alc: "bano_alloc_get_io (io_junk lib) (hm_key msg) ON_HTTPD_IO_COMPL hod b1 = (a, b2) \<or>
          bano_alloc_set_io (io_junk lib) (hm_key msg) (hm_val msg) (hm_is_ack msg \<noteq> 0) ON_HTTPD_IO_COMPL hod b1 = (a, b2)"
        using al by (auto simp: al_def split: if_splits)
      note i2 = alloc_io_inv [OF inv1 alc]
      have na2: "na \<in> nodes_of b2" using na i2(3) by (simp add: b1_def)
      note s = assms(2) [unfolded post_httpd_io_def f Option.bind.bind_lunit prod.case m Let_def, folded b1_def, folded al_def, unfolded al]
      show ?thesis
      proof (cases "a = 0")
        case True
        with s False h i2(1) show ?thesis by auto
      next
        case a: False
        with s False h obtain r3 b3 where p: "bano_post_io na a b2 = Some (r3, b3)"
            "b' = (if r3 = Err then (bano_free_io a b3)\<lparr>hod_at := (hod_at b3)(hod := None)\<rparr> else b3)"
          by (auto split: bind_splits if_splits)
        have "unowned a b2" using i2(2) a by blast
        note i3 = bano_post_io_inv [OF i2(1) na2 this a p(1)]
        show ?thesis
          using p(2) i3(1,3) base_inv_free_io by (cases "r3 = Err") auto
      qed
    qed
  qed
qed

text \<open>Every request of the server keeps the invariant of the base.\<close>

lemma handle_httpd_msg_inv:
  assumes "base_inv b" "handle_httpd_msg lib msg b = Some b'"
  shows "base_inv b'"
proof -
  have c: "base_inv b2" if "base_inv b1" "complete_httpd_msg lib msg e v b1 = Some b2" for b1 b2 :: "'a base" and e v
    using complete_httpd_msg_effect [OF that(2)] base_inv_out(1) [OF that(1)] by auto
  have post: "base_inv b'" if "Option.bind (post_httpd_io lib msg b) (\<lambda>(r, b'). if r = Ok then Some b'
      else complete_httpd_msg lib msg BANO_IO_ERR_FAILURE 0 b') = Some b'"
  proof -
    from that obtain r b1 where "post_httpd_io lib msg b = Some (r, b1)"
        "b' = b1 \<or> complete_httpd_msg lib msg BANO_IO_ERR_FAILURE 0 b1 = Some b'"
      by (auto split: bind_splits if_splits)
    with post_httpd_io_inv [OF assms(1)] c show ?thesis by blast
  qed
  show ?thesis
  proof (cases "hm_op msg")
    case BANO_HTTPD_MSG_OP_GET
    with assms(2) post show ?thesis by (simp add: handle_httpd_msg_def)
  next
    case BANO_HTTPD_MSG_OP_SET
    with assms(2) post show ?thesis by (simp add: handle_httpd_msg_def)
  next
    case BANO_HTTPD_MSG_OP_CAM
    with assms show ?thesis
      by (auto simp: handle_httpd_msg_def split: if_splits prod.splits intro: c [rotated])
  next
    case BANO_HTTPD_MSG_OP_INVALID
    with assms c show ?thesis by (auto simp: handle_httpd_msg_def)
  next
    case BANO_HTTPD_MSG_OP_RST
    from assms(2) BANO_HTTPD_MSG_OP_RST obtain q na where f: "bano_find_node_by_addr b (hm_naddr msg) = Some (q, na)"
      by (auto simp: handle_httpd_msg_def split: bind_splits)
    show ?thesis
    proof (cases "q = Err")
      case True
      with assms BANO_HTTPD_MSG_OP_RST f c show ?thesis by (simp add: handle_httpd_msg_def)
    next
      case False
      then have na: "na \<in> nodes_of b"
        using f find_node_by_addr_mem by (fastforce simp: bano_find_node_by_addr_def nodes_of_def split: if_splits)
      let ?v = "\<lparr>nv_val = 0, nv_mtime = gettime lib (world b)\<rparr>"
      from assms(2) BANO_HTTPD_MSG_OP_RST f False obtain nd d where nd: "node_at b na = Some nd" "keyval_pairs nd = Some d"
        by (auto simp: handle_httpd_msg_def split: bind_splits)
      obtain r ms d' where sa: "bano_dict_set_or_add (b_mls b) d (ucast (hm_key msg)) ?v = (r, ms, d')"
        by (cases "bano_dict_set_or_add (b_mls b) d (ucast (hm_key msg)) ?v") auto
      let ?b = "set_node na (nd\<lparr>keyval_pairs := Some d'\<rparr>) (b\<lparr>b_mls := ms\<rparr>)"
      have "set_node_pair na (hm_key msg) ?v b = Some ?b"
        using nd sa by (simp add: set_node_pair_def)
      from set_node_pair_inv(1) [OF assms(1) na this] have "base_inv ?b" .
      moreover have "complete_httpd_msg lib msg (if r = Err then BANO_IO_ERR_FAILURE else 0) 0 ?b = Some b'"
        using assms(2) BANO_HTTPD_MSG_OP_RST f False nd sa by (simp add: handle_httpd_msg_def)
      ultimately show ?thesis by (rule c)
    qed
  qed
qed

end
