(* ===== verification/Bano_Loop.thy ===== *)
theory Bano_Loop
  imports Bano_Httpd
begin

text \<open>
  The event loop, \<open>bano_start_loop\<close> and its visitors in \<open>src/base/bano_base.c\<close>: pending
  messages, \<open>select\<close>, timers with retries, reading and writing. \<open>select\<close> is a parameter.
  \<open>None\<close> is an access through a dangling or uninitialised pointer, or a run that never ends.
\<close>

section \<open>Reading messages\<close>

definition handle_msg :: "'w base_lib \<Rightarrow> 'w loop_info \<Rightarrow> addr \<Rightarrow> sock_msg \<Rightarrow> 'w base \<Rightarrow> 'w base option" where
  "handle_msg lib linfo sa m b = (case m of
     Bano_Msg m \<Rightarrow> map_option snd (handle_bano_msg lib linfo sa m b)
   | Httpd_Msg m \<Rightarrow> handle_httpd_msg lib m b)"

text \<open>The loop \<open>while (bano_socket_peek(socket, msg) == 0)\<close>.\<close>

partial_function (option) peek_loop :: "'w base_lib \<Rightarrow> 'w loop_info \<Rightarrow> addr \<Rightarrow> 'w base \<Rightarrow> 'w base option" where
  "peek_loop lib linfo sa b =
     Option.bind (socket_at b sa) (\<lambda>s.
       Option.bind (bano_socket_peek (snrf_lib.truncate lib) s (world b)) (\<lambda>(r, w).
         case r of
           None \<Rightarrow> Some (b\<lparr>world := w\<rparr>)
         | Some m \<Rightarrow> Option.bind (handle_msg lib linfo sa m (b\<lparr>world := w\<rparr>)) (peek_loop lib linfo sa)))"

definition peek_msg :: "'w base_lib \<Rightarrow> 'w loop_info \<Rightarrow> addr \<Rightarrow> addr \<Rightarrow> 'w base \<Rightarrow> (bool \<times> 'w base) option" where
  "peek_msg lib linfo it sa b = do {
     s \<leftarrow> socket_at b sa;
     if s_type s = BANO_SOCKET_TYPE_INVALID then Some (False, b)
     else map_option (Pair False) (peek_loop lib linfo sa b)
   }"

text \<open>
  \<open>read_msg\<close>: a message partly read is left for later; any other error closes the socket,
  which frees every node.
\<close>

definition read_msg ::
  "'w base_lib \<Rightarrow> 'w loop_info \<Rightarrow> int set \<Rightarrow> addr \<Rightarrow> addr \<Rightarrow> 'w base \<Rightarrow> (bool \<times> 'w base) option" where
  "read_msg lib linfo fds it sa b = do {
     s \<leftarrow> socket_at b sa;
     fd \<leftarrow> socket_fd lib sa b;
     if fd \<notin> fds then Some (False, b)
     else if s_type s = BANO_SOCKET_TYPE_INVALID then Some (False, b)
     else (case bano_socket_read (snrf_lib.truncate lib) (pipes b) s (world b) of
       (Inl err, w) \<Rightarrow>
         if err = - 2 then Some (False, b\<lparr>world := w\<rparr>)
         else do {
           b1 \<leftarrow> bano_socket_free lib sa (b\<lparr>world := w\<rparr>);
           Some (False, b1\<lparr>b_sockets := seq_del it (b_sockets b1)\<rparr>)
         }
     | (Inr m, w) \<Rightarrow> map_option (Pair False) (handle_msg lib linfo sa m (b\<lparr>world := w\<rparr>)))
   }"

section \<open>The sets given to select\<close>

text \<open>\<open>FD_SET\<close> needs a descriptor below \<open>FD_SETSIZE\<close>.\<close>

definition fd_set :: "int \<Rightarrow> int set \<times> int \<Rightarrow> (int set \<times> int) option" where
  "fd_set fd s = (if fd < 0 \<or> 1024 \<le> fd then None
     else Some (insert fd (fst s), if snd s < fd + 1 then fd + 1 else snd s))"

fun fill_rset :: "'w base_lib \<Rightarrow> 'w base \<Rightarrow> addr items \<Rightarrow> int set \<times> int \<Rightarrow> (int set \<times> int) option" where
  "fill_rset lib b [] s = Some s"
| "fill_rset lib b ((it, sa) # xs) s = do {
     fd \<leftarrow> socket_fd lib sa b;
     s' \<leftarrow> fd_set fd s;
     fill_rset lib b xs s'
   }"

fun fill_wset :: "'w base_lib \<Rightarrow> 'w base \<Rightarrow> addr items \<Rightarrow> int set \<times> int \<Rightarrow> (int set \<times> int) option" where
  "fill_wset lib b [] s = Some s"
| "fill_wset lib b ((it, na) # xs) s = do {
     nd \<leftarrow> node_at b na;
     fd \<leftarrow> socket_fd lib (n_socket nd) b;
     if posted_ios nd = [] then fill_wset lib b xs s
     else do {
       s' \<leftarrow> fd_set fd s;
       fill_wset lib b xs s'
     }
   }"

section \<open>Timers\<close>

text \<open>
  The expiry of an operation's timer: its last retry completes it with a time-out, else it
  is posted again; if even that fails it is completed, through a completion function that
  must not be \<open>NULL\<close>. The item leaves the pending list.
\<close>

definition complete_io :: "'w base_lib \<Rightarrow> addr \<Rightarrow> io \<Rightarrow> 'w base \<Rightarrow> 'w base option" where
  "complete_io lib ioa io b =
     map_option (bano_free_io ioa)
       (compl lib (io_compl_fn io) (io_compl_data io) ioa
         (set_io ioa (io\<lparr>io_compl_err := BANO_IO_ERR_TIMEOUT\<rparr>) b))"

definition io_timer_expired :: "'w base_lib \<Rightarrow> addr \<Rightarrow> addr \<Rightarrow> 'w base \<Rightarrow> 'w base option" where
  "io_timer_expired lib na it b = do {
     nd \<leftarrow> node_at b na;
     ioa \<leftarrow> map_of (pending_ios nd) it;
     io0 \<leftarrow> io_at b ioa;
     let io = io0\<lparr>io_retry_count := io_retry_count io0 - 1\<rparr>;
     b1 \<leftarrow> (if io_retry_count io0 = 0 then
             (if io_compl_fn io \<noteq> 0 then complete_io lib ioa io b
              else Some (bano_free_io ioa b))
           else do {
             ndp \<leftarrow> node_at b (io_node io);
             (case seq_add_tail (b_mls b) ioa (posted_ios ndp) of
                (Err, ms, _) \<Rightarrow>
                  if io_compl_fn io = 0 then None
                  else complete_io lib ioa io (b\<lparr>b_mls := ms\<rparr>)
              | (Ok, ms, xs) \<Rightarrow>
                  Some (set_io ioa io (set_node (io_node io) (ndp\<lparr>posted_ios := xs\<rparr>) (b\<lparr>b_mls := ms\<rparr>))))
           });
     nd1 \<leftarrow> node_at b1 na;
     if it \<notin> fst ` set (pending_ios nd1) then None
     else Some (set_node na (nd1\<lparr>pending_ios := seq_del it (pending_ios nd1)\<rparr>) b1)
   }"

text \<open>The timer that reached its time; the result is the loop's own timer, 0 when it was it.\<close>

definition timer_expired :: "'w base_lib \<Rightarrow> 'w loop_info \<Rightarrow> addr \<Rightarrow> addr \<Rightarrow> 'w base \<Rightarrow> (addr \<times> 'w base) option" where
  "timer_expired lib linfo loop_timer ti b = do {
     (lt, b1) \<leftarrow> (if ti \<noteq> loop_timer then do {
                   tm \<leftarrow> tm_store (b_timers b) ti;
                   map_option (Pair loop_timer) (io_timer_expired lib (fst (t_data tm)) (snd (t_data tm)) b)
                 }
                 else map_option (\<lambda>f. (0, f b)) (timer_fn linfo));
     t \<leftarrow> bano_timer_del (b_timers b1) ti;
     Some (lt, b1\<lparr>b_timers := t\<rparr>)
   }"

section \<open>The loop\<close>

text \<open>
  \<open>select\<close>: an error, or the number of ready descriptors, the ready sets and the time left.
\<close>

datatype select_result = Select_Error | Select nat "int set" "int set" timeval

record 'w loop_lib = "'w base_lib" +
  select :: "int \<Rightarrow> int set \<Rightarrow> int set \<Rightarrow> timeval option \<Rightarrow> 'w \<Rightarrow> select_result \<times> 'w"

datatype 'w loop_result = Loop_Return rc "'w base" | Loop_Continue addr "'w base"

text \<open>The part of an iteration after \<open>select\<close> returned with \<open>n\<close> ready descriptors.\<close>

definition loop_ready ::
  "'w base_lib \<Rightarrow> 'w loop_info \<Rightarrow> addr \<Rightarrow> (addr \<times> timeval) option \<Rightarrow> nat \<Rightarrow> int set \<Rightarrow> int set \<Rightarrow> timeval
     \<Rightarrow> 'w base \<Rightarrow> 'w loop_result option" where
  "loop_ready lib linfo loop_timer next_timer n rs ws left b = do {
     (err, b1) \<leftarrow> (case next_timer of
         None \<Rightarrow> Some (n, b)
       | Some (ti, _) \<Rightarrow> do {
           tm \<leftarrow> tm_store (b_timers b) ti;
           let tm' = bano_timer_update tm left;
           let t = b_timers b;
           Some (if rel_ms tm' = 0 then 0 else n, b\<lparr>b_timers := t\<lparr>tm_store := (tm_store t)(ti \<mapsto> tm')\<rparr>\<rparr>)
         });
     if err = 0 then do {
       (ti, _) \<leftarrow> next_timer;
       (lt, b2) \<leftarrow> timer_expired lib linfo loop_timer ti b1;
       Some (Loop_Continue lt b2)
     }
     else do {
       (_, b2) \<leftarrow> walk (Some \<circ> b_sockets) (read_msg lib linfo rs) b1;
       (_, b3) \<leftarrow> walk (Some \<circ> b_nodes) (write_msg lib ws) b2;
       Some (Loop_Continue loop_timer b3)
     }
   }"

text \<open>One iteration of \<open>while (1)\<close>.\<close>

definition loop_iter :: "'w loop_lib \<Rightarrow> 'w loop_info \<Rightarrow> addr \<Rightarrow> 'w base \<Rightarrow> 'w loop_result option" where
  "loop_iter llib linfo loop_timer b = (let lib = base_lib.truncate llib in do {
     (r, lt, b0) \<leftarrow> (if loop_timer = 0 \<and> timer_fn linfo \<noteq> None then do {
           (r, ti, ms, t) \<leftarrow> bano_timer_add (b_mls b) (b_timers b) (timer_ms linfo);
           Some (r, ti, b\<lparr>b_mls := ms, b_timers := t\<rparr>)
         }
         else Some (Ok, loop_timer, b));
     if r = Err then Some (Loop_Return Err b0)
     else do {
       (_, b1) \<leftarrow> walk (Some \<circ> b_sockets) (peek_msg lib linfo) b0;
       (rset, n1) \<leftarrow> fill_rset lib b1 (b_sockets b1) ({}, 0);
       (wset, nfd) \<leftarrow> fill_wset lib b1 (b_nodes b1) ({}, n1);
       next_timer \<leftarrow> bano_timer_get_next (b_timers b1);
       if nfd \<noteq> 0 \<or> next_timer \<noteq> None then
         (case select llib nfd rset wset (map_option snd next_timer) (world b1) of
            (Select_Error, w) \<Rightarrow> Some (Loop_Return Err (b1\<lparr>world := w\<rparr>))
          | (Select n rs ws left, w) \<Rightarrow>
              loop_ready lib linfo lt next_timer n rs ws left (b1\<lparr>world := w\<rparr>))
       else Some (Loop_Continue lt b1)
     }
   })"

definition do_new_node :: "'w loop_info \<Rightarrow> addr \<Rightarrow> addr \<Rightarrow> 'w base \<Rightarrow> (bool \<times> 'w base) option" where
  "do_new_node linfo it na b = map_option (\<lambda>f. (False, f na BANO_NODE_REASON_NEW b)) (node_fn linfo)"

text \<open>The loop for a number of iterations.\<close>

fun loop_run :: "nat \<Rightarrow> 'w loop_lib \<Rightarrow> 'w loop_info \<Rightarrow> addr \<Rightarrow> 'w base \<Rightarrow> 'w loop_result option" where
  "loop_run 0 lib linfo lt b = Some (Loop_Continue lt b)"
| "loop_run (Suc n) lib linfo lt b =
     Option.bind (loop_iter lib linfo lt b) (\<lambda>r. case r of
       Loop_Return rc b' \<Rightarrow> Some (Loop_Return rc b')
     | Loop_Continue lt' b' \<Rightarrow> loop_run n lib linfo lt' b')"

definition bano_start_loop :: "nat \<Rightarrow> 'w loop_lib \<Rightarrow> 'w loop_info \<Rightarrow> 'w base \<Rightarrow> 'w loop_result option" where
  "bano_start_loop fuel lib linfo b = do {
     b1 \<leftarrow> (if node_fn linfo \<noteq> None then map_option snd (walk (Some \<circ> b_nodes) (do_new_node linfo) b) else Some b);
     loop_run fuel lib linfo 0 b1
   }"

section \<open>Time-outs and retries\<close>

lemma base_inv_pending_io:
  assumes "base_inv b" "na \<in> nodes_of b" "node_at b na = Some nd" "map_of (pending_ios nd) it = Some ioa"
  shows "ioa \<noteq> 0" "io_at b ioa \<noteq> None" "it \<in> fst ` set (pending_ios nd)" "ioa \<notin> snd ` set (posted_ios nd)"
proof -
  have ok: "base_node_ok b na nd" using assms(1-3) by (auto simp: base_inv_def intro: base_wf_node)
  have m: "(it, ioa) \<in> set (pending_ios nd)" using assms(4) by (rule map_of_SomeD)
  then have "ioa \<in> set (node_ios nd)" unfolding node_ios_def by force
  with ok show "ioa \<noteq> 0" "io_at b ioa \<noteq> None" unfolding base_node_ok_def by blast+
  show "it \<in> fst ` set (pending_ios nd)" using m by force
  have "ioa \<in> snd ` set (pending_ios nd)" using m by force
  with ok show "ioa \<notin> snd ` set (posted_ios nd)" by (auto simp: base_node_ok_def node_ios_def)
qed

text \<open>
  A time-out with retries left posts the operation again, at the end of its node's list, with
  one retry less.
\<close>

lemma io_timer_expired_retry:
  assumes "base_inv b" "na \<in> nodes_of b" "node_at b na = Some nd"
    and "map_of (pending_ios nd) it = Some ioa" "io_at b ioa = Some io" "io_node io = na"
    and "io_retry_count io \<noteq> 0" "b_mls b = p # ms" "p \<noteq> 0"
  shows "\<exists>b'. io_timer_expired lib na it b = Some b'
    \<and> node_at b' = (node_at b)(na \<mapsto> nd\<lparr>posted_ios := posted_ios nd @ [(p, ioa)],
          pending_ios := seq_del it (pending_ios nd)\<rparr>)
    \<and> io_at b' = (io_at b)(ioa \<mapsto> io\<lparr>io_retry_count := io_retry_count io - 1\<rparr>)
    \<and> b_mls b' = ms \<and> world b' = world b \<and> b_timers b' = b_timers b"
proof -
  note p = base_inv_pending_io [OF assms(1-4)]
  let ?b1 = "set_io ioa (io\<lparr>io_retry_count := io_retry_count io - 1\<rparr>)
      (set_node na (nd\<lparr>posted_ios := posted_ios nd @ [(p, ioa)]\<rparr>) (b\<lparr>b_mls := ms\<rparr>))"
  let ?b = "set_node na (nd\<lparr>posted_ios := posted_ios nd @ [(p, ioa)], pending_ios := seq_del it (pending_ios nd)\<rparr>) ?b1"
  have "io_timer_expired lib na it b = Some ?b"
    using assms(3-9) p(3) by (simp add: io_timer_expired_def Let_def seq_add_tail_def)
  then show ?thesis by (intro exI [of _ ?b]) (simp add: set_io_def set_node_def)
qed

text \<open>
  A time-out without retries left completes the operation with a time-out error and frees it.
\<close>

lemma io_timer_expired_timeout:
  assumes "base_inv b" "na \<in> nodes_of b" "node_at b na = Some nd"
    and "map_of (pending_ios nd) it = Some ioa" "io_at b ioa = Some io"
    and "io_retry_count io = 0" "io_compl_fn io \<noteq> 0" "compl_world lib g"
  shows "\<exists>b'. io_timer_expired lib na it b = Some b'
    \<and> node_at b' = (node_at b)(na \<mapsto> nd\<lparr>pending_ios := seq_del it (pending_ios nd)\<rparr>)
    \<and> io_at b' = (io_at b)(ioa := None) \<and> b_timers b' = b_timers b
    \<and> world b' = g (io_compl_fn io) (io_compl_data io)
        (io\<lparr>io_retry_count := - 1, io_compl_err := BANO_IO_ERR_TIMEOUT\<rparr>) (world b)"
proof -
  note p = base_inv_pending_io [OF assms(1-4)]
  let ?io = "io\<lparr>io_retry_count := - 1\<rparr>"
  let ?w = "g (io_compl_fn io) (io_compl_data io) (?io\<lparr>io_compl_err := BANO_IO_ERR_TIMEOUT\<rparr>) (world b)"
  let ?b1 = "bano_free_io ioa ((set_io ioa (?io\<lparr>io_compl_err := BANO_IO_ERR_TIMEOUT\<rparr>) b)\<lparr>world := ?w\<rparr>)"
  let ?b = "set_node na (nd\<lparr>pending_ios := seq_del it (pending_ios nd)\<rparr>) ?b1"
  have "complete_io lib ioa ?io b = Some ?b1"
    using assms(8) by (simp add: complete_io_def compl_world_def set_io_def)
  then have "io_timer_expired lib na it b = Some ?b"
    using assms(3-7) p(3) by (simp add: io_timer_expired_def Let_def)
  then show ?thesis
    by (intro exI [of _ ?b]) (simp add: bano_free_io_def set_io_def set_node_def)
qed

section \<open>A broken socket\<close>

text \<open>
  A read error frees every node, but not their items in the list: the walk that writes to the
  nodes, in the same iteration, follows a dangling pointer.
\<close>

lemma read_error_frees_nodes:
  assumes "socket_at b sa = Some s" "socket_fd lib sa b = Some fd" "fd \<in> fds"
    and "s_type s \<noteq> BANO_SOCKET_TYPE_INVALID"
    and "bano_socket_read (snrf_lib.truncate lib) (pipes b) s (world b) = (Inl err, w)" "err \<noteq> - 2"
    and "read_msg lib linfo fds it sa b = Some (stop, b')" "na \<in> nodes_of b"
  shows "node_at b' na = None \<and> b_nodes b' = b_nodes b"
proof -
  from assms(1-7) obtain b1 where b1: "bano_socket_free lib sa (b\<lparr>world := w\<rparr>) = Some b1"
      "b' = b1\<lparr>b_sockets := seq_del it (b_sockets b1)\<rparr>"
    by (auto simp: read_msg_def split: bind_splits)
  have n: "b_nodes (fold bano_free_io as c) = b_nodes c" for as and c :: "'a base"
    by (induction as arbitrary: c) simp_all
  have keep: "free_nodes xs c = Some c' \<Longrightarrow> b_nodes c' = b_nodes c" for xs and c c' :: "'a base"
    by (induction xs c rule: free_nodes.induct) (auto simp: n split: bind_splits)
  have "node_at b1 na = None" "b_nodes b1 = b_nodes b"
    using b1(1) assms(8) by (auto simp: bano_socket_free_def nodes_of_def split: bind_splits
        dest: free_nodes_gone keep)
  with b1(2) show ?thesis by simp
qed

lemma write_to_freed_node:
  assumes "b_nodes b = (it, na) # xs" "it \<noteq> 0" "node_at b na = None"
  shows "walk (Some \<circ> b_nodes) (write_msg lib fds) b = None"
  using assms by (simp add: walk_def seq_head_def walk_at.simps write_msg_def)

end
