(* ===== verification/Bano_Parser.thy ===== *)
theory Bano_Parser
  imports Bano_List Bano_String
begin

text \<open>
  The parser of configuration and description files, \<open>src/base/bano_parser.c\<close>: tokens
  separated by blanks and comments, structures of key and value pairs, and include
  directives. Files come from a parameter that gives the contents of a path. Recursion through
  includes has a fuel; a result that fuel does not reach is \<open>None\<close>.
\<close>

section \<open>Tokens\<close>

definition is_space :: "char \<Rightarrow> bool" where
  "is_space c \<longleftrightarrow> c = CHR '' '' \<or> c = CHR 0x09"

definition is_nl :: "char \<Rightarrow> bool" where
  "is_nl c \<longleftrightarrow> c = CHR 0x0D \<or> c = CHR 0x0A"

definition is_white :: "char \<Rightarrow> bool" where
  "is_white c \<longleftrightarrow> is_nl c \<or> is_space c"

definition is_comment :: "char \<Rightarrow> bool" where
  "is_comment c \<longleftrightarrow> c = CHR ''#''"

definition is_directive :: "char \<Rightarrow> bool" where
  "is_directive c \<longleftrightarrow> c = CHR ''.''"

definition is_include_directive :: "string \<Rightarrow> nat \<Rightarrow> bool" where
  "is_include_directive s n \<longleftrightarrow> n = 8 \<and> take 8 s = ''.include''"

fun skip_whites :: "string \<Rightarrow> nat" where
  "skip_whites [] = 0"
| "skip_whites (c # s) = (if is_white c then Suc (skip_whites s) else 0)"

text \<open>To the end of the line, the newline included.\<close>

fun skip_comment :: "string \<Rightarrow> nat" where
  "skip_comment [] = 0"
| "skip_comment (c # s) = (if is_nl c then 1 else Suc (skip_comment s))"

lemma skip_whites_le: "skip_whites s \<le> length s"
  by (induction s) auto

lemma skip_comment_le: "skip_comment s \<le> length s"
  by (induction s) auto

lemma skip_comment_pos: "s \<noteq> [] \<Longrightarrow> 0 < skip_comment s"
  by (cases s) auto

function skip_comments_and_whites :: "string \<Rightarrow> nat" where
  "skip_comments_and_whites s =
     (if s = [] then 0
      else let i = (if is_white (hd s) then skip_whites s else 0) in
        if i = length s then i
        else if \<not> is_comment (s ! i) then i
        else let j = i + skip_comment (drop i s) in j + skip_comments_and_whites (drop j s))"
  by pat_completeness auto

termination
proof (relation "measure length")
  fix s :: string and i j
  assume s: "s \<noteq> []" and i: "i = (if is_white (hd s) then skip_whites s else 0)" "i \<noteq> length s"
    and j: "j = i + skip_comment (drop i s)"
  have "i < length s" using i skip_whites_le [of s] s by (auto split: if_splits)
  then have "0 < j" using j skip_comment_pos [of "drop i s"] by simp
  with s show "(drop j s, s) \<in> measure length" by simp
qed simp

declare skip_comments_and_whites.simps [simp del]

text \<open>The offset and the size of the next token.\<close>

definition token_size :: "string \<Rightarrow> nat" where
  "token_size s = length (takeWhile (\<lambda>c. \<not> (is_space c \<or> is_nl c)) s)"

definition next_token :: "string \<Rightarrow> nat \<times> nat" where
  "next_token s = (let t = skip_comments_and_whites s in (t, token_size (drop t s)))"

text \<open>No access is past the end of the text.\<close>

lemma skip_comments_and_whites_le: "skip_comments_and_whites s \<le> length s"
proof (induction s rule: skip_comments_and_whites.induct)
  case (1 s)
  define i where "i = (if is_white (hd s) then skip_whites s else 0)"
  define j where "j = i + skip_comment (drop i s)"
  have i: "i \<le> length s" by (simp add: i_def skip_whites_le)
  then have j: "j \<le> length s" using skip_comment_le [of "drop i s"] by (simp add: j_def)
  have "skip_comments_and_whites (drop j s) \<le> length (drop j s)"
    if "s \<noteq> []" "i \<noteq> length s" "is_comment (s ! i)"
    using 1 [OF that(1) i_def that(2) _ j_def] that(3) by simp
  with i j show ?case
    by (subst skip_comments_and_whites.simps) (auto simp: Let_def simp flip: i_def j_def)
qed

lemma token_size_le: "token_size s \<le> length s"
  by (simp add: token_size_def length_takeWhile_le)

lemma next_token_bounds: "next_token s = (t, m) \<Longrightarrow> t + m \<le> length s"
  using skip_comments_and_whites_le [of s] token_size_le [of "drop (skip_comments_and_whites s) s"]
  by (auto simp: next_token_def Let_def)

section \<open>Pairs and structures\<close>

record parser_pair =
  pp_key :: bano_string
  pp_val :: bano_string

record parser_struct =
  ps_name :: bano_string
  ps_pairs :: "parser_pair items"

text \<open>\<open>None\<close> stands for \<open>(size_t)-1\<close>.\<close>

definition parse_pair :: "string \<Rightarrow> (parser_pair \<times> nat) option" where
  "parse_pair s =
     (case next_token s of (t0, n0) \<Rightarrow>
       if n0 = 0 then None
       else let key = take n0 (drop t0 s); i = t0 + n0 in
         (case next_token (drop i s) of (t1, n1) \<Rightarrow>
           if n1 = 0 then None
           else let i = i + (t1 + n1) in
             (case next_token (drop i s) of (t2, n2) \<Rightarrow>
               if n2 = 0 then None
               else let i = i + t2 in
                 Some (\<lparr>pp_key = key, pp_val = take n2 (drop i s)\<rparr>, i + n2))))"

lemma parse_pair_size: "parse_pair s = Some (p, j) \<Longrightarrow> 0 < j \<and> j \<le> length s"
  by (auto simp: parse_pair_def Let_def split: prod.splits if_splits
      dest!: next_token_bounds)

text \<open>
  The loop on the pairs, after the opening brace: the pairs (with the addresses of their list
  items) and the size up to and including the closing brace. A pair takes two allocations.
\<close>

function parse_pairs :: "mallocs \<Rightarrow> parser_pair items \<Rightarrow> string
    \<Rightarrow> mallocs \<times> (parser_pair items \<times> nat) option" where
  "parse_pairs ms ps s =
     (case next_token s of (t, n) \<Rightarrow>
       if n = 0 then (ms, None)
       else if n = 1 \<and> s ! t = CHR ''}'' then (ms, Some (ps, t + 1))
       else (case malloc ms of (pair, ms1) \<Rightarrow>
         if pair = 0 then (ms1, None)
         else (case malloc ms1 of (it, ms2) \<Rightarrow>
           if it = 0 then (ms2, None)
           else (case parse_pair s of
             None \<Rightarrow> (ms2, None)
           | Some (p, j) \<Rightarrow>
               (case parse_pairs ms2 (ps @ [(it, p)]) (drop j s) of
                  (ms3, None) \<Rightarrow> (ms3, None)
                | (ms3, Some (ps', k)) \<Rightarrow> (ms3, Some (ps', j + k)))))))"
  by pat_completeness auto

termination
  by (relation "measure (\<lambda>(ms, ps, s). length s)")
    (auto dest!: parse_pair_size next_token_bounds)

declare parse_pairs.simps [simp del]

definition parse_struct :: "mallocs \<Rightarrow> string \<Rightarrow> mallocs \<times> (parser_struct \<times> nat) option" where
  "parse_struct ms s =
     (case next_token s of (t0, n0) \<Rightarrow>
       if n0 = 0 then (ms, None)
       else let name = take n0 (drop t0 s); i = t0 + n0 in
         (case next_token (drop i s) of (t1, n1) \<Rightarrow>
           if n1 \<noteq> 1 \<or> s ! (i + t1) \<noteq> CHR ''{'' then (ms, None)
           else let i = i + t1 + 1 in
             (case parse_pairs ms [] (drop i s) of
                (ms', None) \<Rightarrow> (ms', None)
              | (ms', Some (ps, k)) \<Rightarrow> (ms', Some (\<lparr>ps_name = name, ps_pairs = ps\<rparr>, i + k)))))"

lemma parse_pairs_size:
  "parse_pairs ms ps s = (ms', Some (ps', j)) \<Longrightarrow> 0 < j \<and> j \<le> length s"
proof (induction ms ps s arbitrary: ms' ps' j rule: parse_pairs.induct)
  case (1 ms ps s)
  obtain t n where tn: "next_token s = (t, n)" by fastforce
  note b = next_token_bounds [OF tn]
  show ?case
  proof (cases "n = 0 \<or> n = 1 \<and> s ! t = CHR ''}''")
    case True
    with 1(2) tn b show ?thesis by (subst (asm) parse_pairs.simps) (auto split: if_splits)
  next
    case False
    obtain pair ms1 it ms2 where m: "malloc ms = (pair, ms1)" "malloc ms1 = (it, ms2)" by fastforce
    from 1(2) False tn m obtain p k kk where p: "pair \<noteq> 0" "it \<noteq> 0" "parse_pair s = Some (p, k)"
        "parse_pairs ms2 (ps @ [(it, p)]) (drop k s) = (ms', Some (ps', kk))" "j = k + kk"
      by (subst (asm) parse_pairs.simps) (auto split: if_splits option.splits prod.splits)
    from 1(1) [OF tn [symmetric] _ _ m(1) [symmetric] p(1) m(2) [symmetric] p(2,3) refl p(4)] False
    have "0 < kk \<and> kk \<le> length (drop k s)" by auto
    with parse_pair_size [OF p(3)] p(5) show ?thesis by auto
  qed
qed

lemma parse_struct_size: "parse_struct ms s = (ms', Some (st, j)) \<Longrightarrow> 0 < j \<and> j \<le> length s"
  by (auto simp: parse_struct_def Let_def split: prod.splits if_splits option.splits
      dest!: next_token_bounds parse_pairs_size)

section \<open>Files and the parser's state\<close>

text \<open>
  \<open>top_dir\<close> is the first \<open>top_len\<close> characters of the field; \<open>bufs\<close> holds the addresses of
  file buffers. \<open>live\<close> is the set of the buffers that are allocated: freeing another one is a
  fault.
\<close>

record parser =
  top_dir :: string
  structs :: "parser_struct items"
  bufs :: "addr items"
  cstrs :: "string items"

record pstate =
  psr :: parser
  mls :: mallocs
  live :: "addr set"

datatype 'a outcome = Running | Fault | Done 'a

definition BANO_PARSER_PATHLEN :: nat where
  "BANO_PARSER_PATHLEN = 256"

text \<open>
  \<open>fs\<close> gives the contents of the files that can be opened. Mapping an empty file fails, as
  \<open>mmap\<close> does with length 0.
\<close>

definition alloc_mmap_buf :: "(string \<Rightarrow> string option) \<Rightarrow> string \<Rightarrow> pstate \<Rightarrow> pstate \<times> (addr \<times> string) option" where
  "alloc_mmap_buf fs path st =
     (case fs path of None \<Rightarrow> (st, None)
      | Some data \<Rightarrow>
        (case malloc (mls st) of (buf, ms') \<Rightarrow>
          if buf = 0 then (st\<lparr>mls := ms'\<rparr>, None)
          else if data = [] then (st\<lparr>mls := ms'\<rparr>, None)
          else (st\<lparr>mls := ms', live := insert buf (live st)\<rparr>, Some (buf, data))))"

definition free_buf :: "addr \<Rightarrow> pstate \<Rightarrow> pstate option" where
  "free_buf buf st = (if buf \<in> live st then Some (st\<lparr>live := live st - {buf}\<rparr>) else None)"

fun free_bufs :: "addr items \<Rightarrow> pstate \<Rightarrow> pstate option" where
  "free_bufs [] st = Some st"
| "free_bufs ((it, buf) # xs) st = Option.bind (free_buf buf st) (free_bufs xs)"

section \<open>Directives and files\<close>

text \<open>
  \<open>rec\<close> is \<open>parse_buf\<close> on the included file. A directive other than \<open>.include\<close> is accepted
  with size 0.
\<close>

definition parse_directive ::
  "(pstate \<Rightarrow> string \<Rightarrow> (pstate \<times> nat option) outcome) \<Rightarrow> (string \<Rightarrow> string option)
     \<Rightarrow> pstate \<Rightarrow> string \<Rightarrow> (pstate \<times> nat option) outcome" where
  "parse_directive rec fs st s =
     (case next_token s of (t0, n0) \<Rightarrow>
       if n0 = 0 \<or> \<not> is_directive (s ! t0) then Done (st, None)
       else if is_include_directive (drop t0 s) n0 then
         let i = t0 + n0 in
         (case next_token (drop i s) of (t1, n1) \<Rightarrow>
           if n1 = 0 \<or> BANO_PARSER_PATHLEN \<le> length (top_dir (psr st)) + n1 then Done (st, None)
           else
             (case alloc_mmap_buf fs (c_str (top_dir (psr st) @ take n1 (drop (i + t1) s))) st of
                (st1, None) \<Rightarrow> Done (st1, None)
              | (st1, Some (buf, data)) \<Rightarrow>
                (case rec st1 data of
                   Running \<Rightarrow> Running
                 | Fault \<Rightarrow> Fault
                 | Done (st2, None) \<Rightarrow>
                     (case free_buf buf st2 of None \<Rightarrow> Fault | Some st3 \<Rightarrow> Done (st3, None))
                 | Done (st2, Some _) \<Rightarrow>
                     (case seq_add_tail (mls st2) buf (bufs (psr st2)) of
                        (Err, ms', _) \<Rightarrow>
                          (case free_buf buf (st2\<lparr>mls := ms'\<rparr>) of None \<Rightarrow> Fault
                           | Some st3 \<Rightarrow> Done (st3, None))
                      | (Ok, ms', bs) \<Rightarrow>
                          Done (st2\<lparr>mls := ms', psr := (psr st2)\<lparr>bufs := bs\<rparr>\<rparr>, Some (i + (t1 + n1)))))))
       else Done (st, Some 0))"

text \<open>
  The structure is in the list before it is parsed; after an error the lists are only freed,
  and the model leaves an unfinished structure out of them.
\<close>

definition parse_directive_or_struct ::
  "(pstate \<Rightarrow> string \<Rightarrow> (pstate \<times> nat option) outcome) \<Rightarrow> (string \<Rightarrow> string option)
     \<Rightarrow> pstate \<Rightarrow> string \<Rightarrow> (pstate \<times> nat option) outcome" where
  "parse_directive_or_struct rec fs st s =
     (case next_token s of (t, n) \<Rightarrow>
       if n = 0 then Done (st, Some t)
       else if is_directive (s ! t) then parse_directive rec fs st s
       else
         (case malloc (mls st) of (strukt, ms1) \<Rightarrow>
           if strukt = 0 then Done (st\<lparr>mls := ms1\<rparr>, None)
           else (case malloc ms1 of (it, ms2) \<Rightarrow>
             if it = 0 then Done (st\<lparr>mls := ms2\<rparr>, None)
             else (case parse_struct ms2 s of
               (ms3, None) \<Rightarrow> Done (st\<lparr>mls := ms3\<rparr>, None)
             | (ms3, Some (x, j)) \<Rightarrow>
                 Done (st\<lparr>mls := ms3, psr := (psr st)\<lparr>structs := structs (psr st) @ [(it, x)]\<rparr>\<rparr>, Some j)))))"

text \<open>The fuel bounds the iterations of the loop and the depth of includes.\<close>

fun parse_buf :: "nat \<Rightarrow> (string \<Rightarrow> string option) \<Rightarrow> pstate \<Rightarrow> string \<Rightarrow> (pstate \<times> nat option) outcome" where
  "parse_buf 0 fs st s = Running"
| "parse_buf (Suc fuel) fs st s =
     (if s = [] then Done (st, Some 0)
      else (case parse_directive_or_struct (parse_buf fuel fs) fs st s of
        Running \<Rightarrow> Running
      | Fault \<Rightarrow> Fault
      | Done (st1, None) \<Rightarrow> Done (st1, None)
      | Done (st1, Some j) \<Rightarrow>
          (case parse_buf fuel fs st1 (drop j s) of
             Running \<Rightarrow> Running
           | Fault \<Rightarrow> Fault
           | Done (st2, None) \<Rightarrow> Done (st2, None)
           | Done (st2, Some k) \<Rightarrow> Done (st2, Some (j + k)))))"

text \<open>The position of the last slash, 0 without one; a path of 257 characters is refused.\<close>

fun dir_end :: "nat \<Rightarrow> nat \<Rightarrow> string \<Rightarrow> nat option" where
  "dir_end i j [] = Some j"
| "dir_end i j (c # cs) =
     (if i = BANO_PARSER_PATHLEN then None
      else dir_end (Suc i) (if c = CHR ''/'' then i else j) cs)"

definition get_dirname :: "string \<Rightarrow> string option" where
  "get_dirname path =
     (case dir_end 0 0 path of None \<Rightarrow> None | Some j \<Rightarrow> Some (take (j + 1) (path @ [CHR 0x00])))"

definition parser_init :: parser where
  "parser_init = \<lparr>top_dir = [], structs = [], bufs = [], cstrs = []\<rparr>"

definition bano_parser_fini :: "pstate \<Rightarrow> pstate option" where
  "bano_parser_fini st =
     map_option (\<lambda>st'. st'\<lparr>psr := (psr st')\<lparr>structs := [], bufs := [], cstrs := []\<rparr>\<rparr>)
       (free_bufs (bufs (psr st)) st)"

text \<open>
  After a parse error \<open>on_error_2\<close> frees the lists, and falls through to \<open>on_error_1\<close>, which
  frees the file's buffer.
\<close>

definition bano_parser_load_file ::
  "nat \<Rightarrow> (string \<Rightarrow> string option) \<Rightarrow> mallocs \<Rightarrow> addr set \<Rightarrow> string \<Rightarrow> (rc \<times> pstate) outcome" where
  "bano_parser_load_file fuel fs ms lv path =
     (let st0 = \<lparr>psr = parser_init, mls = ms, live = lv\<rparr> in
      case get_dirname path of None \<Rightarrow> Done (Err, st0)
      | Some d \<Rightarrow>
        let st1 = st0\<lparr>psr := (psr st0)\<lparr>top_dir := d\<rparr>\<rparr> in
        (case alloc_mmap_buf fs path st1 of
           (st2, None) \<Rightarrow> Done (Err, st2)
         | (st2, Some (buf, data)) \<Rightarrow>
           (case seq_add_tail (mls st2) buf (bufs (psr st2)) of
              (Err, ms', _) \<Rightarrow>
                (case free_buf buf (st2\<lparr>mls := ms'\<rparr>) of None \<Rightarrow> Fault | Some st3 \<Rightarrow> Done (Err, st3))
            | (Ok, ms', bs) \<Rightarrow>
                (case parse_buf fuel fs (st2\<lparr>mls := ms', psr := (psr st2)\<lparr>bufs := bs\<rparr>\<rparr>) data of
                   Running \<Rightarrow> Running
                 | Fault \<Rightarrow> Fault
                 | Done (st3, Some _) \<Rightarrow> Done (Ok, st3)
                 | Done (st3, None) \<Rightarrow>
                     (case bano_parser_fini st3 of None \<Rightarrow> Fault
                      | Some st4 \<Rightarrow>
                          (case free_buf buf st4 of None \<Rightarrow> Fault | Some st5 \<Rightarrow> Done (Err, st5)))))))"

definition bano_parser_foreach_struct ::
  "parser \<Rightarrow> (parser_struct \<Rightarrow> 's \<Rightarrow> bool \<times> 's) \<Rightarrow> 's \<Rightarrow> rc \<times> 's" where
  "bano_parser_foreach_struct p f s = foreach_until f (map snd (structs p)) s"

definition bano_parser_foreach_pair ::
  "parser_struct \<Rightarrow> (parser_pair \<Rightarrow> 's \<Rightarrow> bool \<times> 's) \<Rightarrow> 's \<Rightarrow> rc \<times> 's" where
  "bano_parser_foreach_pair x f s = foreach_until f (map snd (ps_pairs x)) s"

text \<open>
  Searching by name from the item after \<open>itp\<close>, or from the head when it is \<open>NULL\<close>; the
  result is the item found.
\<close>

definition find_item :: "('d \<Rightarrow> bano_string) \<Rightarrow> string \<Rightarrow> addr \<times> 'd \<Rightarrow> addr option \<Rightarrow> bool \<times> addr option" where
  "find_item name s x r = (if bano_string_cmp_cstr (name (snd x)) s = Err then (False, r) else (True, Some (fst x)))"

definition items_from :: "addr \<Rightarrow> 'd items \<Rightarrow> 'd items" where
  "items_from itp xs = (if itp = 0 then xs else drop 1 (dropWhile (\<lambda>x. fst x \<noteq> itp) xs))"

definition bano_parser_find_struct :: "parser \<Rightarrow> addr \<Rightarrow> string \<Rightarrow> addr option" where
  "bano_parser_find_struct p itp name =
     snd (foreach_until (find_item ps_name name) (items_from itp (structs p)) None)"

definition bano_parser_find_pair :: "parser_struct \<Rightarrow> addr \<Rightarrow> string \<Rightarrow> addr option" where
  "bano_parser_find_pair x itp key =
     snd (foreach_until (find_item pp_key key) (items_from itp (ps_pairs x)) None)"

definition bano_parser_add_cstr :: "pstate \<Rightarrow> bano_string \<Rightarrow> pstate \<times> string option" where
  "bano_parser_add_cstr st s =
     (case bano_string_to_cstr (mls st) s of
        (ms1, None) \<Rightarrow> (st\<lparr>mls := ms1\<rparr>, None)
      | (ms1, Some c) \<Rightarrow>
          (case seq_add_tail ms1 c (cstrs (psr st)) of
             (Err, ms2, _) \<Rightarrow> (st\<lparr>mls := ms2\<rparr>, None)
           | (Ok, ms2, cs) \<Rightarrow> (st\<lparr>mls := ms2, psr := (psr st)\<lparr>cstrs := cs\<rparr>\<rparr>, Some c)))"

section \<open>A text is consumed to its end\<close>

lemma skip_whites_stop: "skip_whites s < length s \<Longrightarrow> \<not> is_white (s ! skip_whites s)"
  by (induction s) auto

lemma skip_comments_and_whites_stop:
  "skip_comments_and_whites s < length s \<Longrightarrow> \<not> is_white (s ! skip_comments_and_whites s)"
proof (induction s rule: skip_comments_and_whites.induct)
  case (1 s)
  define i where "i = (if is_white (hd s) then skip_whites s else 0)"
  define j where "j = i + skip_comment (drop i s)"
  have s: "s \<noteq> []" using 1(2) by (auto simp: skip_comments_and_whites.simps)
  have i: "i \<le> length s" by (simp add: i_def skip_whites_le)
  consider "i = length s" | "i < length s" "\<not> is_comment (s ! i)" | "i < length s" "is_comment (s ! i)"
    using i by linarith
  then show ?case
  proof cases
    case 1
    with \<open>skip_comments_and_whites s < length s\<close> s show ?thesis
      by (simp add: skip_comments_and_whites.simps Let_def flip: i_def)
  next
    case 2
    have "\<not> is_white (s ! i)"
      using skip_whites_stop [of s] 2(1) s by (auto simp: i_def hd_conv_nth)
    with 2 s show ?thesis
      by (subst skip_comments_and_whites.simps) (simp add: Let_def flip: i_def)
  next
    case 3
    then have e: "skip_comments_and_whites s = j + skip_comments_and_whites (drop j s)"
      using s by (subst skip_comments_and_whites.simps) (simp add: Let_def flip: i_def j_def)
    have j: "j \<le> length s" using i skip_comment_le [of "drop i s"] by (simp add: j_def)
    have "\<not> is_white (drop j s ! skip_comments_and_whites (drop j s))"
      using 1(1) [OF s i_def _ _ j_def] 1(2) 3 e by simp
    with e j show ?thesis by simp
  qed
qed

lemma next_token_empty: "next_token s = (t, 0) \<Longrightarrow> t = length s"
proof (rule ccontr)
  assume t: "next_token s = (t, 0)" "t \<noteq> length s"
  then have *: "t = skip_comments_and_whites s" "t < length s" "token_size (drop t s) = 0"
    using skip_comments_and_whites_le [of s] by (auto simp: next_token_def Let_def)
  then obtain c r where cr: "drop t s = c # r" by (metis Cons_nth_drop_Suc)
  then have "c = s ! t" using * by (metis Cons_nth_drop_Suc list.inject)
  with * cr have "is_white (s ! t)" by (auto simp: token_size_def is_white_def split: if_splits)
  with * skip_comments_and_whites_stop [of s] show False by simp
qed

lemma parse_directive_size:
  "parse_directive rec fs st s = Done (st', Some j) \<Longrightarrow> j \<le> length s"
  by (auto simp: parse_directive_def Let_def
      split: prod.splits if_splits option.splits outcome.splits rc.splits dest!: next_token_bounds)

lemma parse_directive_or_struct_size:
  assumes "parse_directive_or_struct rec fs st s = Done (st', Some j)"
  shows "j \<le> length s"
proof -
  have "n = 0 \<Longrightarrow> next_token s = (t, n) \<Longrightarrow> t = length s" for t n
    using next_token_empty by simp
  with assms show ?thesis
    by (auto simp: parse_directive_or_struct_def split: prod.splits if_splits option.splits
        dest: parse_directive_size parse_struct_size)
qed

lemma parse_buf_consumes: "parse_buf fuel fs st s = Done (st', Some k) \<Longrightarrow> k = length s"
proof (induction fuel fs st s arbitrary: st' k rule: parse_buf.induct)
  case (2 fuel fs st s)
  show ?case
  proof (cases "s = []")
    case False
    with 2(3) obtain st1 j k' where j: "parse_directive_or_struct (parse_buf fuel fs) fs st s = Done (st1, Some j)"
        "parse_buf fuel fs st1 (drop j s) = Done (st', Some k')" "k = j + k'"
      by (auto split: outcome.splits prod.splits option.splits)
    from 2(2) [OF False j(1) refl refl j(2)] j(3) parse_directive_or_struct_size [OF j(1)]
    show ?thesis by simp
  qed (use 2 in auto)
qed simp

section \<open>Fuel\<close>

lemma parse_directive_mono:
  assumes "\<And>st d. r st d \<noteq> Running \<Longrightarrow> r' st d = r st d" "parse_directive r fs st s \<noteq> Running"
  shows "parse_directive r' fs st s = parse_directive r fs st s"
proof -
  have "parse_directive r fs st s \<noteq> Running \<Longrightarrow> r st1 d \<noteq> Running \<or> r' st1 d = r st1 d \<or> r st1 d = Running"
    for st1 d by blast
  then show ?thesis
    using assms unfolding parse_directive_def Let_def
    by (auto split: prod.splits option.splits if_splits outcome.splits)
qed

lemma parse_directive_or_struct_mono:
  assumes "\<And>st d. r st d \<noteq> Running \<Longrightarrow> r' st d = r st d" "parse_directive_or_struct r fs st s \<noteq> Running"
  shows "parse_directive_or_struct r' fs st s = parse_directive_or_struct r fs st s"
  using assms parse_directive_mono [of r r' fs st s, OF assms(1)]
  unfolding parse_directive_or_struct_def by (auto split: prod.splits if_splits)

text \<open>More fuel does not change a result.\<close>

lemma parse_buf_mono:
  "parse_buf fuel fs st s \<noteq> Running \<Longrightarrow> fuel \<le> fuel' \<Longrightarrow> parse_buf fuel' fs st s = parse_buf fuel fs st s"
proof (induction fuel arbitrary: fuel' st s)
  case (Suc fuel)
  then obtain f' where f': "fuel' = Suc f'" "fuel \<le> f'" by (cases fuel') auto
  have ih: "parse_buf fuel fs st d \<noteq> Running \<Longrightarrow> parse_buf f' fs st d = parse_buf fuel fs st d" for st d
    using Suc.IH f'(2) by blast
  show ?case
  proof (cases "s = []")
    case False
    with Suc.prems(1) have nr: "parse_directive_or_struct (parse_buf fuel fs) fs st s \<noteq> Running"
      by auto
    have e: "parse_directive_or_struct (parse_buf f' fs) fs st s = parse_directive_or_struct (parse_buf fuel fs) fs st s"
      by (rule parse_directive_or_struct_mono [OF ih nr])
    show ?thesis
    proof (cases "parse_directive_or_struct (parse_buf fuel fs) fs st s")
      case (Done x)
      obtain st1 o1 where x: "x = (st1, o1)" by fastforce
      show ?thesis
      proof (cases o1)
        case (Some j)
        with False Done x Suc.prems(1) have "parse_buf fuel fs st1 (drop j s) \<noteq> Running" by auto
        from ih [OF this] False Done x Some e f' show ?thesis by simp
      qed (use False Done x e f' in simp)
    qed (use False e f' in simp_all)
  qed (use f' in simp)
qed simp

text \<open>
  A directive other than \<open>.include\<close> at the start of a text is never passed: the loop of
  \<open>parse_buf\<close> does not end.
\<close>

lemma parse_buf_unknown_directive:
  assumes "next_token s = (t, n)" "n \<noteq> 0" "is_directive (s ! t)" "\<not> is_include_directive (drop t s) n"
  shows "parse_buf fuel fs st s = Running"
proof (induction fuel arbitrary: st)
  case (Suc fuel)
  have "s \<noteq> []" using assms(1,2) next_token_bounds [of s t n] by auto
  moreover have "parse_directive_or_struct (parse_buf fuel fs) fs st s = Done (st, Some 0)"
    using assms by (simp add: parse_directive_or_struct_def parse_directive_def)
  ultimately show ?case using Suc by simp
qed simp

section \<open>Buffers\<close>

lemma seq_add_tail_Ok: "seq_add_tail ms d xs = (Ok, ms', ys) \<Longrightarrow> \<exists>a. ys = xs @ [(a, d)]"
  by (auto simp: seq_add_tail_def split: prod.splits if_splits)

text \<open>Parsing only adds buffers.\<close>

lemma parse_directive_bufs:
  assumes "\<And>st d st' x. r st d = Done (st', x) \<Longrightarrow> prefix (bufs (psr st)) (bufs (psr st'))"
    and "parse_directive r fs st s = Done (st', x)"
  shows "prefix (bufs (psr st)) (bufs (psr st'))"
proof -
  have mm: "alloc_mmap_buf fs p st = (st1, x) \<Longrightarrow> psr st1 = psr st" for p st1 x
    by (auto simp: alloc_mmap_buf_def split: option.splits prod.splits if_splits)
  have fb: "free_buf b st1 = Some st2 \<Longrightarrow> psr st2 = psr st1" for b st1 st2
    by (auto simp: free_buf_def split: if_splits)
  show ?thesis
    using assms(2)
    by (auto simp: parse_directive_def Let_def split: prod.splits if_splits option.splits outcome.splits rc.splits
        dest!: mm fb seq_add_tail_Ok assms(1))
qed

lemma parse_directive_or_struct_bufs:
  assumes "\<And>st d st' x. r st d = Done (st', x) \<Longrightarrow> prefix (bufs (psr st)) (bufs (psr st'))"
    and "parse_directive_or_struct r fs st s = Done (st', x)"
  shows "prefix (bufs (psr st)) (bufs (psr st'))"
  using assms(2) parse_directive_bufs [OF assms(1)]
  by (auto simp: parse_directive_or_struct_def split: prod.splits if_splits option.splits)

lemma parse_buf_bufs:
  "parse_buf fuel fs st s = Done (st', x) \<Longrightarrow> prefix (bufs (psr st)) (bufs (psr st'))"
proof (induction fuel arbitrary: st s st' x)
  case (Suc fuel)
  have *: "parse_directive_or_struct (parse_buf fuel fs) fs st s = Done (st1, y) \<Longrightarrow>
      prefix (bufs (psr st)) (bufs (psr st1))" for st1 y
    by (rule parse_directive_or_struct_bufs [of "parse_buf fuel fs"]) (auto intro: Suc.IH)
  show ?case
    using Suc.prems
    by (auto split: if_splits outcome.splits prod.splits option.splits dest!: * Suc.IH
        intro: prefix_order.trans)
qed simp

lemma free_bufs_not_live:
  "free_bufs xs st = Some st' \<Longrightarrow> b \<in> snd ` set xs \<Longrightarrow> b \<notin> live st'"
proof (induction xs arbitrary: st)
  case (Cons x xs)
  have sub: "free_bufs ys st1 = Some st2 \<Longrightarrow> live st2 \<subseteq> live st1" for ys st1 st2
    by (induction ys arbitrary: st1) (force simp: free_buf_def split: if_splits bind_splits)+
  obtain it c where x: "x = (it, c)" by fastforce
  with Cons.prems(1) have *: "free_bufs xs (st\<lparr>live := live st - {c}\<rparr>) = Some st'"
    by (auto simp: free_buf_def split: if_splits)
  from sub [OF this] Cons.IH [OF this] Cons.prems(2) x show ?case by auto
qed simp

text \<open>
  A parse error is a double free of the file's buffer: once the file is open and its buffer in
  the list, \<open>bano_parser_load_file\<close> does not return \<open>-1\<close>.
\<close>

lemma load_file_no_error_return:
  assumes "get_dirname path = Some d" "fs path = Some data" "data \<noteq> []"
    and "malloc ms = (b, ms1)" "b \<noteq> 0" "malloc ms1 = (it, ms2)" "it \<noteq> 0"
  shows "bano_parser_load_file fuel fs ms lv path \<noteq> Done (Err, st)"
proof
  let ?st = "\<lparr>psr = parser_init\<lparr>top_dir := d, bufs := [(it, b)]\<rparr>, mls = ms2, live = insert b lv\<rparr>"
  assume "bano_parser_load_file fuel fs ms lv path = Done (Err, st)"
  moreover have "bufs parser_init = []" by (simp add: parser_init_def)
  ultimately obtain st3 st4 where st: "parse_buf fuel fs ?st data = Done (st3, None)"
      "bano_parser_fini st3 = Some st4" "free_buf b st4 = Some st"
    using assms
    by (auto simp: bano_parser_load_file_def Let_def alloc_mmap_buf_def seq_add_tail_def
        split: outcome.splits option.splits)
  from parse_buf_bufs [OF st(1)] have "b \<in> snd ` set (bufs (psr st3))"
    by (auto simp: prefix_def)
  with st(2) have "b \<notin> live st4"
    by (auto simp: bano_parser_fini_def dest!: free_bufs_not_live [where b = b])
  with st(3) show False by (simp add: free_buf_def)
qed

section \<open>Printing and parsing back\<close>

text \<open>The printing functions of the unit test at the end of \<open>bano_parser.c\<close>.\<close>

definition print_pair_item :: "parser_pair \<Rightarrow> string" where
  "print_pair_item p = pp_key p @ '' = '' @ pp_val p @ [CHR 0x0A]"

definition print_struct_item :: "parser_struct \<Rightarrow> string" where
  "print_struct_item x =
     ps_name x @ [CHR 0x0A, CHR ''{'', CHR 0x0A]
     @ concat (map (print_pair_item \<circ> snd) (ps_pairs x)) @ [CHR ''}'', CHR 0x0A]"

definition print_structs :: "parser_struct list \<Rightarrow> string" where
  "print_structs xs = concat (map print_struct_item xs)"

text \<open>
  A word: not empty, without blanks, not a comment. A structure can be read back when its name
  is a word that is not a directive, and its keys and values are words, no key being a
  closing brace.
\<close>

definition is_word :: "string \<Rightarrow> bool" where
  "is_word w \<longleftrightarrow> w \<noteq> [] \<and> (\<forall>c \<in> set w. \<not> is_white c) \<and> \<not> is_comment (hd w)"

definition pair_ok :: "parser_pair \<Rightarrow> bool" where
  "pair_ok p \<longleftrightarrow> is_word (pp_key p) \<and> is_word (pp_val p) \<and> pp_key p \<noteq> ''}''"

definition struct_ok :: "parser_struct \<Rightarrow> bool" where
  "struct_ok x \<longleftrightarrow> is_word (ps_name x) \<and> \<not> is_directive (hd (ps_name x))
     \<and> (\<forall>p \<in> set (map snd (ps_pairs x)). pair_ok p)"

text \<open>Blanks and comment lines between tokens.\<close>

inductive is_gap :: "string \<Rightarrow> bool" where
  gap_empty: "is_gap []"
| gap_white: "is_white c \<Longrightarrow> is_gap g \<Longrightarrow> is_gap (c # g)"
| gap_comment: "\<forall>c \<in> set line. \<not> is_nl c \<Longrightarrow> is_nl nl \<Longrightarrow> is_gap g \<Longrightarrow> is_gap (CHR ''#'' # line @ nl # g)"

inductive_simps is_gap_simps [simp]: "is_gap []"

lemma skip_comment_line:
  "\<forall>c \<in> set line. \<not> is_nl c \<Longrightarrow> is_nl nl \<Longrightarrow> skip_comment (line @ nl # s) = Suc (length line)"
  by (induction line) auto

lemma skip_white_step:
  assumes "is_white c"
  shows "skip_comments_and_whites (c # s) = Suc (skip_comments_and_whites s)"
proof (cases "s = []")
  case True
  with assms show ?thesis by (simp add: skip_comments_and_whites.simps)
next
  case False
  define i where "i = (if is_white (hd s) then skip_whites s else 0)"
  have i: "skip_whites s = i" using False by (cases s) (auto simp: i_def)
  have a: "skip_comments_and_whites s =
      (if i = length s then i else if \<not> is_comment (s ! i) then i
       else let j = i + skip_comment (drop i s) in j + skip_comments_and_whites (drop j s))"
    using False by (subst skip_comments_and_whites.simps) (simp add: Let_def i_def)
  have b: "skip_comments_and_whites (c # s) =
      (if Suc i = length (c # s) then Suc i else if \<not> is_comment ((c # s) ! Suc i) then Suc i
       else let j = Suc i + skip_comment (drop (Suc i) (c # s)) in
         j + skip_comments_and_whites (drop j (c # s)))"
    using assms by (subst skip_comments_and_whites.simps) (simp add: Let_def i)
  show ?thesis unfolding a b by (simp add: Let_def)
qed

lemma skip_gap: "is_gap g \<Longrightarrow> skip_comments_and_whites (g @ s) = length g + skip_comments_and_whites s"
proof (induction g rule: is_gap.induct)
  case (gap_comment line nl g)
  have h: "is_comment (CHR ''#'')" "\<not> is_white (CHR ''#'')" "\<not> is_nl (CHR ''#'')"
    by (simp_all add: is_comment_def is_white_def is_nl_def is_space_def)
  have "skip_comment (CHR ''#'' # line @ nl # g @ s) = Suc (Suc (length line))"
    using skip_comment_line [OF gap_comment(1,2), of "g @ s"] h by simp
  moreover have "drop (Suc (Suc (length line))) (CHR ''#'' # line @ nl # g @ s) = g @ s" by simp
  ultimately show ?case
    using h gap_comment.IH
    by (subst skip_comments_and_whites.simps) (simp add: Let_def)
qed (simp_all add: skip_white_step)

text \<open>A token after a gap, up to a blank or the end.\<close>

lemma next_token_word:
  assumes "is_gap g" "is_word w" "s = [] \<or> is_white (hd s)"
  shows "next_token (g @ w @ s) = (length g, length w)"
proof -
  obtain c w' where w: "w = c # w'" using assms(2) by (cases w) (auto simp: is_word_def)
  have c: "\<not> is_white c" "\<not> is_comment c" using assms(2) w by (auto simp: is_word_def)
  have "skip_comments_and_whites (w @ s) = 0"
    using c w by (subst skip_comments_and_whites.simps) (simp add: Let_def)
  moreover have "takeWhile (\<lambda>c. \<not> (is_space c \<or> is_nl c)) (w @ s) = w"
    using assms(2,3) by (cases s) (auto simp: is_word_def is_white_def takeWhile_append2)
  ultimately show ?thesis
    by (simp add: next_token_def Let_def skip_gap [OF assms(1)] token_size_def)
qed

lemma gap_chars [simp]: "is_white (CHR '' '')" "is_white (CHR 0x0A)" "is_gap '' ''" "is_gap [CHR 0x0A]"
  by (auto simp: is_white_def is_space_def is_nl_def intro!: is_gap.intros)

lemma gap_2 [simp]: "is_white c \<Longrightarrow> is_gap [c]"
  by (auto intro!: is_gap.intros)

lemma word_chars [simp]: "is_word ''=''" "is_word ''{''" "is_word ''}''"
  by (simp_all add: is_word_def is_white_def is_space_def is_nl_def is_comment_def)

lemma parse_pair_print:
  assumes "is_gap g" "pair_ok p"
  shows "parse_pair (g @ print_pair_item p @ s) = Some (p, length g + length (print_pair_item p) - 1)"
proof -
  let ?k = "pp_key p" and ?v = "pp_val p"
  have w: "is_word ?k" "is_word ?v" using assms(2) by (auto simp: pair_ok_def)
  have t0: "next_token (g @ ?k @ '' = '' @ ?v @ CHR 0x0A # s) = (length g, length ?k)"
    by (rule next_token_word [OF assms(1) w(1)]) simp
  have t1: "next_token ('' = '' @ ?v @ CHR 0x0A # s) = (1, 1)"
    using next_token_word [of "'' ''" "''=''" "'' '' @ ?v @ CHR 0x0A # s"] by simp
  have t2: "next_token ('' '' @ ?v @ CHR 0x0A # s) = (1, length ?v)"
    using next_token_word [of "'' ''" ?v "CHR 0x0A # s"] w(2) by simp
  have ne: "?k \<noteq> []" "?v \<noteq> []" using w by (auto simp: is_word_def)
  have d0: "drop (length g + length ?k) (g @ ?k @ '' = '' @ ?v @ CHR 0x0A # s) = '' = '' @ ?v @ CHR 0x0A # s"
    by simp
  have d1: "drop (length g + length ?k + 2) (g @ ?k @ '' = '' @ ?v @ CHR 0x0A # s) = '' '' @ ?v @ CHR 0x0A # s"
    by simp
  have d2: "drop (length g + length ?k + 3) (g @ ?k @ '' = '' @ ?v @ CHR 0x0A # s) = ?v @ CHR 0x0A # s"
    by (simp add: numeral_3_eq_3)
  have e: "g @ print_pair_item p @ s = g @ ?k @ '' = '' @ ?v @ CHR 0x0A # s"
    by (simp add: print_pair_item_def)
  have "parse_pair (g @ ?k @ '' = '' @ ?v @ CHR 0x0A # s) =
      Some (\<lparr>pp_key = ?k, pp_val = ?v\<rparr>, length g + length ?k + 3 + length ?v)"
    unfolding parse_pair_def t0 using ne t1 t2
    by (simp add: Let_def numeral_3_eq_3 numeral_2_eq_2)
  then show ?thesis unfolding e by (simp add: print_pair_item_def)
qed

lemma parse_pairs_step:
  assumes "next_token s = (t, n)" "n \<noteq> 0" "\<not> (n = 1 \<and> s ! t = CHR ''}'')"
    and "a \<noteq> 0" "b \<noteq> 0" "parse_pair s = Some (p, j)"
    and "parse_pairs ms (acc @ [(b, p)]) (drop j s) = (ms', Some (ps', k))"
  shows "parse_pairs (a # b # ms) acc s = (ms', Some (ps', j + k))"
  using assms by (subst parse_pairs.simps) auto

lemma parse_buf_step:
  assumes "next_token s = (t, n)" "n \<noteq> 0" "\<not> is_directive (s ! t)" "mls st = a # b # ms" "a \<noteq> 0" "b \<noteq> 0"
    and "parse_struct ms s = (ms', Some (x, j))"
    and "parse_buf fuel fs (st\<lparr>mls := ms', psr := (psr st)\<lparr>structs := structs (psr st) @ [(b, x)]\<rparr>\<rparr>) (drop j s)
      = Done (st', Some k)"
  shows "parse_buf (Suc fuel) fs st s = Done (st', Some (j + k))"
proof -
  have "s \<noteq> []" using assms(1,2) next_token_bounds [of s t n] by auto
  with assms show ?thesis by (simp add: parse_directive_or_struct_def)
qed

lemma parse_pairs_print:
  assumes "is_gap g" "\<forall>p \<in> set ps. pair_ok p" "2 * length ps \<le> length ms" "0 \<notin> set ms"
    and "s = [] \<or> is_white (hd s)"
  shows "\<exists>its. parse_pairs ms acc (g @ concat (map print_pair_item ps) @ ''}'' @ s) =
      (drop (2 * length ps) ms, Some (acc @ its, length g + length (concat (map print_pair_item ps)) + 1))
    \<and> map snd its = ps"
  using assms(1-4)
proof (induction ps arbitrary: g ms acc)
  case Nil
  have "next_token (g @ ''}'' @ s) = (length g, 1)"
    using next_token_word [OF Nil.prems(1), of "''}''" s] assms(5) by simp
  then show ?case
    by (subst parse_pairs.simps) (simp add: nth_append)
next
  case (Cons p ps)
  obtain a b ms2 where ms: "ms = a # b # ms2" using Cons.prems(3) by (cases ms; cases "tl ms") auto
  have ab: "a \<noteq> 0" "b \<noteq> 0" "0 \<notin> set ms2" using Cons.prems(4) ms by auto
  let ?t = "concat (map print_pair_item ps) @ ''}'' @ s"
  have p: "pair_ok p" using Cons.prems(2) by simp
  then have w: "is_word (pp_key p)" "pp_key p \<noteq> ''}''" by (auto simp: pair_ok_def)
  have tok: "next_token (g @ print_pair_item p @ ?t) = (length g, length (pp_key p))"
    using next_token_word [OF Cons.prems(1) w(1), of "'' = '' @ pp_val p @ CHR 0x0A # ?t"]
    by (simp add: print_pair_item_def)
  have not_close: "\<not> (length (pp_key p) = 1 \<and> (g @ print_pair_item p @ ?t) ! length g = CHR ''}'')"
    using w(2) by (cases "pp_key p") (auto simp: print_pair_item_def nth_append)
  have ne: "pp_key p \<noteq> []" "print_pair_item p \<noteq> []"
    using w(1) by (auto simp: is_word_def print_pair_item_def)
  have pp: "parse_pair (g @ print_pair_item p @ ?t) = Some (p, length g + length (print_pair_item p) - 1)"
    by (rule parse_pair_print [OF Cons.prems(1) p])
  have dr: "drop (length g + length (print_pair_item p) - 1) (g @ print_pair_item p @ ?t) = [CHR 0x0A] @ ?t"
    by (simp add: print_pair_item_def drop_Cons' Suc_diff_le)
  obtain its where its: "parse_pairs ms2 (acc @ [(b, p)]) ([CHR 0x0A] @ ?t) =
      (drop (2 * length ps) ms2, Some ((acc @ [(b, p)]) @ its,
         length [CHR 0x0A] + length (concat (map print_pair_item ps)) + 1))" "map snd its = ps"
    using Cons.IH [of "[CHR 0x0A]" ms2 "acc @ [(b, p)]"] Cons.prems ms ab(3) by auto
  have "length (pp_key p) \<noteq> 0" using ne(1) by simp
  from parse_pairs_step [OF tok this not_close ab(1,2) pp its(1) [folded dr]]
  have "parse_pairs ms acc (g @ print_pair_item p @ ?t) =
      (drop (2 * length ps) ms2, Some ((acc @ [(b, p)]) @ its,
        (length g + length (print_pair_item p) - 1) + (length [CHR 0x0A] + length (concat (map print_pair_item ps)) + 1)))"
    unfolding ms .
  with ms ne(2) its(2) show ?case
    by (intro exI [of _ "(b, p) # its"]) (cases "print_pair_item p"; simp)
qed

text \<open>What a structure holds, without the addresses of its items.\<close>

definition struct_data :: "parser_struct \<Rightarrow> bano_string \<times> parser_pair list" where
  "struct_data x = (ps_name x, map snd (ps_pairs x))"

definition struct_mallocs :: "parser_struct \<Rightarrow> nat" where
  "struct_mallocs x = 2 * length (ps_pairs x)"

lemma print_struct_item_eq:
  "print_struct_item x = ps_name x @ [CHR 0x0A, CHR ''{'', CHR 0x0A] @ concat (map print_pair_item (map snd (ps_pairs x))) @ ''}'' @ [CHR 0x0A]"
  by (simp add: print_struct_item_def)

lemma parse_struct_print:
  assumes "is_gap g" "struct_ok x" "struct_mallocs x \<le> length ms" "0 \<notin> set ms"
  shows "\<exists>x'. parse_struct ms (g @ print_struct_item x @ s) =
      (drop (struct_mallocs x) ms, Some (x', length g + length (print_struct_item x) - 1))
    \<and> struct_data x' = struct_data x"
proof -
  let ?ps = "map snd (ps_pairs x)" and ?nl = "[CHR 0x0A]"
  let ?rest = "concat (map print_pair_item ?ps) @ ''}'' @ ?nl @ s"
  have e: "g @ print_struct_item x @ s = g @ ps_name x @ ?nl @ ''{'' @ ?nl @ ?rest"
    by (simp add: print_struct_item_def)
  have w: "is_word (ps_name x)" "\<forall>p \<in> set ?ps. pair_ok p" using assms(2) by (auto simp: struct_ok_def)
  have ne: "ps_name x \<noteq> []" using w(1) by (simp add: is_word_def)
  have t0: "next_token (g @ ps_name x @ ?nl @ ''{'' @ ?nl @ ?rest) = (length g, length (ps_name x))"
    by (rule next_token_word [OF assms(1) w(1)]) simp
  have t1: "next_token (?nl @ ''{'' @ ?nl @ ?rest) = (1, 1)"
    using next_token_word [of ?nl "''{''" "?nl @ ?rest"] by simp
  obtain its where its: "parse_pairs ms [] (?nl @ ?rest) =
      (drop (2 * length ?ps) ms, Some ([] @ its, length ?nl + length (concat (map print_pair_item ?ps)) + 1))"
      "map snd its = ?ps"
    using parse_pairs_print [of ?nl ?ps ms "?nl @ s" "[]"] w(2) assms(3,4)
    by (auto simp: struct_mallocs_def)
  let ?x = "\<lparr>ps_name = ps_name x, ps_pairs = its\<rparr>"
  have "parse_struct ms (g @ ps_name x @ ?nl @ ''{'' @ ?nl @ ?rest) =
      (drop (2 * length ?ps) ms, Some (?x, length g + length (ps_name x) + 1 + 1
         + (1 + length (concat (map print_pair_item ?ps)) + 1)))"
    unfolding parse_struct_def t0 using ne t1 its(1)
    by (simp add: nth_append)
  then show ?thesis
    unfolding e using its(2)
    by (intro exI [of _ ?x]) (simp add: struct_data_def struct_mallocs_def print_struct_item_eq)
qed

text \<open>
  A printed configuration is read back: with memory for its items and fuel for its
  structures, the parser returns at the end of the text with the same structures.
\<close>

lemma parse_buf_print:
  assumes "is_gap g" "\<forall>x \<in> set xs. struct_ok x" "length xs + 2 \<le> fuel"
    and "(\<Sum>x\<leftarrow>xs. 2 + struct_mallocs x) \<le> length (mls st)" "0 \<notin> set (mls st)"
  shows "\<exists>st'. parse_buf fuel fs st (g @ print_structs xs) =
      Done (st', Some (length (g @ print_structs xs)))
    \<and> map (struct_data \<circ> snd) (structs (psr st')) =
        map (struct_data \<circ> snd) (structs (psr st)) @ map struct_data xs"
  using assms
proof (induction xs arbitrary: g st fuel)
  case Nil
  then have "fuel = Suc (Suc (fuel - 2))" by simp
  then obtain f where f: "fuel = Suc (Suc f)" by blast
  have "skip_comments_and_whites [] = 0" by (subst skip_comments_and_whites.simps) simp
  then have "skip_comments_and_whites g = length g"
    using skip_gap [OF Nil.prems(1), of "[]"] by simp
  then have "next_token g = (length g, 0)" by (simp add: next_token_def token_size_def Let_def)
  then show ?case using f by (simp add: print_structs_def parse_directive_or_struct_def)
next
  case (Cons x xs)
  obtain f where f: "fuel = Suc f" "length xs + 2 \<le> f" using Cons.prems(3) by (cases fuel) auto
  obtain a b ms2 where ms: "mls st = a # b # ms2" using Cons.prems(4) by (cases "mls st"; cases "tl (mls st)") auto
  have ab: "a \<noteq> 0" "b \<noteq> 0" "0 \<notin> set ms2" using Cons.prems(5) ms by auto
  let ?s = "g @ print_struct_item x @ print_structs xs"
  have x: "struct_ok x" "is_word (ps_name x)" "\<not> is_directive (hd (ps_name x))"
    using Cons.prems(2) by (auto simp: struct_ok_def)
  have ne: "ps_name x \<noteq> []" using x(2) by (simp add: is_word_def)
  have tok: "next_token ?s = (length g, length (ps_name x))"
    unfolding print_struct_item_eq append_assoc
    by (rule next_token_word [OF Cons.prems(1) x(2)]) simp
  have hd: "?s ! length g = hd (ps_name x)"
    using ne by (cases "ps_name x") (auto simp: print_struct_item_def nth_append)
  obtain x' where x': "parse_struct ms2 ?s =
      (drop (struct_mallocs x) ms2, Some (x', length g + length (print_struct_item x) - 1))"
      "struct_data x' = struct_data x"
    using parse_struct_print [OF Cons.prems(1) x(1), of ms2 "print_structs xs"] Cons.prems(4) ms ab(3) by auto
  let ?st = "st\<lparr>mls := drop (struct_mallocs x) ms2,
      psr := (psr st)\<lparr>structs := structs (psr st) @ [(b, x')]\<rparr>\<rparr>"
  have dr: "drop (length g + length (print_struct_item x) - 1) ?s = [CHR 0x0A] @ print_structs xs"
    by (simp add: print_struct_item_eq Suc_diff_le)
  have "\<exists>st'. parse_buf f fs ?st ([CHR 0x0A] @ print_structs xs) =
      Done (st', Some (length ([CHR 0x0A] @ print_structs xs)))
    \<and> map (struct_data \<circ> snd) (structs (psr st')) =
        map (struct_data \<circ> snd) (structs (psr ?st)) @ map struct_data xs"
  proof (rule Cons.IH)
    show "0 \<notin> set (mls ?st)" using ab(3) by (auto dest: in_set_dropD)
    show "(\<Sum>x\<leftarrow>xs. 2 + struct_mallocs x) \<le> length (mls ?st)" using Cons.prems(4) ms by simp
  qed (use Cons.prems(2) f(2) in auto)
  then obtain st' where st': "parse_buf f fs ?st ([CHR 0x0A] @ print_structs xs) =
      Done (st', Some (length ([CHR 0x0A] @ print_structs xs)))"
      "map (struct_data \<circ> snd) (structs (psr st')) =
        map (struct_data \<circ> snd) (structs (psr ?st)) @ map struct_data xs" by blast
  have "length (ps_name x) \<noteq> 0" "\<not> is_directive (?s ! length g)" using ne hd x(3) by simp_all
  from parse_buf_step [OF tok this ms ab(1,2) x'(1) st'(1) [folded dr]]
  have "parse_buf fuel fs st ?s =
      Done (st', Some ((length g + length (print_struct_item x) - 1) + length ([CHR 0x0A] @ print_structs xs)))"
    unfolding f(1) dr .
  moreover have "(length g + length (print_struct_item x) - 1) + length ([CHR 0x0A] @ print_structs xs) = length ?s"
    by (simp add: print_struct_item_eq)
  moreover have gs: "g @ print_structs (x # xs) = ?s" by (simp add: print_structs_def)
  ultimately have "parse_buf fuel fs st (g @ print_structs (x # xs)) =
      Done (st', Some (length (g @ print_structs (x # xs))))"
    unfolding gs by metis
  moreover have "map (struct_data \<circ> snd) (structs (psr st')) =
        map (struct_data \<circ> snd) (structs (psr st)) @ map struct_data (x # xs)"
    using st'(2) x'(2) by simp
  ultimately show ?case by blast
qed

section \<open>Termination without directives\<close>

text \<open>
  A text with no \<open>.\<close> in it holds no directive: every turn of the loop of \<open>parse_buf\<close> consumes a
  character, so as much fuel as the text is long is enough, and no buffer is freed.
\<close>

lemma parse_struct_pos: "parse_struct ms s = (ms', Some (x, j)) \<Longrightarrow> 0 < j"
  by (auto simp: parse_struct_def Let_def split: prod.splits if_splits option.splits)

lemma parse_buf_no_directive:
  "CHR ''.'' \<notin> set s \<Longrightarrow> length s < fuel \<Longrightarrow> \<exists>st' r. parse_buf fuel fs st s = Done (st', r)"
proof (induction fuel arbitrary: st s)
  case (Suc fuel)
  show ?case
  proof (cases "s = []")
    case False
    obtain t n where tn: "next_token s = (t, n)" by fastforce
    have step: "\<exists>st1 r. parse_directive_or_struct (parse_buf fuel fs) fs st s = Done (st1, r)
      \<and> (\<forall>j. r = Some j \<longrightarrow> 0 < j)"
    proof (cases "n = 0")
      case True
      have "t + n \<le> length s" by (rule next_token_bounds [OF tn])
      moreover have "t = length s"
        using tn True by (intro next_token_empty) simp
      ultimately show ?thesis using tn True False by (simp add: parse_directive_or_struct_def)
    next
      case n: False
      have "t < length s" using next_token_bounds [OF tn] n by simp
      then have "s ! t \<in> set s" by simp
      then have "\<not> is_directive (s ! t)" using Suc.prems(1) by (auto simp: is_directive_def)
      then show ?thesis
        using tn n by (auto simp: parse_directive_or_struct_def dest: parse_struct_pos split: prod.splits option.splits)
    qed
    then obtain st1 r where r: "parse_directive_or_struct (parse_buf fuel fs) fs st s = Done (st1, r)"
      "\<And>j. r = Some j \<Longrightarrow> 0 < j" by blast
    show ?thesis
    proof (cases r)
      case (Some j)
      have "CHR ''.'' \<notin> set (drop j s)" using Suc.prems(1) by (auto dest: in_set_dropD)
      moreover have "length (drop j s) < fuel" using Suc.prems(2) r(2) [OF Some] False
        by (cases s) auto
      ultimately obtain st2 k where "parse_buf fuel fs st1 (drop j s) = Done (st2, k)"
        using Suc.IH by blast
      with r(1) Some False show ?thesis by (cases k) auto
    qed (use r(1) False in auto)
  qed simp
qed simp

end
