(* ===== verification/Bano_Bmp.thy ===== *)
theory Bano_Bmp
  imports Bano_Prelude
begin

text \<open>
  \<open>bano_bmp.c\<close>: a bitmap in memory, a packed header of 54 bytes in front of the pixels.
  \<open>size_t\<close> is a natural number, cut where the header stores it in 32 or 16 bits. What
  \<open>malloc\<close> left in the pixels is the argument \<open>junk\<close>.
\<close>

record bmp_info =
  bi_bpp :: nat
  bi_width :: nat
  bi_height :: nat

text \<open>The handle: \<open>data_buf\<close> points behind the header, into \<open>mem_buf\<close>.\<close>

record bmp =
  bmp_bpp :: nat
  bmp_width :: nat
  bmp_height :: nat
  mem_buf :: "u8 list"
  data_size :: nat

definition BMP_HDR_SIZE :: nat where "BMP_HDR_SIZE = 54"
definition BMP_MAGIC :: u16 where "BMP_MAGIC = 0x4d42"
definition DIB_SIZE :: u32 where "DIB_SIZE = 0x28"

text \<open>The fields of \<open>struct file_header\<close> in order, those \<open>memset\<close> leaves 0 included.\<close>

definition bmp_header :: "nat \<Rightarrow> nat \<Rightarrow> nat \<Rightarrow> nat \<Rightarrow> u8 list" where
  "bmp_header bpp w h dsize =
     u16_bytes BMP_MAGIC @ u32_bytes (of_nat (BMP_HDR_SIZE + dsize)) @ u16_bytes 0 @ u16_bytes 0
     @ u32_bytes (of_nat BMP_HDR_SIZE)
     @ u32_bytes DIB_SIZE @ u32_bytes (of_nat w) @ u32_bytes (of_nat h) @ u16_bytes 1
     @ u16_bytes (of_nat (bpp * 8)) @ u32_bytes 0 @ u32_bytes (of_nat dsize)
     @ u32_bytes 0 @ u32_bytes 0 @ u32_bytes 0 @ u32_bytes 0"

definition bano_bmp_open :: "u8 list \<Rightarrow> mallocs \<Rightarrow> bmp_info \<Rightarrow> mallocs \<times> bmp option" where
  "bano_bmp_open junk ms info =
     (let dsize = bi_bpp info * bi_width info * bi_height info in
      case malloc ms of (a, ms') \<Rightarrow>
        if a = 0 then (ms', None)
        else (ms', Some \<lparr>bmp_bpp = bi_bpp info, bmp_width = bi_width info, bmp_height = bi_height info,
               mem_buf = bmp_header (bi_bpp info) (bi_width info) (bi_height info) dsize @ take dsize junk,
               data_size = dsize\<rparr>))"

definition data_buf :: "bmp \<Rightarrow> u8 list" where
  "data_buf b = drop BMP_HDR_SIZE (mem_buf b)"

definition set_data_buf :: "u8 list \<Rightarrow> bmp \<Rightarrow> bmp" where
  "set_data_buf d b = b\<lparr>mem_buf := take BMP_HDR_SIZE (mem_buf b) @ d\<rparr>"

lemma length_bmp_header [simp]: "length (bmp_header bpp w h d) = 54"
  by (simp add: bmp_header_def)

text \<open>The handle is consistent: the pixels of the bitmap, three times its area, and the header.\<close>

definition bmp_wf :: "bmp \<Rightarrow> bool" where
  "bmp_wf b \<longleftrightarrow> data_size b = bmp_bpp b * bmp_width b * bmp_height b
     \<and> length (mem_buf b) = BMP_HDR_SIZE + data_size b
     \<and> take BMP_HDR_SIZE (mem_buf b) = bmp_header (bmp_bpp b) (bmp_width b) (bmp_height b) (data_size b)"

lemma bano_bmp_open_wf:
  assumes "bano_bmp_open junk ms info = (ms', Some b)" "bi_bpp info * bi_width info * bi_height info \<le> length junk"
  shows "bmp_wf b"
  using assms by (auto simp: bano_bmp_open_def bmp_wf_def BMP_HDR_SIZE_def Let_def split: prod.splits if_splits)

lemma set_data_buf_wf: "bmp_wf b \<Longrightarrow> length d = data_size b \<Longrightarrow> bmp_wf (set_data_buf d b) \<and> data_buf (set_data_buf d b) = d"
  by (auto simp: bmp_wf_def set_data_buf_def data_buf_def BMP_HDR_SIZE_def)

lemma data_buf_length: "bmp_wf b \<Longrightarrow> length (data_buf b) = bmp_bpp b * bmp_width b * bmp_height b"
  by (simp add: bmp_wf_def data_buf_def)

text \<open>What a reader of the file finds at the offsets of the format.\<close>

lemma bmp_header_fields:
  "take 2 (bmp_header bpp w h d) = [0x42, 0x4d]"
  "bytes_u32 (take 4 (drop 2 (bmp_header bpp w h d))) = of_nat (54 + d)"
  "bytes_u32 (take 4 (drop 10 (bmp_header bpp w h d))) = 54"
  "bytes_u32 (take 4 (drop 18 (bmp_header bpp w h d))) = of_nat w"
  "bytes_u32 (take 4 (drop 22 (bmp_header bpp w h d))) = of_nat h"
  "bytes_u16 (take 2 (drop 28 (bmp_header bpp w h d))) = of_nat (bpp * 8)"
  by (simp_all add: bmp_header_def BMP_HDR_SIZE_def, simp_all add: u16_bytes_def BMP_MAGIC_def)

end
