(* ===== verification/Bano_Cam.thy ===== *)
theory Bano_Cam
  imports Bano_Bmp
begin

text \<open>
  \<open>bano_cam.c\<close>, the transformation of frames: colour conversion, the planar and the packed
  formats, the vertical flip. Buffers are lists of bytes, and every read and write behind their
  end has no result. The floating point operations of the colour conversion are the
  parameter \<open>fp\<close>.
\<close>

section \<open>Colours\<close>

text \<open>Double precision arithmetic: conversion from int, the operations, truncation to int.\<close>

record 'd fp =
  fp_int :: "int \<Rightarrow> 'd"
  fp_lit :: "nat \<Rightarrow> 'd"
  fp_add :: "'d \<Rightarrow> 'd \<Rightarrow> 'd"
  fp_sub :: "'d \<Rightarrow> 'd \<Rightarrow> 'd"
  fp_mul :: "'d \<Rightarrow> 'd \<Rightarrow> 'd"
  fp_trunc :: "'d \<Rightarrow> int"

definition saturate :: "int \<Rightarrow> u8" where
  "saturate x = (let x = (if x < 0 then 0 else if 255 < x then 255 else x) in word_of_int x)"

text \<open>The literals, by their digits: \<open>1.402\<close>, \<open>0.34414\<close>, \<open>0.71414\<close>, \<open>1.772\<close> in units of \<open>10 ^ -5\<close>.\<close>

definition yuv_to_rgb :: "'d fp \<Rightarrow> u8 \<Rightarrow> u8 \<Rightarrow> u8 \<Rightarrow> u8 list" where
  "yuv_to_rgb fp y cr cb =
     (let dcr = fp_int fp (uint cr - 128); dcb = fp_int fp (uint cb - 128); dy = fp_int fp (uint y) in
      [saturate (uint y + fp_trunc fp (fp_mul fp (fp_lit fp 140200) dcr)),
       saturate (fp_trunc fp (fp_sub fp (fp_sub fp dy (fp_mul fp (fp_lit fp 34414) dcb)) (fp_mul fp (fp_lit fp 71414) dcr))),
       saturate (fp_trunc fp (fp_add fp dy (fp_mul fp (fp_lit fp 177200) dcb)))])"

lemma length_yuv_to_rgb [simp]: "length (yuv_to_rgb fp y cr cb) = 3"
  by (simp add: yuv_to_rgb_def Let_def)

lemma saturate_value: "uint (saturate x) = min 255 (max 0 x)"
  by (auto simp: saturate_def Let_def uint_word_of_int)

section \<open>Bounded access\<close>

definition rd :: "u8 list \<Rightarrow> nat \<Rightarrow> u8 option" where
  "rd xs i = (if i < length xs then Some (xs ! i) else None)"

definition put :: "u8 list \<Rightarrow> nat \<Rightarrow> u8 list \<Rightarrow> u8 list option" where
  "put xs i ys = (if i + length ys \<le> length xs then Some (take i xs @ ys @ drop (i + length ys) xs) else None)"

definition get :: "u8 list \<Rightarrow> nat \<Rightarrow> nat \<Rightarrow> u8 list option" where
  "get xs i n = (if i + n \<le> length xs then Some (take n (drop i xs)) else None)"

lemma put_length: "put xs i ys = Some zs \<Longrightarrow> length zs = length xs"
  by (auto simp: put_def split: if_splits)

lemma put_ok: "i + length ys \<le> length xs \<Longrightarrow> put xs i ys = Some (take i xs @ ys @ drop (i + length ys) xs)"
  by (simp add: put_def)

section \<open>Packed frames\<close>

text \<open>
  One line of \<open>trans_yuyv_to_rgb24\<close>: two pixels a turn, with \<open>i\<close> counted down by 2 in 32 bits, the
  output, the place in it and the place in the input. An odd width passes 0 and goes on.
\<close>

partial_function (option) yuyv_line ::
  "'d fp \<Rightarrow> u8 list \<Rightarrow> u32 \<Rightarrow> u8 list \<Rightarrow> nat \<Rightarrow> nat \<Rightarrow> (u8 list \<times> nat \<times> nat) option" where
  "yuyv_line fp inp i out o' p =
     (if i = 0 then Some (out, o', p)
      else Option.bind (rd inp p) (\<lambda>y0.
        Option.bind (rd inp (p + 1)) (\<lambda>u.
        Option.bind (rd inp (p + 3)) (\<lambda>v.
        Option.bind (put out o' (yuv_to_rgb fp y0 u v)) (\<lambda>out1.
        Option.bind (rd inp (p + 2)) (\<lambda>y1.
        Option.bind (put out1 (o' + 3) (yuv_to_rgb fp y1 u v)) (\<lambda>out2.
          yuyv_line fp inp (i - 2) out2 (o' + 6) (p + 4))))))))"

fun yuyv_lines :: "'d fp \<Rightarrow> u8 list \<Rightarrow> u32 \<Rightarrow> nat \<Rightarrow> u8 list \<times> nat \<times> nat \<Rightarrow> (u8 list \<times> nat \<times> nat) option" where
  "yuyv_lines fp inp w 0 s = Some s"
| "yuyv_lines fp inp w (Suc j) (out, o', p) =
     Option.bind (yuyv_line fp inp w out o' p) (yuyv_lines fp inp w j)"

definition trans_yuyv_to_rgb24 :: "'d fp \<Rightarrow> u8 list \<Rightarrow> u8 list \<Rightarrow> u32 \<Rightarrow> u32 \<Rightarrow> u8 list option" where
  "trans_yuyv_to_rgb24 fp out inp w h = map_option fst (yuyv_lines fp inp w (unat h) (out, 0, 0))"

text \<open>The reference: every four bytes are two pixels.\<close>

fun yuyv_pixels :: "'d fp \<Rightarrow> u8 list \<Rightarrow> u8 list" where
  "yuyv_pixels fp (y0 # u # y1 # v # r) = yuv_to_rgb fp y0 u v @ yuv_to_rgb fp y1 u v @ yuyv_pixels fp r"
| "yuyv_pixels fp _ = []"

lemma drop_Suc4: "p + 4 \<le> length xs \<Longrightarrow> drop p xs = xs ! p # xs ! (p + 1) # xs ! (p + 2) # xs ! (p + 3) # drop (p + 4) xs"
  by (simp add: Cons_nth_drop_Suc [symmetric] numeral_eq_Suc)

lemma take4: "take (4 + n) (a # b # c # d # r) = a # b # c # d # take n r"
  by (simp add: numeral_eq_Suc)

lemma split4: "4 \<le> length xs \<Longrightarrow> \<exists>a b c d r. xs = a # b # c # d # r"
  by (auto simp: Suc_le_length_iff numeral_eq_Suc)

lemma length_yuyv_pixels: "length xs = 4 * n \<Longrightarrow> length (yuyv_pixels fp xs) = 6 * n"
proof (induction n arbitrary: xs)
  case (Suc n)
  then obtain a b c d r where "xs = a # b # c # d # r" using split4 [of xs] by auto
  with Suc show ?case by simp
qed simp

lemma yuyv_pixels_append: "length xs = 4 * n \<Longrightarrow> yuyv_pixels fp (xs @ ys) = yuyv_pixels fp xs @ yuyv_pixels fp ys"
proof (induction n arbitrary: xs)
  case (Suc n)
  then obtain a b c d r where "xs = a # b # c # d # r" using split4 [of xs] by auto
  with Suc show ?case by simp
qed simp

lemma yuyv_line_pixels:
  "2 * n < 2 ^ 32 \<Longrightarrow> p + 4 * n \<le> length inp \<Longrightarrow> o' + 6 * n \<le> length out \<Longrightarrow>
   yuyv_line fp inp (of_nat (2 * n)) out o' p =
     Some (take o' out @ yuyv_pixels fp (take (4 * n) (drop p inp)) @ drop (o' + 6 * n) out, o' + 6 * n, p + 4 * n)"
proof (induction n arbitrary: out o' p)
  case 0
  then show ?case by (simp add: yuyv_line.simps)
next
  case (Suc n)
  let ?y0 = "inp ! p" and ?u = "inp ! (p + 1)" and ?y1 = "inp ! (p + 2)" and ?v = "inp ! (p + 3)"
  let ?a = "yuv_to_rgb fp ?y0 ?u ?v" and ?b = "yuv_to_rgb fp ?y1 ?u ?v"
  let ?out1 = "take o' out @ ?a @ drop (o' + 3) out"
  let ?out2 = "take (o' + 3) ?out1 @ ?b @ drop (o' + 6) ?out1"
  have nz: "(of_nat (2 * Suc n) :: u32) \<noteq> 0"
  proof
    assume "(of_nat (2 * Suc n) :: u32) = 0"
    then have "unat (of_nat (2 * Suc n) :: u32) = 0" by (simp del: of_nat_mult of_nat_Suc)
    moreover have "unat (of_nat (2 * Suc n) :: u32) = 2 * Suc n"
      unfolding unat_of_nat using Suc.prems(1) by (intro mod_less) simp
    ultimately show False by simp
  qed
  have dec: "(of_nat (2 * Suc n) :: u32) - 2 = of_nat (2 * n)" by simp
  have p1: "put out o' ?a = Some ?out1" using Suc.prems(3) by (subst put_ok) auto
  have l1: "length ?out1 = length out" using Suc.prems(3) by simp
  have p2: "put ?out1 (o' + 3) ?b = Some ?out2" using Suc.prems(3) l1 by (subst put_ok) (auto simp: add.assoc)
  have o2: "?out2 = take o' out @ ?a @ ?b @ drop (o' + 6) out"
    using Suc.prems(3) by (simp add: min_def add.commute)
  have l2: "length ?out2 = length out" unfolding o2 using Suc.prems(3) by simp
  have IH: "yuyv_line fp inp (of_nat (2 * n)) ?out2 (o' + 6) (p + 4) =
      Some (take (o' + 6) ?out2 @ yuyv_pixels fp (take (4 * n) (drop (p + 4) inp)) @ drop (o' + 6 + 6 * n) ?out2, o' + 6 + 6 * n, p + 4 + 4 * n)"
    using Suc.prems l2 by (intro Suc.IH) auto
  have t2: "take (o' + 6) ?out2 = take o' out @ ?a @ ?b" "drop (o' + 6 + 6 * n) ?out2 = drop (o' + 6 * Suc n) out"
    unfolding o2 using Suc.prems(3) by (simp_all add: min_def algebra_simps)
  have px: "yuyv_pixels fp (take (4 * Suc n) (drop p inp)) = ?a @ ?b @ yuyv_pixels fp (take (4 * n) (drop (p + 4) inp))"
    using Suc.prems(2) drop_Suc4 [of p inp] by (simp add: take4)
  have "yuyv_line fp inp (of_nat (2 * Suc n)) out o' p = yuyv_line fp inp (of_nat (2 * n)) ?out2 (o' + 6) (p + 4)"
    using Suc.prems nz dec p1 p2 by (subst yuyv_line.simps) (simp add: rd_def del: of_nat_mult of_nat_Suc)
  with IH t2 px show ?case by (simp add: algebra_simps)
qed

lemma trans_yuyv_pixels:
  assumes "unat w = 2 * n" "2 * (unat w * unat h) \<le> length inp" "3 * (unat w * unat h) \<le> length out"
  shows "trans_yuyv_to_rgb24 fp out inp w h =
    Some (yuyv_pixels fp (take (2 * (unat w * unat h)) inp) @ drop (3 * (unat w * unat h)) out)"
proof -
  have w: "w = of_nat (2 * n)" by (simp add: assms(1) [symmetric])
  have n: "2 * n < 2 ^ 32" using unat_u32_less [of w] assms(1) by simp
  have "yuyv_lines fp inp w j (out, o', p) = Some (take o' out @ yuyv_pixels fp (take (4 * n * j) (drop p inp)) @ drop (o' + 6 * n * j) out,
      o' + 6 * n * j, p + 4 * n * j)"
    if "p + 4 * n * j \<le> length inp" "o' + 6 * n * j \<le> length out" for j o' p and out :: "u8 list"
    using that
  proof (induction j arbitrary: out o' p)
    case (Suc j)
    let ?px = "yuyv_pixels fp (take (4 * n) (drop p inp))"
    let ?out = "take o' out @ ?px @ drop (o' + 6 * n) out"
    have lp: "length ?px = 6 * n" using Suc.prems(1) by (intro length_yuyv_pixels) simp
    have line: "yuyv_line fp inp w out o' p = Some (?out, o' + 6 * n, p + 4 * n)"
      unfolding w using Suc.prems n by (intro yuyv_line_pixels) simp_all
    have lo: "length ?out = length out" using lp Suc.prems(2) by simp
    have "yuyv_lines fp inp w j (?out, o' + 6 * n, p + 4 * n) =
        Some (take (o' + 6 * n) ?out @ yuyv_pixels fp (take (4 * n * j) (drop (p + 4 * n) inp)) @ drop (o' + 6 * n + 6 * n * j) ?out,
          o' + 6 * n + 6 * n * j, p + 4 * n + 4 * n * j)"
      using Suc.prems lo by (intro Suc.IH) simp_all
    moreover have "take (o' + 6 * n) ?out = take o' out @ ?px" using lp Suc.prems(2) by (simp add: min_def)
    moreover have "drop (o' + 6 * n + 6 * n * j) ?out = drop (o' + 6 * n * Suc j) out"
      using lp Suc.prems(2) by (simp add: min_def algebra_simps)
    moreover have "take (4 * n * Suc j) (drop p inp) = take (4 * n) (drop p inp) @ take (4 * n * j) (drop (p + 4 * n) inp)"
      using take_add [of "4 * n" "4 * n * j" "drop p inp"] by (simp add: add.commute)
    then have "yuyv_pixels fp (take (4 * n * Suc j) (drop p inp)) = ?px @ yuyv_pixels fp (take (4 * n * j) (drop (p + 4 * n) inp))"
      using Suc.prems(1) by (simp add: yuyv_pixels_append [of _ n])
    ultimately show ?case using line by (simp add: algebra_simps)
  qed simp
  from this [of 0 "unat h" 0 out] assms show ?thesis
    by (simp add: trans_yuyv_to_rgb24_def mult.assoc)
qed

section \<open>Planar frames\<close>

text \<open>
  \<open>trans_yuv420_to_rgb24\<close>: \<open>k\<close> turns of the inner loop, each a block of two by two pixels, with
  the output, the place in it, and the places in the three planes.
\<close>

fun yuv420_row :: "'d fp \<Rightarrow> u8 list \<Rightarrow> nat \<Rightarrow> nat \<Rightarrow> nat \<Rightarrow> u8 list \<times> nat \<times> nat \<times> nat \<times> nat
    \<Rightarrow> (u8 list \<times> nat \<times> nat \<times> nat \<times> nat) option" where
  "yuv420_row fp inp m l 0 s = Some s"
| "yuv420_row fp inp m l (Suc k) (out, o', y, cr, cb) =
     Option.bind (rd inp cr) (\<lambda>r. Option.bind (rd inp cb) (\<lambda>b.
     Option.bind (rd inp y) (\<lambda>y0. Option.bind (put out o' (yuv_to_rgb fp y0 r b)) (\<lambda>out1.
     Option.bind (rd inp (y + m)) (\<lambda>y2. Option.bind (put out1 (o' + l) (yuv_to_rgb fp y2 r b)) (\<lambda>out2.
     Option.bind (rd inp (y + 1)) (\<lambda>y1. Option.bind (put out2 (o' + 3) (yuv_to_rgb fp y1 r b)) (\<lambda>out3.
     Option.bind (rd inp (y + 1 + m)) (\<lambda>y3. Option.bind (put out3 (o' + 3 + l) (yuv_to_rgb fp y3 r b)) (\<lambda>out4.
       yuv420_row fp inp m l k (out4, o' + 6, y + 2, cr + 1, cb + 1)))))))))))"

fun yuv420_rows :: "'d fp \<Rightarrow> u8 list \<Rightarrow> nat \<Rightarrow> nat \<Rightarrow> nat \<Rightarrow> u8 list \<times> nat \<times> nat \<times> nat \<times> nat
    \<Rightarrow> (u8 list \<times> nat \<times> nat \<times> nat \<times> nat) option" where
  "yuv420_rows fp inp m l 0 s = Some s"
| "yuv420_rows fp inp m l (Suc j) s =
     Option.bind (yuv420_row fp inp m l (m div 2) s) (\<lambda>(out, o', y, cr, cb).
       yuv420_rows fp inp m l j (out, o' + l, y + m, cr, cb))"

definition trans_yuv420_to_rgb24 :: "'d fp \<Rightarrow> u8 list \<Rightarrow> u8 list \<Rightarrow> u32 \<Rightarrow> u32 \<Rightarrow> u8 list option" where
  "trans_yuv420_to_rgb24 fp out inp w h =
     (let cr = unat (w * h); cb = cr + unat (w * h div 4) in
      map_option fst (yuv420_rows fp inp (unat w) (unat (w * 3)) (unat (h div 2)) (out, 0, 0, cr, cb)))"

lemma yuv420_row_ok:
  assumes "y + m + 2 * k \<le> length inp" "cr + k \<le> length inp" "cb + k \<le> length inp"
    and "o' + l + 6 * k \<le> length out"
  shows "\<exists>out'. yuv420_row fp inp m l k (out, o', y, cr, cb) = Some (out', o' + 6 * k, y + 2 * k, cr + k, cb + k)
    \<and> length out' = length out"
  using assms
proof (induction k arbitrary: out o' y cr cb)
  case (Suc k)
  define px where "px p = yuv_to_rgb fp (inp ! p) (inp ! cr) (inp ! cb)" for p
  have put: "\<exists>zs. put xs i (px p) = Some zs \<and> length zs = length out" if "length xs = length out" "i + 3 \<le> length out" for xs i p
    using that by (auto simp: put_def px_def)
  obtain o1 where 1: "put out o' (px y) = Some o1" "length o1 = length out" using put [of out o' y] Suc.prems by auto
  obtain o2 where 2: "put o1 (o' + l) (px (y + m)) = Some o2" "length o2 = length out" using put [OF 1(2), of "o' + l" "y + m"] Suc.prems by auto
  obtain o3 where 3: "put o2 (o' + 3) (px (y + 1)) = Some o3" "length o3 = length out" using put [OF 2(2), of "o' + 3" "y + 1"] Suc.prems by auto
  obtain o4 where 4: "put o3 (o' + 3 + l) (px (y + 1 + m)) = Some o4" "length o4 = length out" using put [OF 3(2), of "o' + 3 + l" "y + 1 + m"] Suc.prems by auto
  have "yuv420_row fp inp m l (Suc k) (out, o', y, cr, cb) = yuv420_row fp inp m l k (o4, o' + 6, y + 2, cr + 1, cb + 1)"
    using Suc.prems 1 2 3 4 by (simp add: rd_def px_def)
  moreover obtain out' where "yuv420_row fp inp m l k (o4, o' + 6, y + 2, cr + 1, cb + 1) =
      Some (out', o' + 6 + 6 * k, y + 2 + 2 * k, cr + 1 + k, cb + 1 + k)" "length out' = length o4"
    using Suc.IH [of "y + 2" "cr + 1" "cb + 1" "o' + 6" o4] Suc.prems 4(2) by auto
  ultimately show ?case using 4(2) by auto
qed simp

lemma yuv420_rows_ok:
  assumes "m = 2 * k" "y + 2 * m * j \<le> length inp" "cr + k * j \<le> length inp" "cb + k * j \<le> length inp"
    and "l = 3 * m" "o' + 2 * l * j \<le> length out"
  shows "\<exists>s'. yuv420_rows fp inp m l j (out, o', y, cr, cb) = Some s' \<and> length (fst s') = length out"
  using assms
proof (induction j arbitrary: out o' y cr cb)
  case (Suc j)
  obtain out' where 1: "yuv420_row fp inp m l k (out, o', y, cr, cb) = Some (out', o' + 6 * k, y + 2 * k, cr + k, cb + k)"
      "length out' = length out"
    using yuv420_row_ok [of y m k inp cr cb o' l out fp] Suc.prems by (auto simp: algebra_simps)
  have d: "m div 2 = k" using Suc.prems(1) by simp
  obtain s' where "yuv420_rows fp inp m l j (out', o' + 6 * k + l, y + 2 * k + m, cr + k, cb + k) = Some s'"
      "length (fst s') = length out'"
    using Suc.IH [of "y + 2 * k + m" "cr + k" "cb + k" "o' + 6 * k + l" out'] Suc.prems 1(2)
    by (auto simp: algebra_simps)
  with 1 d show ?case by auto
qed simp

text \<open>With even dimensions and buffers of the sizes of the format every access is inside.\<close>

lemma trans_yuv420_inside:
  assumes "unat w = 2 * k" "unat h = 2 * j" "unat w * unat h * 3 < 2 ^ 32"
    and "unat w * unat h + unat w * unat h div 2 \<le> length inp" "3 * (unat w * unat h) \<le> length out"
  shows "\<exists>out'. trans_yuv420_to_rgb24 fp out inp w h = Some out' \<and> length out' = length out"
proof (cases "j = 0")
  case True
  with assms(2) show ?thesis by (auto simp: trans_yuv420_to_rgb24_def Let_def unat_div)
next
  case False
  have wh: "unat (w * h) = unat w * unat h" using assms(3) by (simp add: unat_word_ariths)
  have w3: "unat (w * 3) = 3 * unat w"
  proof -
    have "unat w * 3 \<le> unat w * unat h * 3" using False assms(2) by simp
    with assms(3) have "unat w * 3 < 2 ^ 32" by linarith
    then show ?thesis by (simp add: unat_word_ariths)
  qed
  have d4: "unat (w * h div 4) = k * j" using assms(1,2) wh by (simp add: unat_div)
  have h2: "unat (h div 2) = j" using assms(2) by (simp add: unat_div)
  have i: "4 * (k * j) + 2 * (k * j) \<le> length inp" "12 * (k * j) \<le> length out" using assms by auto
  have "\<exists>s'. yuv420_rows fp inp (unat w) (unat (w * 3)) j (out, 0, 0, 4 * (k * j), 4 * (k * j) + k * j) = Some s' \<and> length (fst s') = length out"
    by (rule yuv420_rows_ok [of _ k]) (use assms(1) w3 i in \<open>auto simp: algebra_simps\<close>)
  moreover have "unat (w * h) = 4 * (k * j)" "unat (w * h) + unat (w * h div 4) = 4 * (k * j) + k * j"
    using wh d4 assms(1,2) by simp_all
  ultimately show ?thesis unfolding trans_yuv420_to_rgb24_def Let_def h2 by auto
qed

section \<open>The vertical flip\<close>

text \<open>An exchange of \<open>n\<close> bytes, as the code does it: read \<open>a\<close>, write \<open>b\<close> over it, write it to \<open>b\<close>.\<close>

definition swap_at :: "nat \<Rightarrow> nat \<Rightarrow> nat \<Rightarrow> u8 list \<Rightarrow> u8 list option" where
  "swap_at n a b buf =
     Option.bind (get buf a n) (\<lambda>tmp. Option.bind (get buf b n) (\<lambda>y.
       Option.bind (put buf a y) (\<lambda>buf1. put buf1 b tmp)))"

fun swap_words :: "nat \<Rightarrow> nat \<Rightarrow> nat \<Rightarrow> u8 list \<Rightarrow> u8 list option" where
  "swap_words 0 a b buf = Some buf"
| "swap_words (Suc c) a b buf = Option.bind (swap_at 4 a b buf) (swap_words c (a + 4) (b + 4))"

definition swap_lines :: "nat \<Rightarrow> nat \<Rightarrow> u32 \<Rightarrow> u8 list \<Rightarrow> u8 list option" where
  "swap_lines a b w buf =
     (let n = w AND 3; c = unat (w div 4); a' = a + 4 * c; b' = b + 4 * c in
      Option.bind (swap_words c a b buf) (\<lambda>buf1.
        if n = 3 then Option.bind (swap_at 1 a' b' buf1) (swap_at 2 (a' + 1) (b' + 1))
        else if n = 2 then swap_at 2 a' b' buf1
        else swap_at 1 a' b' buf1))"

partial_function (option) vflip_loop :: "u32 \<Rightarrow> u32 \<Rightarrow> u32 \<Rightarrow> u8 list \<Rightarrow> u8 list option" where
  "vflip_loop l j k buf =
     (if j < k then Option.bind (swap_lines (unat j) (unat k) l buf) (vflip_loop l (j + l) (k - l))
      else Some buf)"

definition trans_vflip_rgb24 :: "u32 \<Rightarrow> u32 \<Rightarrow> u8 list \<Rightarrow> u8 list option" where
  "trans_vflip_rgb24 w h buf = (let l = w * 3 in vflip_loop l 0 ((h - 1) * l) buf)"

text \<open>The exchange of two disjoint pieces, byte by byte.\<close>

definition exch :: "nat \<Rightarrow> nat \<Rightarrow> nat \<Rightarrow> u8 list \<Rightarrow> u8 list" where
  "exch n a b buf = map (\<lambda>i. if a \<le> i \<and> i < a + n then buf ! (i + b - a)
     else if b \<le> i \<and> i < b + n then buf ! (i + a - b) else buf ! i) [0..<length buf]"

lemma length_exch [simp]: "length (exch n a b buf) = length buf"
  by (simp add: exch_def)

lemma swap_at_exch:
  assumes "a + n \<le> b" "b + n \<le> length buf"
  shows "swap_at n a b buf = Some (exch n a b buf)"
proof -
  let ?x = "take n (drop a buf)" and ?y = "take n (drop b buf)"
  let ?b1 = "take a buf @ ?y @ drop (a + n) buf"
  have l: "length ?x = n" "length ?y = n" "length ?b1 = length buf" using assms by simp_all
  have p1: "put buf a ?y = Some ?b1" using assms l by (simp add: put_def)
  have p2: "put ?b1 b ?x = Some (take b ?b1 @ ?x @ drop (b + n) ?b1)"
    using assms l by (simp only: put_def) simp
  have "take b ?b1 @ ?x @ drop (b + n) ?b1 = exch n a b buf"
  proof (rule nth_equalityI)
    show "length (take b ?b1 @ ?x @ drop (b + n) ?b1) = length (exch n a b buf)" using assms by simp
    fix i assume "i < length (take b ?b1 @ ?x @ drop (b + n) ?b1)"
    then have i: "i < length buf" using assms by simp
    show "(take b ?b1 @ ?x @ drop (b + n) ?b1) ! i = exch n a b buf ! i"
      using i assms by (auto simp: exch_def nth_append add.commute) 
  qed
  with p1 p2 show ?thesis using assms by (simp add: swap_at_def get_def)
qed

lemma exch_exch:
  assumes "a + n + m \<le> b" "b + n + m \<le> length buf"
  shows "exch m (a + n) (b + n) (exch n a b buf) = exch (n + m) a b buf"
  by (rule nth_equalityI) (use assms in \<open>auto simp: exch_def\<close>)

lemma swap_words_exch:
  "a + 4 * c \<le> b \<Longrightarrow> b + 4 * c \<le> length buf \<Longrightarrow> swap_words c a b buf = Some (exch (4 * c) a b buf)"
proof (induction c arbitrary: a b buf)
  case 0
  have "exch 0 a b buf = buf" by (rule nth_equalityI) (auto simp: exch_def)
  then show ?case by simp
next
  case (Suc c)
  have "exch (4 * c) (a + 4) (b + 4) (exch 4 a b buf) = exch (4 + 4 * c) a b buf"
    using Suc.prems by (intro exch_exch) simp_all
  then show ?case using Suc by (simp add: swap_at_exch)
qed

lemma and_3: "unat (w AND 3 :: u32) = unat w mod 4"
proof -
  have "w AND 3 = take_bit 2 w" by (simp add: take_bit_eq_mask mask_eq_exp_minus_1)
  then show ?thesis by (simp only: unsigned_take_bit_eq) (simp add: take_bit_eq_mod)
qed

text \<open>On a line whose length is not a multiple of 4, \<open>swap_lines\<close> exchanges the two lines.\<close>

lemma swap_lines_exch:
  assumes "a + unat w \<le> b" "b + unat w \<le> length buf" "unat w mod 4 \<noteq> 0"
  shows "swap_lines a b w buf = Some (exch (unat w) a b buf)"
proof -
  let ?c = "unat w div 4"
  have c: "unat (w div 4) = ?c" by (simp add: unat_div)
  have w: "unat w = 4 * ?c + unat w mod 4" by simp
  have n: "w AND 3 = of_nat (unat w mod 4)" by (metis and_3 of_nat_unat ucast_id)
  have s: "swap_words ?c a b buf = Some (exch (4 * ?c) a b buf)"
    using assms by (intro swap_words_exch) linarith+
  have sw: "swap_at m (a + 4 * ?c + i) (b + 4 * ?c + i) (exch (4 * ?c + i) a b buf) = Some (exch (4 * ?c + i + m) a b buf)"
    if "4 * ?c + i + m \<le> unat w" for m i
    using that assms exch_exch [of a "4 * ?c + i" m b buf] by (subst swap_at_exch) (auto simp: add.assoc)
  have "unat w mod 4 < 4" by simp
  then consider "unat w mod 4 = 1" | "unat w mod 4 = 2" | "unat w mod 4 = 3" using assms(3) by linarith
  then show ?thesis
  proof cases
    case 1
    then have m: "4 * ?c + 0 + 1 = unat w" using w by linarith
    show ?thesis using sw [of 0 1, unfolded m] 1 by (simp add: swap_lines_def Let_def c s n)
  next
    case 2
    then have m: "4 * ?c + 0 + 2 = unat w" using w by linarith
    show ?thesis using sw [of 0 2, unfolded m] 2 by (simp add: swap_lines_def Let_def c s n)
  next
    case 3
    then have m: "4 * ?c + 1 + 2 = unat w" using w by linarith
    show ?thesis using sw [of 0 1] sw [of 1 2, unfolded m] 3 w by (simp add: swap_lines_def Let_def c s n)
  qed
qed

text \<open>On a multiple of 4, one byte behind each line is exchanged too.\<close>

lemma swap_at_length: "swap_at n a b buf = Some buf' \<Longrightarrow> length buf' = length buf"
  by (auto simp: swap_at_def split: bind_splits dest!: put_length)

lemma swap_words_length: "swap_words c a b buf = Some buf' \<Longrightarrow> length buf' = length buf"
  by (induction c a b buf rule: swap_words.induct) (auto split: bind_splits dest!: swap_at_length)

lemma swap_lines_past_end:
  assumes "unat w mod 4 = 0" "b + unat w = length buf"
  shows "swap_lines a b w buf = None"
proof -
  have n: "w AND 3 = 0" by (metis and_3 assms(1) unat_eq_zero)
  have c: "4 * unat (w div 4) = unat w" using assms(1) by (auto simp: unat_div)
  have "swap_at 1 (a + unat w) (b + unat w) buf' = None" if "length buf' = length buf" for buf'
    using that assms(2) by (simp add: swap_at_def get_def)
  then show ?thesis
    by (auto simp: swap_lines_def Let_def n c dest: swap_words_length split: bind_splits)
qed

text \<open>The flip of a frame whose lines have a multiple of 4 bytes writes behind the frame.\<close>

lemma vflip_past_end:
  assumes "unat (w * 3) mod 4 = 0" "unat (w * 3) \<noteq> 0" "2 \<le> unat h" "unat h * unat (w * 3) < 2 ^ 32"
    and "length buf = unat h * unat (w * 3)"
  shows "trans_vflip_rgb24 w h buf = None"
proof -
  let ?l = "w * 3"
  have h1: "unat (h - 1) = unat h - 1"
    by (rule unat_minus_one) (use assms(3) in auto)
  have "(unat h - 1) * unat ?l < 2 ^ 32"
    using assms(4) by (rule order_le_less_trans [rotated]) simp
  then have k: "unat ((h - 1) * ?l) = (unat h - 1) * unat ?l" by (simp add: unat_word_ariths(2) [of "h - 1"] h1 del: unat_word_ariths)
  have "0 < unat ((h - 1) * ?l)" unfolding k using assms(2,3) by simp
  then have lt: "0 < (h - 1) * ?l" by (simp add: word_less_nat_alt)
  have "swap_lines (unat 0) (unat ((h - 1) * ?l)) ?l buf = None"
    using assms(1,3,5) k by (intro swap_lines_past_end) (simp_all add: algebra_simps diff_mult_distrib)
  with lt show ?thesis
    unfolding trans_vflip_rgb24_def Let_def by (subst vflip_loop.simps) simp
qed

end
