(* ===== verification/Bano_Video.thy ===== *)
theory Bano_Video
  imports Bano_Cam Bano_String
begin

text \<open>
  \<open>bano_cam.c\<close>, the device: the formats, the two capture modes (read and memory mapped), opening,
  closing and taking an image. The video driver and \<open>lodepng_encode24\<close> are a parameter, a
  record of their operations on a state \<open>'s\<close> of their own. A result \<open>None\<close> of the frame
  operations is an access outside a buffer. The program is built with \<open>BANO_CONFIG_PNG\<close>, so a frame
  is not flipped.
\<close>

section \<open>The driver\<close>

record v4l2_buf =
  vb_index :: nat
  vb_length :: nat

text \<open>The result of \<open>select\<close> on one descriptor: ready, timeout, \<open>EINTR\<close> or another error.\<close>

datatype sel = Sel_Ready | Sel_Timeout | Sel_Intr | Sel_Error

record 's video =
  v_open :: "string \<Rightarrow> 's \<Rightarrow> int option \<times> 's"
  v_close :: "int \<Rightarrow> 's \<Rightarrow> 's"
  v_querycap :: "int \<Rightarrow> 's \<Rightarrow> u32 option \<times> 's"
  v_g_fmt :: "int \<Rightarrow> 's \<Rightarrow> rc \<times> 's"
  v_s_fmt :: "int \<Rightarrow> u32 \<Rightarrow> u32 \<Rightarrow> u32 \<Rightarrow> 's \<Rightarrow> rc \<times> 's"
  v_reqbufs :: "int \<Rightarrow> nat \<Rightarrow> 's \<Rightarrow> nat option \<times> 's"
  v_querybuf :: "int \<Rightarrow> v4l2_buf \<Rightarrow> 's \<Rightarrow> (rc \<times> v4l2_buf) \<times> 's"
  v_qbuf :: "int \<Rightarrow> v4l2_buf \<Rightarrow> 's \<Rightarrow> rc \<times> 's"
  v_dqbuf :: "int \<Rightarrow> 's \<Rightarrow> v4l2_buf option \<times> 's"
  v_streamon :: "int \<Rightarrow> 's \<Rightarrow> rc \<times> 's"
  v_streamoff :: "int \<Rightarrow> 's \<Rightarrow> rc \<times> 's"
  v_getfl :: "int \<Rightarrow> 's \<Rightarrow> u32"
  v_fcntl :: "int \<Rightarrow> u32 \<Rightarrow> 's \<Rightarrow> 's"
  v_select :: "int \<Rightarrow> nat option \<Rightarrow> 's \<Rightarrow> sel \<times> 's"
  v_read :: "int \<Rightarrow> nat \<Rightarrow> 's \<Rightarrow> u8 list option \<times> 's"
  v_mmap :: "int \<Rightarrow> nat \<Rightarrow> nat \<Rightarrow> 's \<Rightarrow> addr option \<times> 's"
  v_munmap :: "addr \<Rightarrow> nat \<Rightarrow> 's \<Rightarrow> 's"
  v_mem :: "'s \<Rightarrow> addr \<Rightarrow> u8 list"
  v_png :: "u8 list \<Rightarrow> nat \<Rightarrow> nat \<Rightarrow> u8 list option"

definition O_NONBLOCK :: u32 where "O_NONBLOCK = 0x800"
definition V4L2_CAP_VIDEO_CAPTURE :: u32 where "V4L2_CAP_VIDEO_CAPTURE = 1"
definition V4L2_CAP_STREAMING :: u32 where "V4L2_CAP_STREAMING = 0x04000000"
definition V4L2_PIX_FMT_YUV420 :: u32 where "V4L2_PIX_FMT_YUV420 = 0x32315559"
definition V4L2_PIX_FMT_YUYV :: u32 where "V4L2_PIX_FMT_YUYV = 0x56595559"

section \<open>Formats\<close>

datatype cam_fmt =
    BANO_CAM_FMT_YUV420_160_120 | BANO_CAM_FMT_YUV420_320_240 | BANO_CAM_FMT_YUV420_640_480
  | BANO_CAM_FMT_YUYV_160_120 | BANO_CAM_FMT_YUYV_320_240 | BANO_CAM_FMT_YUYV_640_480
  | BANO_CAM_FMT_INVALID

definition BANO_CAM_FLAG_ID :: u32 where "BANO_CAM_FLAG_ID = 1"
definition BANO_CAM_FLAG_FMT :: u32 where "BANO_CAM_FLAG_FMT = 2"
definition BANO_CAM_FLAG_DUMMY :: u32 where "BANO_CAM_FLAG_DUMMY = 4"

record cam_info =
  ci_flags :: u32
  ci_id :: u32
  ci_fmt :: cam_fmt

text \<open>\<open>fb_data\<close>: \<open>malloc\<close>'s buffer with its bytes, a mapping of the driver's memory, or \<open>MAP_FAILED\<close>.\<close>

datatype fb = Map_Failed | Heap "u8 list" | Mapped addr

record cam =
  cam_fd :: int
  cam_fmt :: cam_fmt
  is_mmap_enabled :: bool
  is_dummy :: bool
  fb_data :: "fb list"
  fb_size :: "nat list"
  fb_v4l2 :: "v4l2_buf list"
  fb_count :: nat
  cam_bmp :: bmp
  png_buf :: "u8 list option"
  png_size :: nat

definition BANO_CAM_FB_COUNT :: nat where "BANO_CAM_FB_COUNT = 2"

fun expand_format :: "cam_fmt \<Rightarrow> (u32 \<times> u32 \<times> u32) option" where
  "expand_format BANO_CAM_FMT_YUV420_160_120 = Some (V4L2_PIX_FMT_YUV420, 160, 120)"
| "expand_format BANO_CAM_FMT_YUV420_320_240 = Some (V4L2_PIX_FMT_YUV420, 320, 240)"
| "expand_format BANO_CAM_FMT_YUV420_640_480 = Some (V4L2_PIX_FMT_YUV420, 640, 480)"
| "expand_format BANO_CAM_FMT_YUYV_160_120 = Some (V4L2_PIX_FMT_YUYV, 160, 120)"
| "expand_format BANO_CAM_FMT_YUYV_320_240 = Some (V4L2_PIX_FMT_YUYV, 320, 240)"
| "expand_format BANO_CAM_FMT_YUYV_640_480 = Some (V4L2_PIX_FMT_YUYV, 640, 480)"
| "expand_format BANO_CAM_FMT_INVALID = None"

definition format_to_frame_size :: "cam_fmt \<Rightarrow> u32" where
  "format_to_frame_size f = (case expand_format f of None \<Rightarrow> 0
     | Some (c, w, h) \<Rightarrow>
         if c = V4L2_PIX_FMT_YUV420 then w * h + w * h div 2
         else if c = V4L2_PIX_FMT_YUYV then w * h * 2
         else 0)"

definition set_format :: "'s video \<Rightarrow> int \<Rightarrow> u32 \<Rightarrow> u32 \<Rightarrow> u32 \<Rightarrow> 's \<Rightarrow> rc \<times> 's" where
  "set_format v fd fourcc w h s =
     (case v_g_fmt v fd s of
        (Err, s1) \<Rightarrow> (Err, s1)
      | (Ok, s1) \<Rightarrow> v_s_fmt v fd w h fourcc s1)"

text \<open>The frame becomes the pixels of the bitmap. The size of the frame is not looked at.\<close>

definition trans_frame :: "'d fp \<Rightarrow> cam \<Rightarrow> u8 list \<Rightarrow> nat \<Rightarrow> cam option" where
  "trans_frame fp c frame n =
     (let b = cam_bmp c; w = of_nat (bmp_width b); h = of_nat (bmp_height b);
          upd = (\<lambda>d. c\<lparr>cam_bmp := set_data_buf d b\<rparr>) in
      case cam_fmt c of
        BANO_CAM_FMT_YUV420_160_120 \<Rightarrow> map_option upd (trans_yuv420_to_rgb24 fp (data_buf b) frame w h)
      | BANO_CAM_FMT_YUV420_320_240 \<Rightarrow> map_option upd (trans_yuv420_to_rgb24 fp (data_buf b) frame w h)
      | BANO_CAM_FMT_YUV420_640_480 \<Rightarrow> map_option upd (trans_yuv420_to_rgb24 fp (data_buf b) frame w h)
      | BANO_CAM_FMT_YUYV_160_120 \<Rightarrow> map_option upd (trans_yuyv_to_rgb24 fp (data_buf b) frame w h)
      | BANO_CAM_FMT_YUYV_320_240 \<Rightarrow> map_option upd (trans_yuyv_to_rgb24 fp (data_buf b) frame w h)
      | BANO_CAM_FMT_YUYV_640_480 \<Rightarrow> map_option upd (trans_yuyv_to_rgb24 fp (data_buf b) frame w h)
      | BANO_CAM_FMT_INVALID \<Rightarrow> Some c)"

section \<open>Capture by reading\<close>

text \<open>
  The call lacks its command: \<open>fcntl\<close> gets the flags where \<open>F_SETFL\<close> belongs. \<open>v_fcntl fd cmd\<close> is
  that call.
\<close>

definition set_nonblock :: "'s video \<Rightarrow> int \<Rightarrow> 's \<Rightarrow> 's" where
  "set_nonblock v fd s = (let fl = v_getfl v fd s in
     if fl AND O_NONBLOCK = 0 then v_fcntl v fd (fl OR O_NONBLOCK) s else s)"

text \<open>\<open>junk\<close>: what \<open>malloc\<close>'s memory holds; \<open>None\<close> is a failed \<open>malloc\<close>.\<close>

definition start_mmap_disabled :: "'s video \<Rightarrow> u8 list \<Rightarrow> mallocs \<Rightarrow> cam \<Rightarrow> 's \<Rightarrow> rc \<times> mallocs \<times> cam \<times> 's" where
  "start_mmap_disabled v junk ms c s =
     (let n = unat (format_to_frame_size (cam_fmt c)); c1 = c\<lparr>fb_size := (fb_size c)[0 := n]\<rparr> in
      if n = 0 then (Err, ms, c1, s)
      else case malloc ms of (a, ms1) \<Rightarrow>
        if a = 0 then (Err, ms1, c1, s)
        else (Ok, ms1, c1\<lparr>fb_data := (fb_data c1)[0 := Heap (take n junk)], fb_count := 1\<rparr>, set_nonblock v (cam_fd c) s))"

definition stop_mmap_disabled :: "cam \<Rightarrow> rc \<times> cam" where
  "stop_mmap_disabled c = (if fb_count c = 0 then (Ok, c) else (Ok, c\<lparr>fb_count := 0\<rparr>))"

text \<open>
  \<open>read\<close> puts at most the size of the buffer into it, in front of what it held.
\<close>

definition fill :: "u8 list \<Rightarrow> u8 list \<Rightarrow> u8 list" where
  "fill buf r = take (length buf) r @ drop (length r) buf"

definition capture_mmap_disabled :: "'d fp \<Rightarrow> 's video \<Rightarrow> cam \<Rightarrow> 's \<Rightarrow> (rc \<times> cam \<times> 's) option" where
  "capture_mmap_disabled fp v c s =
     (case v_select v (cam_fd c) None s of
        (Sel_Error, s1) \<Rightarrow> Some (Err, c, s1)
      | (Sel_Intr, s1) \<Rightarrow> Some (Ok, c, s1)
      | (Sel_Timeout, s1) \<Rightarrow> Some (Ok, c, s1)
      | (Sel_Ready, s1) \<Rightarrow>
         (case v_read v (cam_fd c) (fb_size c ! 0) s1 of
            (None, s2) \<Rightarrow> Some (Err, c, s2)
          | (Some r, s2) \<Rightarrow>
             (case fb_data c ! 0 of
                Heap buf \<Rightarrow>
                  (let buf1 = fill buf r; c1 = c\<lparr>fb_data := (fb_data c)[0 := Heap buf1]\<rparr> in
                   if 0 < length r then map_option (\<lambda>c2. (Ok, c2, s2)) (trans_frame fp c1 buf1 (length r))
                   else Some (Ok, c1, s2))
              | _ \<Rightarrow> None)))"

section \<open>Capture by mapping\<close>

definition map_frame_buffer :: "'s video \<Rightarrow> cam \<Rightarrow> nat \<Rightarrow> 's \<Rightarrow> rc \<times> cam \<times> 's" where
  "map_frame_buffer v c i s =
     (let c1 = c\<lparr>fb_data := (fb_data c)[i := Map_Failed], fb_size := (fb_size c)[i := 0]\<rparr> in
      case v_querybuf v (cam_fd c) \<lparr>vb_index = i, vb_length = 0\<rparr> s of ((r, vb), s1) \<Rightarrow>
        let c2 = c1\<lparr>fb_v4l2 := (fb_v4l2 c1)[i := vb]\<rparr> in
        if r = Err then (Err, c2, s1)
        else case v_mmap v (cam_fd c) (vb_length vb) 0 s1 of
            (None, s2) \<Rightarrow> (Err, c2, s2)
          | (Some a, s2) \<Rightarrow>
              (Ok, c2\<lparr>fb_data := (fb_data c2)[i := Mapped a], fb_size := (fb_size c2)[i := vb_length vb]\<rparr>, s2))"

definition unmap_frame_buffer :: "'s video \<Rightarrow> cam \<Rightarrow> nat \<Rightarrow> 's \<Rightarrow> cam \<times> 's" where
  "unmap_frame_buffer v c i s =
     (case fb_data c ! i of
        Mapped a \<Rightarrow> (c\<lparr>fb_data := (fb_data c)[i := Map_Failed], fb_size := (fb_size c)[i := 0]\<rparr>, v_munmap v a (fb_size c ! i) s)
      | _ \<Rightarrow> (c, s))"

text \<open>The loop over the buffers the driver granted, \<open>n\<close> of them left.\<close>

fun map_frame_buffers :: "'s video \<Rightarrow> nat \<Rightarrow> nat \<Rightarrow> cam \<Rightarrow> 's \<Rightarrow> rc \<times> cam \<times> 's" where
  "map_frame_buffers v 0 i c s = (Ok, c, s)"
| "map_frame_buffers v (Suc n) i c s =
     (case map_frame_buffer v c i s of
        (Err, c1, s1) \<Rightarrow> (Err, c1, s1)
      | (Ok, c1, s1) \<Rightarrow>
          let c2 = c1\<lparr>fb_count := fb_count c1 + 1\<rparr> in
          case v_qbuf v (cam_fd c2) (fb_v4l2 c2 ! i) s1 of
            (Err, s2) \<Rightarrow> (Err, c2, s2)
          | (Ok, s2) \<Rightarrow> map_frame_buffers v n (Suc i) c2 s2)"

definition start_mmap_enabled :: "'s video \<Rightarrow> cam \<Rightarrow> 's \<Rightarrow> rc \<times> cam \<times> 's" where
  "start_mmap_enabled v c s =
     (case v_reqbufs v (cam_fd c) 1 s of
        (None, s1) \<Rightarrow> (Err, c, s1)
      | (Some n, s1) \<Rightarrow>
          if n < 1 \<or> BANO_CAM_FB_COUNT < n then (Err, c, s1)
          else case map_frame_buffers v n 0 c s1 of
              (Err, c1, s2) \<Rightarrow> (Err, c1, s2)
            | (Ok, c1, s2) \<Rightarrow>
               (case v_streamon v (cam_fd c1) s2 of
                  (Err, s3) \<Rightarrow> (Err, c1, s3)
                | (Ok, s3) \<Rightarrow> (Ok, c1, set_nonblock v (cam_fd c1) s3)))"

definition stop_mmap_enabled :: "'s video \<Rightarrow> cam \<Rightarrow> 's \<Rightarrow> rc \<times> cam \<times> 's" where
  "stop_mmap_enabled v c s =
     (case fold (\<lambda>i (c, s). unmap_frame_buffer v c i s) [0..<fb_count c] (c, s) of
        (c1, s1) \<Rightarrow> (Ok, c1\<lparr>fb_count := 0\<rparr>, snd (v_streamoff v (cam_fd c) s1)))"

text \<open>
  The \<open>redo_select\<close> loop: on a timeout the stream is restarted, until \<open>bug_count\<close> is 4. The value
  \<open>None\<close> is a loop that does not end.
\<close>

partial_function (option) redo_select :: "'s video \<Rightarrow> u32 \<Rightarrow> cam \<Rightarrow> 's \<Rightarrow> (rc \<times> cam \<times> 's) option" where
  "redo_select v bug_count c s =
     (case v_select v (cam_fd c) (Some 500000) s of (n, s1) \<Rightarrow>
        if n \<noteq> Sel_Ready
        then case stop_mmap_enabled v c s1 of (_, c2, s2) \<Rightarrow>
               case start_mmap_enabled v c2 s2 of (_, c3, s3) \<Rightarrow>
                 if bug_count + 1 = 4 then Some (Err, c3, s3) else redo_select v (bug_count + 1) c3 s3
        else Some (Ok, c, s1))"

text \<open>
  One pass from \<open>redo_cap\<close> to the dequeued buffer. The two passes (\<open>cap_count\<close> 0 and 1) follow.
\<close>

definition cap_pass :: "'s video \<Rightarrow> cam \<Rightarrow> 's \<Rightarrow> (v4l2_buf option \<times> cam \<times> 's) option" where
  "cap_pass v c s =
     Option.bind (redo_select v 0 c s) (\<lambda>(r, c1, s1).
       if r = Err then Some (None, c1, s1)
       else case v_dqbuf v (cam_fd c1) s1 of (ob, s2) \<Rightarrow> Some (ob, c1, s2))"

text \<open>The frame behind index \<open>i\<close>: outside the array, or unmapped, the access has no result.\<close>

definition frame_at :: "'s video \<Rightarrow> cam \<Rightarrow> nat \<Rightarrow> 's \<Rightarrow> (u8 list \<times> nat) option" where
  "frame_at v c i s =
     (if i < BANO_CAM_FB_COUNT then
        (case fb_data c ! i of
           Mapped a \<Rightarrow> Some (take (fb_size c ! i) (v_mem v s a), fb_size c ! i)
         | Heap b \<Rightarrow> Some (b, fb_size c ! i)
         | Map_Failed \<Rightarrow> None)
      else None)"

definition capture_mmap_enabled :: "'d fp \<Rightarrow> 's video \<Rightarrow> cam \<Rightarrow> 's \<Rightarrow> (rc \<times> cam \<times> 's) option" where
  "capture_mmap_enabled fp v c s =
     Option.bind (cap_pass v c s) (\<lambda>(ob, c1, s1).
       case ob of None \<Rightarrow> Some (Err, c1, s1)
       | Some b \<Rightarrow>
         Option.bind (cap_pass v c1 (snd (v_qbuf v (cam_fd c1) b s1))) (\<lambda>(ob2, c2, s2).
           case ob2 of None \<Rightarrow> Some (Err, c2, s2)
           | Some b2 \<Rightarrow>
             Option.bind (frame_at v c2 (vb_index b2) s2) (\<lambda>(frame, n).
             Option.bind (trans_frame fp c2 frame n) (\<lambda>c3.
               case v_qbuf v (cam_fd c3) b2 s2 of (r, s3) \<Rightarrow> Some (r, c3, s3)))))"

section \<open>The camera\<close>

text \<open>\<open>sizeof(DEV_PATH)\<close> is 14: 13 characters and the terminator.\<close>

definition video_path :: "cam_info \<Rightarrow> string" where
  "video_path info =
     (let id = (if ci_flags info AND BANO_CAM_FLAG_ID = 0 then 0 else sint (ci_id info)) in
      take 13 (''/dev/video'' @ dec_int id))"

text \<open>
  The handle is the caller's memory \<open>c0\<close>. On an error the bitmap is closed and the device with
  it; the frame buffers that were set up before the error are not released.
\<close>

definition bano_cam_open ::
  "'s video \<Rightarrow> u8 list \<Rightarrow> mallocs \<Rightarrow> cam \<Rightarrow> cam_info \<Rightarrow> 's \<Rightarrow> rc \<times> mallocs \<times> cam \<times> 's" where
  "bano_cam_open v junk ms c0 info s =
     (let c = c0\<lparr>png_buf := None, png_size := 0\<rparr> in
      case expand_format (ci_fmt info) of
        None \<Rightarrow> (Err, ms, c, s)
      | Some (fourcc, w, h) \<Rightarrow>
        (case bano_bmp_open junk ms \<lparr>bi_bpp = 3, bi_width = unat w, bi_height = unat h\<rparr> of
           (ms1, None) \<Rightarrow> (Err, ms1, c, s)
         | (ms1, Some b) \<Rightarrow>
           if ci_flags info AND BANO_CAM_FLAG_DUMMY \<noteq> 0 then (Ok, ms1, c\<lparr>cam_bmp := b, is_dummy := True\<rparr>, s)
           else
             (let c1 = c\<lparr>cam_bmp := b, is_dummy := False\<rparr> in
              case v_open v (video_path info) s of
                (None, s1) \<Rightarrow> (Err, ms1, c1, s1)
              | (Some fd, s1) \<Rightarrow>
                (case v_querycap v fd s1 of
                   (None, s2) \<Rightarrow> (Err, ms1, c1\<lparr>cam_fd := fd\<rparr>, v_close v fd s2)
                 | (Some cap, s2) \<Rightarrow>
                   if cap AND V4L2_CAP_VIDEO_CAPTURE = 0 then (Err, ms1, c1\<lparr>cam_fd := fd\<rparr>, v_close v fd s2)
                   else
                     (let c2 = c1\<lparr>cam_fd := fd, cam_fmt := ci_fmt info, is_mmap_enabled := False, fb_count := 0\<rparr> in
                      case set_format v fd fourcc w h s2 of
                        (Err, s3) \<Rightarrow> (Err, ms1, c2, v_close v fd s3)
                      | (Ok, s3) \<Rightarrow>
                        if cap AND V4L2_CAP_STREAMING \<noteq> 0
                        then case start_mmap_enabled v (c2\<lparr>is_mmap_enabled := True\<rparr>) s3 of
                            (Err, c3, s4) \<Rightarrow> (Err, ms1, c3, v_close v fd s4)
                          | (Ok, c3, s4) \<Rightarrow> (Ok, ms1, c3, s4)
                        else case start_mmap_disabled v junk ms1 c2 s3 of
                            (Err, ms2, c3, s4) \<Rightarrow> (Err, ms2, c3, v_close v fd s4)
                          | (Ok, ms2, c3, s4) \<Rightarrow> (Ok, ms2, c3, s4))))))"

definition bano_cam_close :: "'s video \<Rightarrow> cam \<Rightarrow> 's \<Rightarrow> rc \<times> cam \<times> 's" where
  "bano_cam_close v c s =
     (if is_dummy c then (Ok, c, s)
      else if is_mmap_enabled c then
        (case stop_mmap_enabled v c s of (_, c1, s1) \<Rightarrow> (Ok, c1, v_close v (cam_fd c1) s1))
      else (case stop_mmap_disabled c of (_, c1) \<Rightarrow> (Ok, c1, v_close v (cam_fd c1) s)))"

definition bano_cam_capture :: "'d fp \<Rightarrow> 's video \<Rightarrow> cam \<Rightarrow> 's \<Rightarrow> (rc \<times> cam \<times> 's) option" where
  "bano_cam_capture fp v c s =
     (if is_dummy c then Some (Ok, c, s)
      else Option.bind (if is_mmap_enabled c then capture_mmap_enabled fp v c s else capture_mmap_disabled fp v c s)
        (\<lambda>(r, c1, s1).
          if r = Err then Some (Err, c1, s1)
          else case v_png v (data_buf (cam_bmp c1)) (bmp_width (cam_bmp c1)) (bmp_height (cam_bmp c1)) of
              None \<Rightarrow> Some (Err, c1\<lparr>png_buf := None, png_size := 0\<rparr>, s1)
            | Some p \<Rightarrow> Some (Ok, c1\<lparr>png_buf := Some p, png_size := length p\<rparr>, s1)))"

definition bano_cam_get_image :: "cam \<Rightarrow> u8 list option \<times> nat \<times> string" where
  "bano_cam_get_image c = (png_buf c, png_size c, ''image/png'')"

section \<open>Every capture ends\<close>

text \<open>Four timeouts at most: the selection loop returns from any count below 4.\<close>

lemma redo_select_returns:
  assumes "unat b < 4"
  shows "\<exists>r. redo_select v b c s = Some r"
  using assms
proof (induction "4 - unat b" arbitrary: b c s)
  case (Suc n)
  obtain n1 s1 where 1: "v_select v (cam_fd c) (Some 500000) s = (n1, s1)" by (cases "v_select v (cam_fd c) (Some 500000) s")
  obtain r2 c2 s2 where 2: "stop_mmap_enabled v c s1 = (r2, c2, s2)" by (cases "stop_mmap_enabled v c s1")
  obtain r3 c3 s3 where 3: "start_mmap_enabled v c2 s2 = (r3, c3, s3)" by (cases "start_mmap_enabled v c2 s2")
  have s: "redo_select v b c s = (if n1 \<noteq> Sel_Ready then
      if b + 1 = 4 then Some (Err, c3, s3) else redo_select v (b + 1) c3 s3 else Some (Ok, c, s1))"
    by (subst redo_select.simps) (simp add: 1 2 3)
  have b1: "unat (b + 1) = unat b + 1" using Suc.prems by (simp add: unat_word_ariths)
  show ?case
  proof (cases "b + 1 = 4")
    case False
    have "unat (b + 1) \<noteq> 4" using False by (auto simp: word_unat_eq_iff)
    then have "unat (b + 1) < 4" "n = 4 - unat (b + 1)" using b1 Suc by auto
    with Suc.hyps(1) show ?thesis unfolding s by auto
  next
    case True
    show ?thesis unfolding s if_P [OF True] by (cases n1) auto
  qed
qed simp

lemma cap_pass_returns: "\<exists>r. cap_pass v c s = Some r"
proof -
  obtain r where "redo_select v 0 c s = Some r" using redo_select_returns [of 0 v c s] by auto
  then show ?thesis by (auto simp: cap_pass_def split: prod.splits)
qed

section \<open>A capture stays inside its buffers\<close>

text \<open>The bitmap has the size of the format.\<close>

definition fmt_dims :: "cam_fmt \<Rightarrow> nat \<Rightarrow> nat \<Rightarrow> bool" where
  "fmt_dims f w h \<longleftrightarrow> map_option (\<lambda>(c, w, h). (unat w, unat h)) (expand_format f) = Some (w, h)"

definition cam_ok :: "cam \<Rightarrow> bool" where
  "cam_ok c \<longleftrightarrow> bmp_wf (cam_bmp c) \<and> bmp_bpp (cam_bmp c) = 3
     \<and> fmt_dims (cam_fmt c) (bmp_width (cam_bmp c)) (bmp_height (cam_bmp c))"

lemma expand_format_even:
  assumes "expand_format f = Some (c, w, h)"
  obtains k j where "unat w = 2 * k" "unat h = 2 * j" "unat w * unat h * 3 < 2 ^ 32"
    and "unat (format_to_frame_size f) = (if c = V4L2_PIX_FMT_YUV420
          then unat w * unat h + unat w * unat h div 2 else 2 * (unat w * unat h))"
proof -
  have "unat w = 2 * (unat w div 2) \<and> unat h = 2 * (unat h div 2) \<and> unat w * unat h * 3 < 2 ^ 32 \<and>
     unat (format_to_frame_size f) = (if c = V4L2_PIX_FMT_YUV420
          then unat w * unat h + unat w * unat h div 2 else 2 * (unat w * unat h))"
    using assms by (cases f) (auto simp: format_to_frame_size_def V4L2_PIX_FMT_YUV420_def V4L2_PIX_FMT_YUYV_def)
  then show thesis by (intro that [of "unat w div 2" "unat h div 2"]) auto
qed

lemma trans_yuyv_inside:
  assumes "unat w = 2 * k" "2 * (unat w * unat h) \<le> length inp" "length out = 3 * (unat w * unat h)"
  shows "\<exists>d. trans_yuyv_to_rgb24 fp out inp w h = Some d \<and> length d = length out"
proof -
  have "length (yuyv_pixels fp (take (2 * (unat w * unat h)) inp)) = 6 * (k * unat h)"
    using assms(1,2) by (intro length_yuyv_pixels) simp
  then show ?thesis using trans_yuyv_pixels [OF assms(1,2), of out fp] assms(1,3) by simp
qed

lemma trans_frame_inside:
  assumes "cam_ok c" "unat (format_to_frame_size (cam_fmt c)) \<le> length frame"
  shows "\<exists>d. trans_frame fp c frame n = Some (c\<lparr>cam_bmp := set_data_buf d (cam_bmp c)\<rparr>)
    \<and> length d = data_size (cam_bmp c)"
proof -
  let ?b = "cam_bmp c" and ?o = "data_buf (cam_bmp c)"
  obtain f w h where e: "expand_format (cam_fmt c) = Some (f, w, h)" "bmp_width ?b = unat w" "bmp_height ?b = unat h"
    using assms(1) by (auto simp: cam_ok_def fmt_dims_def)
  obtain k j where d: "unat w = 2 * k" "unat h = 2 * j" "unat w * unat h * 3 < 2 ^ 32"
    "unat (format_to_frame_size (cam_fmt c)) = (if f = V4L2_PIX_FMT_YUV420
          then unat w * unat h + unat w * unat h div 2 else 2 * (unat w * unat h))"
    using expand_format_even [OF e(1)] by metis
  have o: "length ?o = 3 * (unat w * unat h)" "data_size ?b = length ?o"
    using assms(1) e data_buf_length [of ?b] by (auto simp: cam_ok_def bmp_wf_def)
  have y: "\<exists>d. trans_yuyv_to_rgb24 fp ?o frame w h = Some d \<and> length d = length ?o" if "f \<noteq> V4L2_PIX_FMT_YUV420"
    using that d assms(2) o by (intro trans_yuyv_inside) auto
  have p: "\<exists>d. trans_yuv420_to_rgb24 fp ?o frame w h = Some d \<and> length d = length ?o" if "f = V4L2_PIX_FMT_YUV420"
    using that d assms(2) o by (intro trans_yuv420_inside) auto
  have wh: "of_nat (bmp_width ?b) = w" "of_nat (bmp_height ?b) = h" using e by simp_all
  consider (planar) "cam_fmt c \<in> {BANO_CAM_FMT_YUV420_160_120, BANO_CAM_FMT_YUV420_320_240, BANO_CAM_FMT_YUV420_640_480}"
      "f = V4L2_PIX_FMT_YUV420"
    | (packed) "cam_fmt c \<in> {BANO_CAM_FMT_YUYV_160_120, BANO_CAM_FMT_YUYV_320_240, BANO_CAM_FMT_YUYV_640_480}"
      "f \<noteq> V4L2_PIX_FMT_YUV420"
    using e(1) by (cases "cam_fmt c") (auto simp: V4L2_PIX_FMT_YUV420_def V4L2_PIX_FMT_YUYV_def)
  then show ?thesis
  proof cases
    case planar
    from p [OF planar(2)] planar(1) o(2) show ?thesis by (auto simp: trans_frame_def Let_def wh)
  next
    case packed
    from y [OF packed(2)] packed(1) o(2) show ?thesis by (auto simp: trans_frame_def Let_def wh)
  qed
qed

lemma cam_ok_set_data:
  "cam_ok c \<Longrightarrow> length d = data_size (cam_bmp c) \<Longrightarrow> cam_ok (c\<lparr>cam_bmp := set_data_buf d (cam_bmp c)\<rparr>)"
  using set_data_buf_wf [of "cam_bmp c" d] 
  by (auto simp: cam_ok_def set_data_buf_def)

text \<open>The read mode: the frame buffer has the size of the format.\<close>

definition read_ok :: "cam \<Rightarrow> bool" where
  "read_ok c \<longleftrightarrow> cam_ok c \<and> \<not> is_dummy c \<and> \<not> is_mmap_enabled c
     \<and> length (fb_data c) = BANO_CAM_FB_COUNT \<and> length (fb_size c) = BANO_CAM_FB_COUNT
     \<and> (\<exists>buf. fb_data c ! 0 = Heap buf \<and> length buf = unat (format_to_frame_size (cam_fmt c)))"

lemma fill_length [simp]: "length (fill buf r) = length buf"
  by (simp add: fill_def)

lemma read_ok_update:
  assumes "read_ok c" "fb_data c ! 0 = Heap buf" "length d = data_size (cam_bmp c)"
  shows "read_ok (c\<lparr>fb_data := (fb_data c)[0 := Heap (fill buf r)]\<rparr>)"
    "read_ok (c\<lparr>fb_data := (fb_data c)[0 := Heap (fill buf r)], cam_bmp := set_data_buf d (cam_bmp c)\<rparr>)"
  using assms cam_ok_set_data [of c d] 
  by (auto simp: read_ok_def cam_ok_def BANO_CAM_FB_COUNT_def set_data_buf_def)

lemma read_ok_png: "read_ok c \<Longrightarrow> read_ok (c\<lparr>png_buf := p, png_size := n\<rparr>)"
  by (simp add: read_ok_def cam_ok_def)

lemma capture_mmap_disabled_inside:
  assumes "read_ok c"
  shows "\<exists>r c' s'. capture_mmap_disabled fp v c s = Some (r, c', s') \<and> read_ok c'"
proof -
  obtain buf where b: "fb_data c ! 0 = Heap buf" "length buf = unat (format_to_frame_size (cam_fmt c))"
    using assms by (auto simp: read_ok_def)
  have tf: "\<exists>c'. trans_frame fp (c\<lparr>fb_data := (fb_data c)[0 := Heap (fill buf r)]\<rparr>) (fill buf r) n = Some c' \<and> read_ok c'" for r n
  proof -
    let ?c = "c\<lparr>fb_data := (fb_data c)[0 := Heap (fill buf r)]\<rparr>"
    have "cam_ok ?c" using assms by (simp add: read_ok_def cam_ok_def)
    then obtain d where "trans_frame fp ?c (fill buf r) n = Some (?c\<lparr>cam_bmp := set_data_buf d (cam_bmp ?c)\<rparr>)"
        "length d = data_size (cam_bmp c)"
      using trans_frame_inside [of ?c "fill buf r" fp n] b by auto
    with read_ok_update(2) [OF assms b(1)] show ?thesis by auto
  qed
  have fl: "read_ok (c\<lparr>fb_data := (fb_data c)[0 := Heap (fill buf r)]\<rparr>)" for r
    using assms b by (auto simp: read_ok_def cam_ok_def BANO_CAM_FB_COUNT_def)
  obtain n s1 where n: "v_select v (cam_fd c) None s = (n, s1)" by (cases "v_select v (cam_fd c) None s")
  obtain o2 s2 where o: "v_read v (cam_fd c) (fb_size c ! 0) s1 = (o2, s2)" by (cases "v_read v (cam_fd c) (fb_size c ! 0) s1")
  show ?thesis
  proof (cases "n = Sel_Ready \<and> (\<exists>r. o2 = Some r \<and> 0 < length r)")
    case True
    then obtain r where r: "o2 = Some r" "0 < length r" by auto
    obtain c' where "trans_frame fp (c\<lparr>fb_data := (fb_data c)[0 := Heap (fill buf r)]\<rparr>) (fill buf r) (length r) = Some c'" "read_ok c'"
      using tf by blast
    with True r show ?thesis by (simp add: capture_mmap_disabled_def n o b)
  next
    case False
    then show ?thesis using assms fl by (cases n; cases o2) (auto simp: capture_mmap_disabled_def n o b Let_def)
  qed
qed

lemma map_frame_buffers_mode: "map_frame_buffers v n i c s = (r, c', s') \<Longrightarrow> is_mmap_enabled c' = is_mmap_enabled c"
proof (induction n arbitrary: i c s)
  case (Suc n)
  have m: "is_mmap_enabled c1 = is_mmap_enabled c" if "map_frame_buffer v c i s = (r1, c1, s1)" for r1 c1 s1
    using that by (auto simp: map_frame_buffer_def Let_def split: prod.splits option.splits if_splits)
  show ?case using Suc.prems by (auto simp: Let_def split: prod.splits rc.splits dest!: Suc.IH m)
qed simp

lemma start_mmap_enabled_mode: "start_mmap_enabled v c s = (r, c', s') \<Longrightarrow> is_mmap_enabled c' = is_mmap_enabled c"
  by (auto simp: start_mmap_enabled_def split: prod.splits option.splits rc.splits if_splits dest!: map_frame_buffers_mode)

lemma bano_cam_capture_inside:
  assumes "read_ok c"
  shows "\<exists>r c' s'. bano_cam_capture fp v c s = Some (r, c', s') \<and> read_ok c'"
proof -
  obtain r c1 s1 where "capture_mmap_disabled fp v c s = Some (r, c1, s1)" "read_ok c1"
    using capture_mmap_disabled_inside [OF assms, of fp v s] by blast
  then show ?thesis
    using assms by (cases r) (auto simp: bano_cam_capture_def read_ok_def cam_ok_def split: option.splits)
qed

text \<open>What \<open>bano_cam_open\<close> returns in the read mode satisfies it.\<close>

lemma frame_size_le: "unat (format_to_frame_size f) \<le> 614400"
  by (cases f) (simp_all add: format_to_frame_size_def V4L2_PIX_FMT_YUV420_def V4L2_PIX_FMT_YUYV_def)

lemma expand_format_area: "expand_format f = Some (c, w, h) \<Longrightarrow> 3 * unat w * unat h \<le> 921600"
  by (cases f) auto

lemma bano_cam_open_read_ok:
  assumes "bano_cam_open v junk ms c0 info s = (Ok, ms', c, s')" "\<not> is_dummy c" "\<not> is_mmap_enabled c"
    and "length (fb_data c0) = BANO_CAM_FB_COUNT" "length (fb_size c0) = BANO_CAM_FB_COUNT" "921600 \<le> length junk"
  shows "read_ok c"
proof -
  obtain f w h where e: "expand_format (ci_fmt info) = Some (f, w, h)"
    using assms(1) by (cases "expand_format (ci_fmt info)") (auto simp: bano_cam_open_def Let_def)
  obtain ms1 ob where o: "bano_bmp_open junk ms \<lparr>bi_bpp = 3, bi_width = unat w, bi_height = unat h\<rparr> = (ms1, ob)"
    by (cases "bano_bmp_open junk ms \<lparr>bi_bpp = 3, bi_width = unat w, bi_height = unat h\<rparr>")
  obtain b where b: "ob = Some b" using assms(1) e o by (cases ob) (auto simp: bano_cam_open_def Let_def)
  have "3 * unat w * unat h \<le> length junk" by (rule order_trans [OF expand_format_area [OF e] assms(6)])
  then have wf: "bmp_wf b" using o b by (intro bano_bmp_open_wf) auto
  have dim: "bmp_bpp b = 3" "bmp_width b = unat w" "bmp_height b = unat h"
    using o b by (auto simp: bano_bmp_open_def Let_def split: prod.splits if_splits)
  have fd: "fmt_dims (ci_fmt info) (unat w) (unat h)" using e by (simp add: fmt_dims_def)
  have mm: "is_mmap_enabled c3" if "start_mmap_enabled v c2 s2 = (r, c3, s3)" "is_mmap_enabled c2" for c2 s2 r c3 s3
    using start_mmap_enabled_mode [OF that(1)] that(2) by simp
  show ?thesis
    using assms e o b wf dim fd frame_size_le [of "ci_fmt info"]
    by (auto simp: bano_cam_open_def Let_def read_ok_def cam_ok_def start_mmap_disabled_def BANO_CAM_FB_COUNT_def
        split: option.splits if_splits prod.splits rc.splits dest!: mm)
qed

text \<open>A whole packed frame that was read becomes the image.\<close>

lemma capture_packed_frame:
  assumes "read_ok c" "cam_fmt c \<in> {BANO_CAM_FMT_YUYV_160_120, BANO_CAM_FMT_YUYV_320_240, BANO_CAM_FMT_YUYV_640_480}"
    and "v_select v (cam_fd c) None s = (Sel_Ready, s1)" "v_read v (cam_fd c) (fb_size c ! 0) s1 = (Some r, s2)"
    and "length r = unat (format_to_frame_size (cam_fmt c))"
    and "v_png v (yuyv_pixels fp r) (bmp_width (cam_bmp c)) (bmp_height (cam_bmp c)) = Some p"
  shows "\<exists>c'. bano_cam_capture fp v c s = Some (Ok, c', s2) \<and> data_buf (cam_bmp c') = yuyv_pixels fp r
    \<and> bano_cam_get_image c' = (Some p, length p, ''image/png'')"
proof -
  obtain buf where b: "fb_data c ! 0 = Heap buf" "length buf = length r"
    using assms(1,5) by (auto simp: read_ok_def)
  have fr: "fill buf r = r" using b by (simp add: fill_def)
  let ?c = "c\<lparr>fb_data := (fb_data c)[0 := Heap r]\<rparr>" and ?b = "cam_bmp c"
  obtain f w h where e: "expand_format (cam_fmt c) = Some (f, w, h)" "bmp_width ?b = unat w" "bmp_height ?b = unat h"
    using assms(1) by (auto simp: read_ok_def cam_ok_def fmt_dims_def)
  obtain k j where d: "unat w = 2 * k" "unat h = 2 * j" 
    "length r = (if f = V4L2_PIX_FMT_YUV420
          then unat w * unat h + unat w * unat h div 2 else 2 * (unat w * unat h))"
    using expand_format_even [OF e(1)] assms(5) by metis
  have f: "f \<noteq> V4L2_PIX_FMT_YUV420"
    using e(1) assms(2) by (auto simp: V4L2_PIX_FMT_YUV420_def V4L2_PIX_FMT_YUYV_def)
  have wf: "bmp_wf ?b" "data_size ?b = 3 * (unat w * unat h)" "length (data_buf ?b) = 3 * (unat w * unat h)"
    using assms(1) e data_buf_length [of ?b] by (auto simp: read_ok_def cam_ok_def bmp_wf_def)
  have px: "trans_yuyv_to_rgb24 fp (data_buf ?b) r w h = Some (yuyv_pixels fp r)"
    using trans_yuyv_pixels [OF d(1), of h r "data_buf ?b" fp] wf d f by simp
  have lp: "length (yuyv_pixels fp r) = data_size ?b"
    using length_yuyv_pixels [of r "k * unat h" fp] d f wf by simp
  let ?c1 = "?c\<lparr>cam_bmp := set_data_buf (yuyv_pixels fp r) ?b\<rparr>"
  have tf: "trans_frame fp ?c r (length r) = Some ?c1"
    using assms(2) px e by (auto simp: trans_frame_def Let_def)
  have r0: "0 < length r" using assms(2,5) by (auto simp: format_to_frame_size_def V4L2_PIX_FMT_YUV420_def V4L2_PIX_FMT_YUYV_def)
  have cap: "capture_mmap_disabled fp v c s = Some (Ok, ?c1, s2)"
    using assms(3,4) b fr tf r0 by (simp add: capture_mmap_disabled_def Let_def)
  have db: "data_buf (set_data_buf (yuyv_pixels fp r) ?b) = yuyv_pixels fp r"
    using set_data_buf_wf [OF wf(1) lp] by simp
  show ?thesis
    using assms(1,6) cap db by (simp add: bano_cam_capture_def bano_cam_get_image_def read_ok_def set_data_buf_def)
qed

text \<open>A device number above 999 is cut to three digits.\<close>

lemma video_path_cut:
  "video_path \<lparr>ci_flags = BANO_CAM_FLAG_ID, ci_id = 1000, ci_fmt = f\<rparr> = video_path \<lparr>ci_flags = BANO_CAM_FLAG_ID, ci_id = 100, ci_fmt = g\<rparr>"
proof -
  have "dec 1000 = ''1000''" "dec 100 = ''100''" by code_simp+
  then show ?thesis by (simp add: video_path_def dec_int_def BANO_CAM_FLAG_ID_def)
qed

end
