(* ===== verification/Bano_Sms.thy ===== *)
theory Bano_Sms
  imports Bano_Parser
begin

text \<open>
  \<open>bano_sms.c\<close>: notification over the SMS gateway of the operator: the handle with its decrypted
  credentials, the request, the parser of the reply's header and the connection. The
  functions of \<open>matrixssl\<close>, the socket calls, \<open>getenv\<close> and \<open>inet_addr\<close> are the parameter
  \<open>ssl_lib\<close>, on a state \<open>'s\<close> of their own; \<open>'k\<close> is its AES key. A result \<open>None\<close> is an access
  outside a buffer, or a division by zero.
\<close>

section \<open>The library\<close>

text \<open>The codes of \<open>matrixssl\<close> the client looks at; \<open>Ssl_Error\<close> is every negative one.\<close>

datatype ssl_rc = Ssl_Error | MATRIXSSL_SUCCESS | MATRIXSSL_REQUEST_SEND | MATRIXSSL_REQUEST_RECV
  | MATRIXSSL_REQUEST_CLOSE | MATRIXSSL_APP_DATA | MATRIXSSL_APP_DATA_COMPRESSED
  | MATRIXSSL_HANDSHAKE_COMPLETE | MATRIXSSL_RECEIVED_ALERT

text \<open>
  Data the library hands out lies in a buffer of its own: \<open>sd_prev\<close> and \<open>sd_next\<close> are the bytes
  before and behind it there.
\<close>

record ssl_data =
  sd_bytes :: "u8 list"
  sd_prev :: u8
  sd_next :: u8

record ('s, 'k) ssl_lib =
  sl_open :: "'s \<Rightarrow> rc \<times> 's"
  sl_close :: "'s \<Rightarrow> 's"
  sl_getenv :: "string \<Rightarrow> string option"
  sl_aes_init :: "u8 list \<Rightarrow> 'k option"
  sl_aes_enc :: "'k \<Rightarrow> u8 list \<Rightarrow> u8 list"
  sl_aes_dec :: "'k \<Rightarrow> u8 list \<Rightarrow> u8 list"
  sl_inet_addr :: "string \<Rightarrow> u32"
  sl_socket :: "'s \<Rightarrow> int \<times> 's"
  sl_cloexec :: "int \<Rightarrow> 's \<Rightarrow> 's"
  sl_connect :: "int \<Rightarrow> u16 \<Rightarrow> u32 \<Rightarrow> 's \<Rightarrow> int \<times> 's"
  sl_new_session :: "int \<Rightarrow> string \<Rightarrow> 's \<Rightarrow> ssl_rc \<times> 's"
  sl_get_outdata :: "'s \<Rightarrow> u8 list \<times> 's"
  sl_send :: "int \<Rightarrow> bool \<Rightarrow> u8 list \<Rightarrow> 's \<Rightarrow> int \<times> 's"
  sl_sent_data :: "int \<Rightarrow> 's \<Rightarrow> ssl_rc \<times> 's"
  sl_get_writebuf :: "nat \<Rightarrow> 's \<Rightarrow> int \<times> 's"
  sl_encode_writebuf :: "string \<Rightarrow> 's \<Rightarrow> rc \<times> 's"
  sl_get_readbuf :: "'s \<Rightarrow> int \<times> 's"
  sl_recv :: "int \<Rightarrow> int \<Rightarrow> 's \<Rightarrow> int \<times> 's"
  sl_received_data :: "int \<Rightarrow> 's \<Rightarrow> (ssl_rc \<times> ssl_data) \<times> 's"
  sl_processed_data :: "'s \<Rightarrow> (ssl_rc \<times> ssl_data) \<times> 's"
  sl_closure_alert :: "'s \<Rightarrow> rc \<times> 's"
  sl_nonblock :: "int \<Rightarrow> 's \<Rightarrow> 's"
  sl_delete_session :: "'s \<Rightarrow> 's"
  sl_close_fd :: "int \<Rightarrow> 's \<Rightarrow> 's"
  sl_new_keys :: "'s \<Rightarrow> rc \<times> 's"
  sl_load_keys :: "'s \<Rightarrow> rc \<times> 's"
  sl_new_session_id :: "'s \<Rightarrow> 's"
  sl_delete_keys :: "'s \<Rightarrow> 's"
  sl_version :: string

section \<open>The handle\<close>

definition BANO_SMS_LOGIN_SIZE :: nat where "BANO_SMS_LOGIN_SIZE = 8"
definition BANO_SMS_PASS_SIZE :: nat where "BANO_SMS_PASS_SIZE = 14"
definition BANO_SMS_CREDS_SIZE :: nat where "BANO_SMS_CREDS_SIZE = 32"

record sms_info =
  sms_addr :: "string option"
  sms_port :: "string option"
  sms_creds :: "u8 list"

record 'k sms =
  aes_key :: 'k
  sms_login :: "u8 list"
  sms_pass :: "u8 list"
  sms_sockaddr :: "u16 \<times> u32"
  addr_string :: string

definition bano_sms_init_info :: "sms_info \<Rightarrow> sms_info" where
  "bano_sms_init_info i = i\<lparr>sms_addr := None, sms_port := None\<rparr>"

text \<open>The characters of a byte array up to its first 0, and a string as bytes.\<close>

definition bytes_str :: "u8 list \<Rightarrow> string" where
  "bytes_str bs = c_str (map (\<lambda>b. char_of (unat b)) bs)"

definition str_bytes :: "string \<Rightarrow> u8 list" where
  "str_bytes s = map of_char s"

text \<open>The key of 32 bytes repeats the text of the environment; the remainder of an empty text is undefined.\<close>

definition sms_key :: "string \<Rightarrow> u8 list option" where
  "sms_key k = (let b = str_bytes k; len = length k in
     if len = 0 then None else Some (map (\<lambda>i. b ! (i mod len)) [0..<32]))"

text \<open>The two blocks are encrypted, and decrypted, one by one.\<close>

definition bano_sms_encrypt_creds :: "('s, 'k) ssl_lib \<Rightarrow> 'k \<Rightarrow> u8 list \<Rightarrow> u8 list \<Rightarrow> u8 list" where
  "bano_sms_encrypt_creds lib k l p =
     (let x = take BANO_SMS_LOGIN_SIZE l @ take BANO_SMS_PASS_SIZE p
            @ replicate (BANO_SMS_CREDS_SIZE - (BANO_SMS_LOGIN_SIZE + BANO_SMS_PASS_SIZE)) 0
      in sl_aes_enc lib k (take 16 x) @ sl_aes_enc lib k (take 16 (drop 16 x)))"

definition bano_sms_decrypt_creds :: "('s, 'k) ssl_lib \<Rightarrow> 'k \<Rightarrow> u8 list \<Rightarrow> u8 list \<times> u8 list" where
  "bano_sms_decrypt_creds lib k x =
     (let xx = sl_aes_dec lib k (take 16 x) @ sl_aes_dec lib k (take 16 (drop 16 x))
      in (take BANO_SMS_LOGIN_SIZE xx @ [0], take BANO_SMS_PASS_SIZE (drop BANO_SMS_LOGIN_SIZE xx) @ [0]))"

text \<open>
  The low 16 bits of \<open>atoi\<close>. Without a port \<open>atoi\<close> reads \<open>NULL\<close>; the address is copied into
  16 bytes.
\<close>

definition atoi_u16 :: "nat \<Rightarrow> string \<Rightarrow> u16" where
  "atoi_u16 W s = of_nat (strtoul W s 10)"

definition sms_address :: "('s, 'k) ssl_lib \<Rightarrow> nat \<Rightarrow> sms_info \<Rightarrow> 'k sms \<Rightarrow> 'k sms option" where
  "sms_address lib W info h =
     (case sms_addr info of
        None \<Rightarrow> Some h
      | Some a \<Rightarrow>
        (case sms_port info of
           None \<Rightarrow> None
         | Some p \<Rightarrow>
           if 16 \<le> length a then None
           else Some (h\<lparr>sms_sockaddr := (atoi_u16 W p, sl_inet_addr lib a), addr_string := a\<rparr>)))"

definition bano_sms_open ::
  "('s, 'k) ssl_lib \<Rightarrow> nat \<Rightarrow> 'k sms \<Rightarrow> sms_info \<Rightarrow> 's \<Rightarrow> (rc \<times> 'k sms \<times> 's) option" where
  "bano_sms_open lib W h info s =
     (case sl_open lib s of
        (Err, s1) \<Rightarrow> Some (Err, h, s1)
      | (Ok, s1) \<Rightarrow>
        (case sl_getenv lib ''BANO_SMS_KEY'' of
           None \<Rightarrow> Some (Err, h, sl_close lib s1)
         | Some k \<Rightarrow>
           Option.bind (sms_key k) (\<lambda>buf.
             case sl_aes_init lib buf of
               None \<Rightarrow> Some (Err, h, sl_close lib s1)
             | Some key \<Rightarrow>
               (case bano_sms_decrypt_creds lib key (sms_creds info) of (l, p) \<Rightarrow>
                 map_option (\<lambda>h'. (Ok, h', s1))
                   (sms_address lib W info (h\<lparr>aes_key := key, sms_login := l, sms_pass := p\<rparr>))))))"

definition bano_sms_close :: "('s, 'k) ssl_lib \<Rightarrow> 's \<Rightarrow> rc \<times> 's" where
  "bano_sms_close lib s = (Ok, sl_close lib s)"

section \<open>The reply's header\<close>

definition HTTPS_BUFFER_MAX :: nat where "HTTPS_BUFFER_MAX = 256"

datatype https_rc = HTTPS_PARTIAL | HTTPS_COMPLETE | HTTPS_ERROR

text \<open>\<open>parsebuf\<close> is \<open>None\<close> for \<open>NULL\<close>; its length is \<open>parsebuflen\<close>.\<close>

record http_conn =
  parsebuf :: "u8 list option"
  cp_complete :: bool
  bytes_received :: u32

abbreviation (input) LF :: u8 where "LF \<equiv> 10"
abbreviation (input) CR :: u8 where "CR \<equiv> 13"

definition to_newline :: "u8 list \<Rightarrow> nat" where
  "to_newline s = length (takeWhile (\<lambda>b. b \<noteq> LF) s)"

text \<open>
  The lines from \<open>L_PARSE_LINE\<close> on, in the incoming buffer: \<open>data\<close> is what is left of it, \<open>prev\<close>
  the byte before.
\<close>

function parse_lines :: "u8 \<Rightarrow> u8 list \<Rightarrow> https_rc \<times> u8 list option" where
  "parse_lines prev data =
     (let n = to_newline data in
      if n < length data then
        (if (if n = 0 then prev else data ! (n - 1)) \<noteq> CR then (HTTPS_ERROR, None)
         else if n = 1 then (HTTPS_COMPLETE, None)
         else parse_lines LF (drop (n + 1) data))
      else (HTTPS_PARTIAL, if data = [] then None else Some data))"
  by auto
termination
  by (relation "measure (\<lambda>(p, d). length d)") (auto simp: to_newline_def)

declare parse_lines.simps [simp del]

text \<open>
  With a saved partial line, data up to the newline is appended to it; the character behind the
  data is looked at too. The first line is then parsed in the saved buffer, and the others in
  what is left of the incoming one.
\<close>

definition httpBasicParse :: "http_conn \<Rightarrow> ssl_data \<Rightarrow> (https_rc \<times> http_conn) option" where
  "httpBasicParse cp d =
     (let buf = sd_bytes d in
      if buf = [] then Some (HTTPS_PARTIAL, cp)
      else (case parsebuf cp of
        None \<Rightarrow>
          (case parse_lines (sd_prev d) buf of
             (HTTPS_PARTIAL, sv) \<Rightarrow> Some (HTTPS_PARTIAL, cp\<lparr>parsebuf := sv\<rparr>)
           | (r, _) \<Rightarrow> Some (r, cp))
      | Some old \<Rightarrow>
          (let n = to_newline buf;
               moved = (if n < length buf then take (n + 1) buf
                        else if sd_next d = LF then buf @ [LF] else buf);
               saved = old @ moved; m = to_newline saved
           in
           if HTTPS_BUFFER_MAX < length moved then Some (HTTPS_ERROR, cp)
           else if m < length saved then
             (if m = 0 then None
              else if saved ! (m - 1) \<noteq> CR then Some (HTTPS_ERROR, cp\<lparr>parsebuf := Some saved\<rparr>)
              else if m = 1 then Some (HTTPS_COMPLETE, cp\<lparr>parsebuf := None\<rparr>)
              else if length buf < length moved then None
              else (case parse_lines (last moved) (drop (length moved) buf) of
                (HTTPS_PARTIAL, sv) \<Rightarrow> Some (HTTPS_PARTIAL, cp\<lparr>parsebuf := sv\<rparr>)
              | (r, _) \<Rightarrow> Some (r, cp\<lparr>parsebuf := None\<rparr>)))
           else Some (HTTPS_PARTIAL, cp\<lparr>parsebuf := Some saved\<rparr>))))"

section \<open>The connection\<close>

definition crlf :: string where "crlf = [CHR 0x0D, CHR 0x0A]"

text \<open>The request's text; \<open>g_path\<close> stands for its \<open>%s\<close>.\<close>

definition request_head :: string where "request_head = ''GET ''"

definition request_tail :: "string \<Rightarrow> string" where
  "request_tail version = '' HTTP/1.0'' @ crlf @ ''User-Agent: MatrixSSL/'' @ version @ crlf
     @ ''Accept: */*'' @ crlf @ ''Host: smsapi.free-mobile.fr'' @ crlf @ ''Connection: Keep-Alive'' @ crlf @ crlf"

definition httpWriteRequest :: "('s, 'k) ssl_lib \<Rightarrow> string \<Rightarrow> 's \<Rightarrow> rc \<times> 's" where
  "httpWriteRequest lib path s =
     (let text = request_head @ path @ request_tail (sl_version lib); requested = length text + 3 in
      case sl_get_writebuf lib requested s of (available, s1) \<Rightarrow>
        if available < 0 then (Err, s1)
        else sl_encode_writebuf lib (take (min requested (nat available) - 1) text) s1)"

definition g_ip :: string where "g_ip = ''212.27.40.200''"
definition g_port :: u16 where "g_port = 443"

text \<open>The descriptor, negative when there is no socket, and the error of \<open>connect\<close>.\<close>

definition socketConnect :: "('s, 'k) ssl_lib \<Rightarrow> string \<Rightarrow> u16 \<Rightarrow> 's \<Rightarrow> (int \<times> int) \<times> 's" where
  "socketConnect lib ip port s =
     (case sl_socket lib s of (fd, s1) \<Rightarrow>
       if fd < 0 then ((- 1, - 1), s1)
       else (case sl_connect lib fd port (sl_inet_addr lib ip) (sl_cloexec lib fd s1) of (r, s2) \<Rightarrow>
         ((fd, if r < 0 then - 1 else 0), s2)))"

definition closeConn :: "('s, 'k) ssl_lib \<Rightarrow> int \<Rightarrow> 's \<Rightarrow> 's" where
  "closeConn lib fd s =
     (let s1 = sl_nonblock lib fd s;
          s2 = (case sl_closure_alert lib s1 of
             (Err, t) \<Rightarrow> t
           | (Ok, t) \<Rightarrow>
             (case sl_get_outdata lib t of (out, t1) \<Rightarrow>
               if out = [] then t1
               else (case sl_send lib fd True out t1 of (n, t2) \<Rightarrow>
                 if 0 < n then snd (sl_sent_data lib n t2) else t2)));
          s3 = sl_delete_session lib s2
      in if fd \<noteq> - 1 then sl_close_fd lib fd s3 else s3)"

text \<open>Where the client is: at one of its labels, or returned.\<close>

datatype https_pc = WRITE_MORE | READ_MORE | PROCESS_MORE ssl_rc ssl_data | Returned rc

record 's https =
  hs_pc :: https_pc
  hs_conn :: http_conn
  hs_world :: 's

definition L_CLOSE_ERR :: "('s, 'k) ssl_lib \<Rightarrow> int \<Rightarrow> http_conn \<Rightarrow> 's \<Rightarrow> 's https" where
  "L_CLOSE_ERR lib fd cp s =
     \<lparr>hs_pc = Returned Err, hs_conn = cp\<lparr>parsebuf := None\<rparr>, hs_world = sl_close_fd lib fd (sl_delete_session lib s)\<rparr>"

definition https_close :: "('s, 'k) ssl_lib \<Rightarrow> int \<Rightarrow> rc \<Rightarrow> http_conn \<Rightarrow> 's \<Rightarrow> 's https" where
  "https_close lib fd r cp s =
     \<lparr>hs_pc = Returned r, hs_conn = cp\<lparr>parsebuf := None\<rparr>, hs_world = closeConn lib fd s\<rparr>"

text \<open>One turn of the loop at \<open>WRITE_MORE\<close>; without data to send it is over.\<close>

definition write_more :: "('s, 'k) ssl_lib \<Rightarrow> int \<Rightarrow> string \<Rightarrow> http_conn \<Rightarrow> 's \<Rightarrow> 's https" where
  "write_more lib fd path cp s =
     (case sl_get_outdata lib s of (out, s1) \<Rightarrow>
       if out = [] then \<lparr>hs_pc = READ_MORE, hs_conn = cp, hs_world = s1\<rparr>
       else (case sl_send lib fd False out s1 of (n, s2) \<Rightarrow>
         if n \<le> 0 then L_CLOSE_ERR lib fd cp s2
         else (case sl_sent_data lib n s2 of (r, s3) \<Rightarrow>
           if r = Ssl_Error then L_CLOSE_ERR lib fd cp s3
           else if r = MATRIXSSL_REQUEST_CLOSE
           then \<lparr>hs_pc = Returned Ok, hs_conn = cp, hs_world = closeConn lib fd s3\<rparr>
           else if r = MATRIXSSL_HANDSHAKE_COMPLETE then
             (case httpWriteRequest lib path s3 of
                (Err, s4) \<Rightarrow> L_CLOSE_ERR lib fd cp s4
              | (Ok, s4) \<Rightarrow> \<lparr>hs_pc = WRITE_MORE, hs_conn = cp, hs_world = s4\<rparr>)
           else \<lparr>hs_pc = WRITE_MORE, hs_conn = cp, hs_world = s3\<rparr>)))"

definition read_more :: "('s, 'k) ssl_lib \<Rightarrow> int \<Rightarrow> http_conn \<Rightarrow> 's \<Rightarrow> 's https" where
  "read_more lib fd cp s =
     (case sl_get_readbuf lib s of (len, s1) \<Rightarrow>
       if len \<le> 0 then L_CLOSE_ERR lib fd cp s1
       else (case sl_recv lib fd len s1 of (n, s2) \<Rightarrow>
         if n \<le> 0 then L_CLOSE_ERR lib fd cp s2
         else (case sl_received_data lib n s2 of ((r, d), s3) \<Rightarrow>
           if r = Ssl_Error then L_CLOSE_ERR lib fd cp s3
           else \<lparr>hs_pc = PROCESS_MORE r d, hs_conn = cp, hs_world = s3\<rparr>)))"

text \<open>
  \<open>bytes_received >= 0\<close> compares an unsigned number: the client is done after the first
  application data.
\<close>

definition app_data :: "('s, 'k) ssl_lib \<Rightarrow> int \<Rightarrow> ssl_data \<Rightarrow> http_conn \<Rightarrow> 's \<Rightarrow> 's https option" where
  "app_data lib fd d cp s =
     Option.bind (if cp_complete cp then Some (HTTPS_PARTIAL, cp) else httpBasicParse cp d) (\<lambda>(r, cp1).
       if r = HTTPS_ERROR then Some (https_close lib fd Err cp1 s)
       else
         let cp2 = (if r = HTTPS_COMPLETE then cp1\<lparr>cp_complete := True\<rparr> else cp1);
             cp3 = cp2\<lparr>bytes_received := bytes_received cp2 + of_nat (length (sd_bytes d))\<rparr>
         in case sl_processed_data lib s of ((r2, d2), s1) \<Rightarrow>
           if 0 \<le> bytes_received cp3 then Some (https_close lib fd Ok cp3 s1)
           else if r2 = MATRIXSSL_SUCCESS then Some \<lparr>hs_pc = READ_MORE, hs_conn = cp3, hs_world = s1\<rparr>
           else Some \<lparr>hs_pc = PROCESS_MORE r2 d2, hs_conn = cp3, hs_world = s1\<rparr>)"

definition SSL_ALERT_LEVEL_FATAL :: u8 where "SSL_ALERT_LEVEL_FATAL = 2"
definition SSL_ALERT_CLOSE_NOTIFY :: u8 where "SSL_ALERT_CLOSE_NOTIFY = 0"

definition received_alert :: "('s, 'k) ssl_lib \<Rightarrow> int \<Rightarrow> ssl_data \<Rightarrow> http_conn \<Rightarrow> 's \<Rightarrow> 's https option" where
  "received_alert lib fd d cp s =
     (case sd_bytes d of
        [] \<Rightarrow> None
      | level # ds \<Rightarrow>
        if level = SSL_ALERT_LEVEL_FATAL then Some (L_CLOSE_ERR lib fd cp s)
        else (case ds of
          [] \<Rightarrow> None
        | descr # _ \<Rightarrow>
          if descr = SSL_ALERT_CLOSE_NOTIFY then Some (https_close lib fd Ok cp s)
          else (case sl_processed_data lib s of ((r, d2), s1) \<Rightarrow>
            if r = MATRIXSSL_SUCCESS then Some \<lparr>hs_pc = READ_MORE, hs_conn = cp, hs_world = s1\<rparr>
            else Some \<lparr>hs_pc = PROCESS_MORE r d2, hs_conn = cp, hs_world = s1\<rparr>)))"

definition process_more :: "('s, 'k) ssl_lib \<Rightarrow> int \<Rightarrow> string \<Rightarrow> ssl_rc \<Rightarrow> ssl_data \<Rightarrow> http_conn \<Rightarrow> 's \<Rightarrow> 's https option" where
  "process_more lib fd path r d cp s =
     (case r of
        MATRIXSSL_HANDSHAKE_COMPLETE \<Rightarrow>
          (case httpWriteRequest lib path s of
             (Err, s1) \<Rightarrow> Some (L_CLOSE_ERR lib fd cp s1)
           | (Ok, s1) \<Rightarrow> Some \<lparr>hs_pc = WRITE_MORE, hs_conn = cp, hs_world = s1\<rparr>)
      | MATRIXSSL_APP_DATA \<Rightarrow> app_data lib fd d cp s
      | MATRIXSSL_APP_DATA_COMPRESSED \<Rightarrow> app_data lib fd d cp s
      | MATRIXSSL_REQUEST_SEND \<Rightarrow> Some \<lparr>hs_pc = WRITE_MORE, hs_conn = cp, hs_world = s\<rparr>
      | MATRIXSSL_REQUEST_RECV \<Rightarrow> Some \<lparr>hs_pc = READ_MORE, hs_conn = cp, hs_world = s\<rparr>
      | MATRIXSSL_RECEIVED_ALERT \<Rightarrow> received_alert lib fd d cp s
      | _ \<Rightarrow> Some (L_CLOSE_ERR lib fd cp s))"

definition https_step :: "('s, 'k) ssl_lib \<Rightarrow> int \<Rightarrow> string \<Rightarrow> 's https \<Rightarrow> 's https option" where
  "https_step lib fd path x =
     (case hs_pc x of
        WRITE_MORE \<Rightarrow> Some (write_more lib fd path (hs_conn x) (hs_world x))
      | READ_MORE \<Rightarrow> Some (read_more lib fd (hs_conn x) (hs_world x))
      | PROCESS_MORE r d \<Rightarrow> process_more lib fd path r d (hs_conn x) (hs_world x)
      | Returned r \<Rightarrow> Some x)"

text \<open>The peer decides how long the exchange goes on: the turns are bounded by the fuel.\<close>

fun https_run :: "nat \<Rightarrow> ('s, 'k) ssl_lib \<Rightarrow> int \<Rightarrow> string \<Rightarrow> 's https \<Rightarrow> (rc \<times> 's) outcome" where
  "https_run 0 lib fd path x = Running"
| "https_run (Suc n) lib fd path x =
     (case hs_pc x of
        Returned r \<Rightarrow> Done (r, hs_world x)
      | _ \<Rightarrow> (case https_step lib fd path x of None \<Rightarrow> Fault | Some y \<Rightarrow> https_run n lib fd path y))"

text \<open>A session that cannot be made leaves the socket open; a connection that fails does too.\<close>

definition httpsClientConnection :: "nat \<Rightarrow> ('s, 'k) ssl_lib \<Rightarrow> string \<Rightarrow> 's \<Rightarrow> (rc \<times> 's) outcome" where
  "httpsClientConnection fuel lib path s =
     (case socketConnect lib g_ip g_port s of ((fd, r), s1) \<Rightarrow>
       if fd = - 1 \<or> r \<noteq> 0 then Done (Err, s1)
       else (case sl_new_session lib fd g_ip s1 of (r2, s2) \<Rightarrow>
         if r2 \<noteq> MATRIXSSL_REQUEST_SEND then Done (Err, s2)
         else https_run fuel lib fd path
           \<lparr>hs_pc = WRITE_MORE, hs_conn = \<lparr>parsebuf = None, cp_complete = False, bytes_received = 0\<rparr>, hs_world = s2\<rparr>))"

section \<open>Sending\<close>

definition request_path :: "string \<Rightarrow> string \<Rightarrow> string \<Rightarrow> string" where
  "request_path login pass msg =
     ''/sendmsg?'' @ ''user='' @ login @ ''&pass='' @ pass @ ''&api_id='' @ pass @ ''&msg='' @ msg"

text \<open>\<open>g_path\<close> has 256 bytes, and the text a terminator: a longer one is written behind it.\<close>

definition bano_sms_send :: "nat \<Rightarrow> ('s, 'k) ssl_lib \<Rightarrow> 'k sms \<Rightarrow> string \<Rightarrow> 's \<Rightarrow> (rc \<times> 's) outcome" where
  "bano_sms_send fuel lib h msg s =
     (let path = request_path (bytes_str (sms_login h)) (bytes_str (sms_pass h)) msg in
      if 256 \<le> length path then Fault
      else (case sl_new_keys lib s of
         (Err, s1) \<Rightarrow> Done (Err, s1)
       | (Ok, s1) \<Rightarrow>
         (case sl_load_keys lib s1 of
            (Err, s2) \<Rightarrow> Done (Err, s2)
          | (Ok, s2) \<Rightarrow>
            (case httpsClientConnection fuel lib path (sl_new_session_id lib s2) of
               Running \<Rightarrow> Running
             | Fault \<Rightarrow> Fault
             | Done (Err, s3) \<Rightarrow> Done (Err, s3)
             | Done (Ok, s3) \<Rightarrow> Done (Ok, sl_delete_keys lib s3)))))"

definition bano_sms_send_uint32 :: "nat \<Rightarrow> ('s, 'k) ssl_lib \<Rightarrow> 'k sms \<Rightarrow> u32 \<Rightarrow> 's \<Rightarrow> (rc \<times> 's) outcome" where
  "bano_sms_send_uint32 fuel lib h x s = bano_sms_send fuel lib h (hex8 x) s"

section \<open>Credentials\<close>

text \<open>
  What is relied on of a block cipher, for the keys it has initialised: blocks of 16 bytes, and
  decryption undoes encryption.
\<close>

locale block_cipher =
  fixes init :: "u8 list \<Rightarrow> 'k option" and enc dec :: "'k \<Rightarrow> u8 list \<Rightarrow> u8 list"
  assumes enc_length: "init buf = Some k \<Longrightarrow> length b = 16 \<Longrightarrow> length (enc k b) = 16"
    and dec_enc: "init buf = Some k \<Longrightarrow> length b = 16 \<Longrightarrow> dec k (enc k b) = b"
begin

text \<open>Two blocks, one after the other.\<close>

lemma two_blocks:
  assumes "init buf = Some k" "length x = 32"
  shows "length (enc k (take 16 x) @ enc k (take 16 (drop 16 x))) = 32"
    and "y = enc k (take 16 x) @ enc k (take 16 (drop 16 x)) \<Longrightarrow> dec k (take 16 y) @ dec k (take 16 (drop 16 y)) = x"
proof -
  have len: "length (take 16 x) = 16" "length (take 16 (drop 16 x)) = 16" using assms(2) by simp_all
  note e = enc_length [OF assms(1) len(1)] enc_length [OF assms(1) len(2)]
  show "length (enc k (take 16 x) @ enc k (take 16 (drop 16 x))) = 32" using e by simp
  have "take 16 x @ take 16 (drop 16 x) = x" using assms(2) append_take_drop_id [of 16 x] by simp
  then show "y = enc k (take 16 x) @ enc k (take 16 (drop 16 x)) \<Longrightarrow> dec k (take 16 y) @ dec k (take 16 (drop 16 y)) = x"
    using e dec_enc [OF assms(1) len(1)] dec_enc [OF assms(1) len(2)] by simp
qed

end

text \<open>The library's AES is one.\<close>

definition aes_ok :: "('s, 'k) ssl_lib \<Rightarrow> bool" where
  "aes_ok lib \<longleftrightarrow> block_cipher (sl_aes_init lib) (sl_aes_enc lib) (sl_aes_dec lib)"

text \<open>What is encrypted: the login, the password and zeros.\<close>

definition creds_plain :: "u8 list \<Rightarrow> u8 list \<Rightarrow> u8 list" where
  "creds_plain l p = take BANO_SMS_LOGIN_SIZE l @ take BANO_SMS_PASS_SIZE p
     @ replicate (BANO_SMS_CREDS_SIZE - (BANO_SMS_LOGIN_SIZE + BANO_SMS_PASS_SIZE)) 0"

lemmas creds_sizes = BANO_SMS_LOGIN_SIZE_def BANO_SMS_PASS_SIZE_def BANO_SMS_CREDS_SIZE_def

lemma encrypt_creds_blocks:
  "bano_sms_encrypt_creds lib k l p = sl_aes_enc lib k (take 16 (creds_plain l p)) @ sl_aes_enc lib k (take 16 (drop 16 (creds_plain l p)))"
  by (simp add: bano_sms_encrypt_creds_def creds_plain_def Let_def)

lemma length_encrypt_creds:
  assumes "aes_ok lib" "sl_aes_init lib buf = Some k" "length l = BANO_SMS_LOGIN_SIZE" "length p = BANO_SMS_PASS_SIZE"
  shows "length (bano_sms_encrypt_creds lib k l p) = BANO_SMS_CREDS_SIZE"
proof -
  have "length (creds_plain l p) = 32" using assms(3,4) by (simp add: creds_plain_def creds_sizes)
  from block_cipher.two_blocks(1) [OF assms(1) [unfolded aes_ok_def] assms(2) this] show ?thesis
    by (simp add: encrypt_creds_blocks creds_sizes)
qed

lemma creds_round_trip:
  assumes "aes_ok lib" "sl_aes_init lib buf = Some k" "length l = BANO_SMS_LOGIN_SIZE" "length p = BANO_SMS_PASS_SIZE"
  shows "bano_sms_decrypt_creds lib k (bano_sms_encrypt_creds lib k l p) = (l @ [0], p @ [0])"
proof -
  have "length (creds_plain l p) = 32" using assms(3,4) by (simp add: creds_plain_def creds_sizes)
  note r = block_cipher.two_blocks(2) [OF assms(1) [unfolded aes_ok_def] assms(2) this encrypt_creds_blocks]
  show ?thesis using assms(3,4) unfolding bano_sms_decrypt_creds_def Let_def r by (simp add: creds_plain_def)
qed

lemma sms_key_length: "sms_key k = Some b \<Longrightarrow> length b = 32"
  by (auto simp: sms_key_def Let_def split: if_splits)

section \<open>Lines of the reply\<close>

definition crlf_lines :: "u8 list list \<Rightarrow> u8 list" where
  "crlf_lines ls = concat (map (\<lambda>l. l @ [CR, LF]) ls)"

lemma to_newline_append: "LF \<notin> set l \<Longrightarrow> to_newline (l @ r) = length l + to_newline r"
  by (induction l) (auto simp: to_newline_def)

lemma to_newline_simps [simp]: "to_newline [] = 0" "to_newline (LF # r) = 0" "to_newline (CR # r) = Suc (to_newline r)"
  by (simp_all add: to_newline_def)

lemma to_newline_line: "LF \<notin> set l \<Longrightarrow> to_newline (l @ CR # LF # r) = length l + 1"
  by (simp add: to_newline_append)

text \<open>The header is complete at the first empty line; lines in front of it are passed.\<close>

lemma parse_lines_crlf:
  assumes "\<forall>l \<in> set ls. LF \<notin> set l"
  shows "parse_lines prev (crlf_lines ls @ r) =
    (if [] \<in> set ls then (HTTPS_COMPLETE, None) else parse_lines (if ls = [] then prev else LF) r)"
  using assms
proof (induction ls arbitrary: prev)
  case (Cons l ls)
  have n: "to_newline (crlf_lines (l # ls) @ r) = length l + 1"
    using Cons.prems by (simp add: crlf_lines_def to_newline_line)
  have c: "(crlf_lines (l # ls) @ r) ! length l = CR" by (simp add: crlf_lines_def nth_append)
  have d: "drop (length l + 2) (crlf_lines (l # ls) @ r) = crlf_lines ls @ r" by (simp add: crlf_lines_def)
  have lt: "length l + 1 < length (crlf_lines (l # ls) @ r)" by (simp add: crlf_lines_def)
  show ?case
  proof (cases "l = []")
    case True
    with n c lt show ?thesis by (subst parse_lines.simps) (simp add: Let_def)
  next
    case False
    have "parse_lines prev (crlf_lines (l # ls) @ r) = parse_lines LF (crlf_lines ls @ r)"
      using n c d lt False by (subst parse_lines.simps) (simp add: Let_def)
    with Cons False show ?thesis by auto
  qed
qed (simp add: crlf_lines_def)

lemma parse_lines_partial: "LF \<notin> set r \<Longrightarrow> parse_lines prev r = (HTTPS_PARTIAL, if r = [] then None else Some r)"
  using to_newline_append [of r "[]"] by (subst parse_lines.simps) (simp add: Let_def)

lemma parse_lines_bare_newline:
  assumes "LF \<notin> set l" "l \<noteq> []" "last l \<noteq> CR"
  shows "parse_lines prev (l @ LF # r) = (HTTPS_ERROR, None)"
proof -
  have "to_newline (l @ LF # r) = length l" using assms(1) by (simp add: to_newline_append)
  with assms(2,3) show ?thesis by (subst parse_lines.simps) (auto simp: Let_def nth_append last_conv_nth)
qed

section \<open>The client's runs\<close>

text \<open>
  The client never holds a partial line, and an alert has its two bytes: then no run accesses
  memory outside a buffer.
\<close>

definition alerts_ok :: "('s, 'k) ssl_lib \<Rightarrow> bool" where
  "alerts_ok lib \<longleftrightarrow>
     (\<forall>n s. fst (fst (sl_received_data lib n s)) = MATRIXSSL_RECEIVED_ALERT \<longrightarrow> 2 \<le> length (sd_bytes (snd (fst (sl_received_data lib n s)))))
     \<and> (\<forall>s. fst (fst (sl_processed_data lib s)) = MATRIXSSL_RECEIVED_ALERT \<longrightarrow> 2 \<le> length (sd_bytes (snd (fst (sl_processed_data lib s)))))"

definition https_ok :: "'s https \<Rightarrow> bool" where
  "https_ok x \<longleftrightarrow>
     (case hs_pc x of
        Returned r \<Rightarrow> True
      | PROCESS_MORE r d \<Rightarrow> parsebuf (hs_conn x) = None \<and> (r = MATRIXSSL_RECEIVED_ALERT \<longrightarrow> 2 \<le> length (sd_bytes d))
      | _ \<Rightarrow> parsebuf (hs_conn x) = None)"

lemma httpBasicParse_fresh:
  assumes "parsebuf cp = None"
  shows "\<exists>cp'. httpBasicParse cp d =
    Some (if sd_bytes d = [] then HTTPS_PARTIAL else fst (parse_lines (sd_prev d) (sd_bytes d)), cp')"
  using assms by (auto simp: httpBasicParse_def Let_def split: prod.splits https_rc.splits)

lemma write_more_ok: "parsebuf cp = None \<Longrightarrow> https_ok (write_more lib fd path cp s)"
  by (auto simp: write_more_def https_ok_def L_CLOSE_ERR_def split: prod.splits rc.splits)

lemma read_more_ok: "alerts_ok lib \<Longrightarrow> parsebuf cp = None \<Longrightarrow> https_ok (read_more lib fd cp s)"
  by (auto simp: read_more_def https_ok_def L_CLOSE_ERR_def alerts_ok_def split: prod.splits) (metis fst_conv snd_conv)+

text \<open>Application data end the connection, successfully unless a line of the header is malformed.\<close>

lemma app_data_returns:
  assumes "parsebuf cp = None"
  shows "\<exists>r x. app_data lib fd d cp s = Some x \<and> hs_pc x = Returned r \<and> parsebuf (hs_conn x) = None"
proof -
  obtain r cp' where "(if cp_complete cp then Some (HTTPS_PARTIAL, cp) else httpBasicParse cp d) = Some (r, cp')"
    using httpBasicParse_fresh [OF assms, of d] by (cases "cp_complete cp") auto
  then show ?thesis
    by (cases "sl_processed_data lib s") (auto simp: app_data_def https_close_def Let_def)
qed

lemma received_alert_ok:
  assumes "alerts_ok lib" "parsebuf cp = None" "2 \<le> length (sd_bytes d)"
  shows "\<exists>x. received_alert lib fd d cp s = Some x \<and> https_ok x"
proof -
  obtain a b r where d: "sd_bytes d = a # b # r" using assms(3) by (auto simp: Suc_le_length_iff numeral_eq_Suc)
  obtain rr d2 s1 where p: "sl_processed_data lib s = ((rr, d2), s1)" by (metis prod.collapse)
  have "rr = MATRIXSSL_RECEIVED_ALERT \<Longrightarrow> 2 \<le> length (sd_bytes d2)"
    using assms(1) p by (auto simp: alerts_ok_def) (metis fst_conv snd_conv)
  then show ?thesis using assms(2)
    by (auto simp: received_alert_def d p https_ok_def L_CLOSE_ERR_def https_close_def)
qed

lemma https_step_ok:
  assumes "alerts_ok lib" "https_ok x"
  shows "\<exists>y. https_step lib fd path x = Some y \<and> https_ok y"
proof (cases "hs_pc x")
  case (PROCESS_MORE r d)
  then have pb: "parsebuf (hs_conn x) = None" and al: "r = MATRIXSSL_RECEIVED_ALERT \<Longrightarrow> 2 \<le> length (sd_bytes d)"
    using assms(2) by (auto simp: https_ok_def)
  have ad: "\<exists>y. app_data lib fd d (hs_conn x) (hs_world x) = Some y \<and> https_ok y"
    using app_data_returns [OF pb, of lib fd d "hs_world x"] by (auto simp: https_ok_def)
  show ?thesis
    using PROCESS_MORE pb ad received_alert_ok [OF assms(1) pb al]
    by (cases r) (auto simp: https_step_def process_more_def https_ok_def L_CLOSE_ERR_def split: prod.splits rc.splits)
qed (use assms write_more_ok read_more_ok in \<open>auto simp: https_step_def https_ok_def\<close>)

lemma https_run_no_fault: "alerts_ok lib \<Longrightarrow> https_ok x \<Longrightarrow> https_run n lib fd path x \<noteq> Fault"
proof (induction n arbitrary: x)
  case (Suc n)
  obtain y where "https_step lib fd path x = Some y" "https_ok y" using https_step_ok [OF Suc.prems] by blast
  with Suc show ?case by (auto split: https_pc.splits)
qed simp

lemma httpsClientConnection_no_fault: "alerts_ok lib \<Longrightarrow> httpsClientConnection n lib path s \<noteq> Fault"
  using https_run_no_fault [of lib] by (auto simp: httpsClientConnection_def https_ok_def split: prod.splits)

text \<open>The status line is not looked at: every well-formed header is a success.\<close>

lemma app_data_success:
  assumes "parsebuf cp = None" "\<not> cp_complete cp" "\<forall>l \<in> set ls. LF \<notin> set l" "sd_bytes d = crlf_lines ls @ r" "LF \<notin> set r"
  shows "\<exists>x. app_data lib fd d cp s = Some x \<and> hs_pc x = Returned Ok"
proof -
  have "fst (parse_lines (sd_prev d) (sd_bytes d)) \<noteq> HTTPS_ERROR"
    using assms(3-5) by (simp add: parse_lines_crlf parse_lines_partial)
  then obtain rr cp' where "httpBasicParse cp d = Some (rr, cp')" "rr \<noteq> HTTPS_ERROR"
    using httpBasicParse_fresh [OF assms(1), of d] by (cases "sd_bytes d = []") auto
  then show ?thesis using assms(2)
    by (cases "sl_processed_data lib s") (auto simp: app_data_def https_close_def Let_def)
qed

section \<open>The request's path\<close>

lemma c_str_length: "length (c_str s) \<le> length s"
  by (simp add: c_str_def length_takeWhile_le)

lemma bytes_str_append_0: "bytes_str (b @ [0]) = bytes_str b"
proof -
  have "char_of (0 :: nat) = CHR 0x00" by code_simp
  then show ?thesis
    by (auto simp: bytes_str_def c_str_def takeWhile_append takeWhile_eq_all_conv [THEN iffD2])
qed

lemma bytes_str_length: "length (bytes_str (b @ [0])) \<le> length b"
  unfolding bytes_str_append_0 by (simp add: bytes_str_def order_trans [OF c_str_length])

lemma length_request_path: "length (request_path l p m) = 33 + length l + 2 * length p + length m"
  by (simp add: request_path_def)

text \<open>The handle's credentials fit their arrays.\<close>

definition sms_wf :: "'k sms \<Rightarrow> bool" where
  "sms_wf h \<longleftrightarrow> (\<exists>l p. sms_login h = l @ [0] \<and> sms_pass h = p @ [0] \<and> length l \<le> BANO_SMS_LOGIN_SIZE \<and> length p \<le> BANO_SMS_PASS_SIZE)"

lemma bano_sms_open_wf: "bano_sms_open lib W h info s = Some (Ok, h', s') \<Longrightarrow> sms_wf h'"
  by (auto simp: bano_sms_open_def bano_sms_decrypt_creds_def sms_address_def sms_wf_def Let_def
      split: prod.splits rc.splits option.splits bind_splits if_splits)

lemma sms_path_length:
  assumes "sms_wf h"
  shows "length (request_path (bytes_str (sms_login h)) (bytes_str (sms_pass h)) m) \<le> 69 + length m"
proof -
  obtain l p where "sms_login h = l @ [0]" "sms_pass h = p @ [0]" "length l \<le> 8" "length p \<le> 14"
    using assms by (auto simp: sms_wf_def BANO_SMS_LOGIN_SIZE_def BANO_SMS_PASS_SIZE_def)
  then show ?thesis using bytes_str_length [of l] bytes_str_length [of p] by (simp add: length_request_path)
qed

lemma bano_sms_send_no_fault:
  assumes "alerts_ok lib" "sms_wf h" "length msg \<le> 186"
  shows "bano_sms_send n lib h msg s \<noteq> Fault"
  using assms(1,3) sms_path_length [OF assms(2), of msg] httpsClientConnection_no_fault [of lib]
  by (auto simp: bano_sms_send_def Let_def split: prod.splits rc.splits outcome.splits)

end
