(* ===== verification/Bano_Config.thy ===== *)
theory Bano_Config
  imports Bano_Loop Bano_Parser Bano_Video Bano_Sms
begin

text \<open>
  \<open>bano_base.c\<close>, from the configuration to an open base and back: the visitors of the parsed
  structures, the descriptions of nodes in \<open>nodl\<close> files, \<open>bano_open\<close> and \<open>bano_close\<close>. The
  outcome \<open>Running\<close> is a parser that does not end within the fuel, \<open>Fault\<close> an access through an
  invalid pointer.
\<close>

section \<open>The environment\<close>

text \<open>
  The libraries, the width of \<open>long\<close>, the fuel of the parser, the names \<open>readdir\<close> returns for a
  directory (\<open>None\<close> when it cannot be opened), what follows a token in the memory of its file, and
  the contents of the union of info structures before it is initialised, which may differ for each
  structure of the file. Opening and closing the camera and the SMS client act on the world.
\<close>

record 'w conf_env =
  ce_lib :: "'w httpd_lib"
  ce_W :: nat
  ce_fuel :: nat
  ce_dir :: "string \<Rightarrow> string list option"
  ce_after :: "bano_string \<Rightarrow> string"
  ce_socket_info :: "parser_struct \<Rightarrow> socket_info"
  ce_node_info :: "parser_struct \<Rightarrow> node_info"
  ce_httpd_info :: "parser_struct \<Rightarrow> httpd_info"
  ce_cam_info :: "parser_struct \<Rightarrow> cam_info"
  ce_sms_info :: "parser_struct \<Rightarrow> sms_info"
  ce_cam_open :: "cam_info \<Rightarrow> 'w \<Rightarrow> rc \<times> 'w"
  ce_cam_close :: "'w \<Rightarrow> 'w"
  ce_sms_open :: "sms_info \<Rightarrow> 'w \<Rightarrow> rc \<times> 'w"
  ce_sms_close :: "'w \<Rightarrow> 'w"

abbreviation ce_files :: "'w conf_env \<Rightarrow> string \<Rightarrow> string option" where
  "ce_files env \<equiv> files (base_lib.truncate (ce_lib env))"

text \<open>A walk whose visitor may not end, or fault: the visitor says whether it stops the walk.\<close>

fun foreach_out :: "('a \<Rightarrow> 's \<Rightarrow> (bool \<times> 's) outcome) \<Rightarrow> 'a list \<Rightarrow> 's \<Rightarrow> (rc \<times> 's) outcome" where
  "foreach_out f [] s = Done (Ok, s)"
| "foreach_out f (x # xs) s =
     (case f x s of
        Running \<Rightarrow> Running
      | Fault \<Rightarrow> Fault
      | Done (stop, s') \<Rightarrow> if stop then Done (Err, s') else foreach_out f xs s')"

text \<open>\<open>if (is_true) flags |= f; else flags &= ~f;\<close>\<close>

definition put_flag :: "bool \<Rightarrow> u32 \<Rightarrow> u32 \<Rightarrow> u32" where
  "put_flag t f x = (if t then x OR f else x AND NOT f)"

abbreviation key_is :: "parser_pair \<Rightarrow> string \<Rightarrow> bool" where
  "key_is p s \<equiv> bano_string_cmp_cstr (pp_key p) s = Ok"

abbreviation val_is :: "parser_pair \<Rightarrow> string \<Rightarrow> bool" where
  "val_is p s \<equiv> bano_string_cmp_cstr (pp_val p) s = Ok"

section \<open>Descriptions of nodes\<close>

definition put_kv_flag :: "parser_pair \<Rightarrow> u32 \<Rightarrow> nodl_keyval \<Rightarrow> bool \<times> nodl_keyval" where
  "put_kv_flag p f kv = (case bano_string_to_bool (pp_val p) of
     None \<Rightarrow> (True, kv) | Some t \<Rightarrow> (False, kv\<lparr>kv_flags := put_flag t f (kv_flags kv)\<rparr>))"

text \<open>The name field has 32 bytes. The tests of \<open>fmt\<close> are two chains: the second one fails for all but \<open>uint32\<close>.\<close>

definition apply_nodl_keyval_pair :: "nat \<Rightarrow> parser_pair \<Rightarrow> nodl_keyval \<Rightarrow> bool \<times> nodl_keyval" where
  "apply_nodl_keyval_pair W p kv =
     (let add = (\<lambda>f kv. kv\<lparr>kv_flags := kv_flags kv OR f\<rparr>) in
      if key_is p ''name'' then (False, kv\<lparr>kv_name := c_str (take 31 (pp_val p))\<rparr>)
      else if key_is p ''key'' then
        (case bano_string_to_uint16 W (pp_val p) of None \<Rightarrow> (True, kv) | Some x \<Rightarrow> (False, kv\<lparr>kv_key := x\<rparr>))
      else if key_is p ''fmt'' then
        (let kv1 = (if val_is p ''bool'' then add BANO_NODL_FLAG_FMT_BOOL kv
                    else if val_is p ''uint8'' then add BANO_NODL_FLAG_FMT_UINT8 kv else kv);
             kv2 = (if val_is p ''uint16'' then add BANO_NODL_FLAG_FMT_UINT16 kv1 else kv1)
         in if val_is p ''uint32'' then (False, add BANO_NODL_FLAG_FMT_UINT32 kv2) else (True, kv2))
      else if key_is p ''base'' then
        (if val_is p ''dec'' then (False, add BANO_NODL_FLAG_BASE_DEC kv)
         else if val_is p ''bin'' then (False, add BANO_NODL_FLAG_BASE_BIN kv)
         else (True, kv))
      else if key_is p ''mtime'' then put_kv_flag p BANO_NODL_FLAG_MTIME kv
      else if key_is p ''get'' then put_kv_flag p BANO_NODL_FLAG_GET kv
      else if key_is p ''set'' then put_kv_flag p BANO_NODL_FLAG_SET kv
      else if key_is p ''ack'' then put_kv_flag p BANO_NODL_FLAG_ACK kv
      else if key_is p ''rst'' then put_kv_flag p BANO_NODL_FLAG_RST kv
      else if key_is p ''notif'' then put_kv_flag p BANO_NODL_FLAG_NOTIF kv
      else (True, kv))"

definition default_name :: "nodl_keyval \<Rightarrow> nodl_keyval" where
  "default_name kv = (if kv_name kv = [] then kv\<lparr>kv_name := hex8 (ucast (kv_key kv))\<rparr> else kv)"

text \<open>
  A failure of \<open>bano_dict_add\<close> leaves \<open>ad->err\<close> alone: the entry is missing, and the walk goes on.
\<close>

definition apply_nodl_struct :: "nat \<Rightarrow> parser_struct \<Rightarrow> mallocs \<times> nodl \<Rightarrow> (bool \<times> mallocs \<times> nodl) outcome" where
  "apply_nodl_struct W x s =
     (if bano_string_cmp_cstr (ps_name x) ''keyval'' = Ok then
        (case bano_parser_foreach_pair x (apply_nodl_keyval_pair W) bano_nodl_keyval_init of
           (Err, _) \<Rightarrow> Done (True, s)
         | (Ok, kv) \<Rightarrow>
           (case keyvals (snd s) of
              None \<Rightarrow> Fault
            | Some d \<Rightarrow>
              (case bano_dict_add (fst s) d (ucast (kv_key kv)) (default_name kv) of
                 (Err, ms', _) \<Rightarrow> Done (False, ms', snd s)
               | (Ok, ms', d') \<Rightarrow> Done (False, ms', (snd s)\<lparr>keyvals := Some d'\<rparr>))))
      else Done (False, s))"

definition load_nodl_file :: "'w conf_env \<Rightarrow> string \<Rightarrow> mallocs \<Rightarrow> nodl \<Rightarrow> (rc \<times> mallocs \<times> nodl) outcome" where
  "load_nodl_file env filename ms nd =
     (case bano_parser_load_file (ce_fuel env) (ce_files env) ms {} filename of
        Running \<Rightarrow> Running
      | Fault \<Rightarrow> Fault
      | Done (Err, st) \<Rightarrow> Done (Err, mls st, nd)
      | Done (Ok, st) \<Rightarrow>
        (case foreach_out (apply_nodl_struct (ce_W env)) (map snd (structs (psr st))) (mls st, nd) of
           Running \<Rightarrow> Running
         | Fault \<Rightarrow> Fault
         | Done (r, ms', nd') \<Rightarrow>
           (case bano_parser_fini (st\<lparr>mls := ms'\<rparr>) of None \<Rightarrow> Fault | Some st' \<Rightarrow> Done (r, mls st', nd'))))"

definition is_hex :: "char \<Rightarrow> bool" where
  "is_hex c \<longleftrightarrow> (of_char c :: nat) \<in> {48..57} \<or> (of_char c :: nat) \<in> {97..102}"

text \<open>Eight hexadecimal digits and the suffix.\<close>

definition is_nodl_name :: "string \<Rightarrow> bool" where
  "is_nodl_name d_name \<longleftrightarrow> 8 \<le> length d_name \<and> (\<forall>c \<in> set (take 8 d_name). is_hex c) \<and> drop 8 d_name = ''.nodl''"

text \<open>
  The new description lies in the dictionary while its file is read; the dictionary is extended
  with the result here. After an error the first description with the identifier is deleted.
\<close>

fun load_entries :: "'w conf_env \<Rightarrow> string \<Rightarrow> string list \<Rightarrow> mallocs \<Rightarrow> nodl dict option
    \<Rightarrow> (rc \<times> mallocs \<times> nodl dict option) outcome" where
  "load_entries env dir [] ms nodls = Done (Ok, ms, nodls)"
| "load_entries env dir (d_name # es) ms nodls =
     (if \<not> is_nodl_name d_name then load_entries env dir es ms nodls
      else
        let nodl_id = of_nat (strtoul (ce_W env) d_name 16) in
        (case nodls of
           None \<Rightarrow> Fault
         | Some d \<Rightarrow>
           (case bano_dict_add ms d nodl_id \<lparr>keyvals = None\<rparr> of
              (Err, ms1, _) \<Rightarrow> Done (Err, ms1, nodls)
            | (Ok, ms1, _) \<Rightarrow>
              (case bano_nodl_init ms1 of (ms2, nd) \<Rightarrow>
                (case load_nodl_file env (c_str (dir @ ''/'' @ d_name)) ms2 nd of
                   Running \<Rightarrow> Running
                 | Fault \<Rightarrow> Fault
                 | Done (r, ms3, nd') \<Rightarrow>
                   let d1 = snd (snd (bano_dict_add ms d nodl_id nd'));
                       d2 = (case r of Ok \<Rightarrow> d1 | Err \<Rightarrow> (case bano_dict_del d1 nodl_id (\<lambda>_ _. ()) () of (_, d', _) \<Rightarrow> d'))
                   in load_entries env dir es ms3 (Some d2))))))"

text \<open>A directory that cannot be opened goes to \<open>closedir(NULL)\<close>, which the C library refuses.\<close>

definition load_nodl_dir :: "'w conf_env \<Rightarrow> bano_string \<Rightarrow> mallocs \<Rightarrow> nodl dict option
    \<Rightarrow> (rc \<times> mallocs \<times> nodl dict option) outcome" where
  "load_nodl_dir env dirname ms nodls =
     (case malloc ms of (a, ms1) \<Rightarrow>
       if a = 0 then Done (Err, ms1, nodls)
       else (case ce_dir env (c_str dirname) of
         None \<Rightarrow> Done (Err, ms1, nodls)
       | Some es \<Rightarrow> load_entries env dirname es ms1 nodls))"

section \<open>Pairs of the configuration\<close>

definition apply_base_pair :: "'w conf_env \<Rightarrow> parser_pair \<Rightarrow> 'w base \<Rightarrow> (bool \<times> 'w base) outcome" where
  "apply_base_pair env p b =
     (if key_is p ''addr'' then
        (if val_is p ''default'' then Done (False, b\<lparr>b_addr := BANO_DEFAULT_BASE_ADDR\<rparr>)
         else (case bano_string_to_uint32 (ce_W env) (pp_val p) of
             None \<Rightarrow> Done (True, b) | Some x \<Rightarrow> Done (False, b\<lparr>b_addr := x\<rparr>)))
      else if key_is p ''nodl_dir'' then
        (case load_nodl_dir env (pp_val p) (b_mls b) (b_nodls b) of
           Running \<Rightarrow> Running
         | Fault \<Rightarrow> Fault
         | Done (r, ms, nodls) \<Rightarrow> Done (r = Err, b\<lparr>b_mls := ms, b_nodls := nodls\<rparr>))
      else if key_is p ''cipher_alg'' then
        (if val_is p ''none'' then Done (False, b\<lparr>b_cipher := (b_cipher b)\<lparr>alg := BANO_CIPHER_ALG_NONE\<rparr>\<rparr>)
         else if val_is p ''xtea'' then Done (False, b\<lparr>b_cipher := (b_cipher b)\<lparr>alg := BANO_CIPHER_ALG_XTEA\<rparr>\<rparr>)
         else Done (True, b))
      else if key_is p ''cipher_key'' then
        (case bano_string_to_cipher_key (ce_W env) (pp_val p) (ce_after env (pp_val p)) of
           None \<Rightarrow> Done (True, b)
         | Some k \<Rightarrow> Done (False, b\<lparr>b_cipher := (b_cipher b)\<lparr>key := k\<rparr>\<rparr>))
      else if key_is p ''new_nodes'' then
        (case bano_string_to_bool (pp_val p) of
           None \<Rightarrow> Done (True, b)
         | Some x \<Rightarrow> Done (False, b\<lparr>b_flags := put_flag x BANO_BASE_FLAG_NEW_NODES (b_flags b)\<rparr>))
      else Done (True, b))"

definition apply_socket_pair :: "u32 \<Rightarrow> parser_pair \<Rightarrow> socket_info \<times> pstate \<Rightarrow> bool \<times> socket_info \<times> pstate" where
  "apply_socket_pair base_addr p s =
     (case s of (si, st) \<Rightarrow>
       if key_is p ''type'' then
         (if val_is p ''snrf''
          then (False, si\<lparr>si_type := BANO_SOCKET_TYPE_SNRF,
             si_snrf := \<lparr>dev_path = ''/dev/ttyUSB0'', addr_width = 4, addr_val = base_addr\<rparr>\<rparr>, st)
          else (False, si, st))
       else if key_is p ''dev_path'' then
         (if si_type si = BANO_SOCKET_TYPE_SNRF then
            (case bano_parser_add_cstr st (pp_val p) of
               (st', None) \<Rightarrow> (True, si, st')
             | (st', Some c) \<Rightarrow> (False, si\<lparr>si_snrf := (si_snrf si)\<lparr>dev_path := c\<rparr>\<rparr>, st'))
          else (False, si, st))
       else (True, si, st))"

definition apply_node_pair :: "nat \<Rightarrow> parser_pair \<Rightarrow> node_info \<Rightarrow> bool \<times> node_info" where
  "apply_node_pair W p ni =
     (let add = (\<lambda>f ni. ni\<lparr>ni_flags := ni_flags ni OR f\<rparr>) in
      if key_is p ''addr'' then
        (let ni = add BANO_NODE_FLAG_ADDR ni in
         case bano_string_to_uint32 W (pp_val p) of None \<Rightarrow> (True, ni) | Some x \<Rightarrow> (False, ni\<lparr>ni_addr := x\<rparr>))
      else if key_is p ''name'' then
        (if 32 \<le> length (pp_val p) then (True, ni)
         else (False, add BANO_NODE_FLAG_NAME (ni\<lparr>ni_name := c_str (pp_val p)\<rparr>)))
      else if key_is p ''seed'' then
        (let ni = add BANO_NODE_FLAG_SEED ni in
         case bano_string_to_uint32 W (pp_val p) of None \<Rightarrow> (True, ni) | Some x \<Rightarrow> (False, ni\<lparr>ni_seed := x\<rparr>))
      else if key_is p ''nodl_id'' then
        (let ni = add BANO_NODE_FLAG_NODL_ID ni in
         case bano_string_to_uint32 W (pp_val p) of None \<Rightarrow> (True, ni) | Some x \<Rightarrow> (False, ni\<lparr>ni_nodl_id := x\<rparr>))
      else if key_is p ''cipher'' then
        (case bano_string_to_bool (pp_val p) of
           None \<Rightarrow> (True, ni)
         | Some t \<Rightarrow> (False, ni\<lparr>ni_flags := put_flag t BANO_NODE_FLAG_CIPHER (ni_flags ni)\<rparr>))
      else (True, ni))"

definition apply_httpd_pair :: "nat \<Rightarrow> parser_pair \<Rightarrow> httpd_info \<Rightarrow> bool \<times> httpd_info" where
  "apply_httpd_pair W p hi =
     (if key_is p ''port'' then
        (let hi = hi\<lparr>hi_flags := hi_flags hi OR BANO_HTTPD_FLAG_PORT\<rparr> in
         case bano_string_to_uint16 W (pp_val p) of None \<Rightarrow> (True, hi) | Some x \<Rightarrow> (False, hi\<lparr>hi_port := x\<rparr>))
      else if key_is p ''auth'' then
        (case bano_string_to_bool (pp_val p) of
           None \<Rightarrow> (True, hi)
         | Some x \<Rightarrow> (False, hi\<lparr>hi_flags := put_flag x BANO_HTTPD_FLAG_AUTH (hi_flags hi)\<rparr>))
      else (True, hi))"

definition apply_cam_pair :: "nat \<Rightarrow> parser_pair \<Rightarrow> cam_info \<Rightarrow> bool \<times> cam_info" where
  "apply_cam_pair W p ci =
     (if key_is p ''id'' then
        (let ci = ci\<lparr>ci_flags := ci_flags ci OR BANO_CAM_FLAG_ID\<rparr> in
         case bano_string_to_uint32 W (pp_val p) of None \<Rightarrow> (True, ci) | Some x \<Rightarrow> (False, ci\<lparr>ci_id := x\<rparr>))
      else if key_is p ''fmt'' then
        (let ci = ci\<lparr>ci_flags := ci_flags ci OR BANO_CAM_FLAG_FMT\<rparr> in
         if val_is p ''yuyv_320_240'' then (False, ci\<lparr>ci_fmt := BANO_CAM_FMT_YUYV_320_240\<rparr>)
         else if val_is p ''yuyv_640_480'' then (False, ci\<lparr>ci_fmt := BANO_CAM_FMT_YUYV_640_480\<rparr>)
         else (True, ci))
      else if key_is p ''dummy'' then
        (case bano_string_to_bool (pp_val p) of
           None \<Rightarrow> (True, ci)
         | Some x \<Rightarrow> (False, ci\<lparr>ci_flags := put_flag x BANO_CAM_FLAG_DUMMY (ci_flags ci)\<rparr>))
      else (True, ci))"

definition apply_sms_pair :: "'w conf_env \<Rightarrow> parser_pair \<Rightarrow> sms_info \<times> mallocs \<Rightarrow> bool \<times> sms_info \<times> mallocs" where
  "apply_sms_pair env p s =
     (case s of (si, ms) \<Rightarrow>
       if key_is p ''https_addr'' then
         (case bano_string_to_cstr ms (pp_val p) of
            (ms', None) \<Rightarrow> (True, si, ms') | (ms', Some c) \<Rightarrow> (False, si\<lparr>sms_addr := Some (c_str c)\<rparr>, ms'))
       else if key_is p ''https_port'' then
         (case bano_string_to_cstr ms (pp_val p) of
            (ms', None) \<Rightarrow> (True, si, ms') | (ms', Some c) \<Rightarrow> (False, si\<lparr>sms_port := Some (c_str c)\<rparr>, ms'))
       else if key_is p ''https_creds'' then
         (case bano_string_to_array (ce_W env) (pp_val p) (ce_after env (pp_val p)) BANO_SMS_CREDS_SIZE of
            None \<Rightarrow> (True, si, ms) | Some k \<Rightarrow> (False, si\<lparr>sms_creds := k\<rparr>, ms))
       else (True, si, ms))"

section \<open>Structures of the configuration\<close>

text \<open>The base, the http server it holds, and the parser whose structures are applied.\<close>

record 'w station =
  st_base :: "'w base"
  st_httpd :: "httpd option"
  st_psr :: pstate

definition set_world :: "'w \<Rightarrow> 'w base \<Rightarrow> 'w base" where
  "set_world w b = b\<lparr>world := w\<rparr>"

definition apply_base_struct :: "'w conf_env \<Rightarrow> parser_struct \<Rightarrow> 'w station \<Rightarrow> (bool \<times> 'w station) outcome" where
  "apply_base_struct env x s =
     (case foreach_out (apply_base_pair env) (map snd (ps_pairs x)) (st_base s) of
        Running \<Rightarrow> Running
      | Fault \<Rightarrow> Fault
      | Done (r, b) \<Rightarrow> Done (r = Err, s\<lparr>st_base := b\<rparr>))"

definition apply_socket_struct :: "'w conf_env \<Rightarrow> parser_struct \<Rightarrow> 'w station \<Rightarrow> (bool \<times> 'w station) outcome" where
  "apply_socket_struct env x s =
     (let b = st_base s; si0 = bano_socket_init_info (ce_socket_info env x) in
      case bano_parser_foreach_pair x (apply_socket_pair (b_addr b)) (si0, (st_psr s)\<lparr>mls := b_mls b\<rparr>) of
        (r, si, st) \<Rightarrow>
          let b1 = b\<lparr>b_mls := mls st\<rparr>; s1 = s\<lparr>st_base := b1, st_psr := st\<rparr> in
          if r = Err then Done (True, s1)
          else (case bano_add_socket (base_lib.truncate (ce_lib env)) si b1 of
            None \<Rightarrow> Fault
          | Some (r2, b2) \<Rightarrow> Done (r2 = Err, s1\<lparr>st_base := b2\<rparr>)))"

text \<open>A node is attached to the first socket of the base, whatever its type.\<close>

definition apply_node_struct :: "'w conf_env \<Rightarrow> parser_struct \<Rightarrow> 'w station \<Rightarrow> (bool \<times> 'w station) outcome" where
  "apply_node_struct env x s =
     (let b = st_base s in
      case b_sockets b of
        [] \<Rightarrow> Done (True, s)
      | (it, sa) # _ \<Rightarrow>
        let ni0 = bano_init_node_info (ce_node_info env x);
            ni1 = ni0\<lparr>ni_flags := ni_flags ni0 OR BANO_NODE_FLAG_SOCKET, ni_socket := sa\<rparr>
        in case bano_parser_foreach_pair x (apply_node_pair (ce_W env)) ni1 of (r, ni) \<Rightarrow>
          if r = Err then Done (True, s)
          else (case bano_add_node ni b of
            None \<Rightarrow> Fault
          | Some (r2, b2) \<Rightarrow> Done (r2 = Err, s\<lparr>st_base := b2\<rparr>)))"

definition apply_httpd_struct :: "'w conf_env \<Rightarrow> parser_struct \<Rightarrow> 'w station \<Rightarrow> (bool \<times> 'w station) outcome" where
  "apply_httpd_struct env x s =
     (case bano_parser_foreach_pair x (apply_httpd_pair (ce_W env)) (bano_init_httpd_info (ce_httpd_info env x)) of
        (r, hi) \<Rightarrow>
          if r = Err then Done (True, s)
          else (case bano_httpd_init (ce_lib env) (ce_socket_info env x) hi (st_base s) of
            None \<Rightarrow> Fault
          | Some (None, b1) \<Rightarrow> Done (True, s\<lparr>st_base := b1\<rparr>)
          | Some (Some h, b1) \<Rightarrow> Done (False, s\<lparr>st_base := b1\<lparr>is_httpd := True\<rparr>, st_httpd := Some h\<rparr>)))"

text \<open>The format of the camera is not initialised, and its flag not tested.\<close>

definition apply_cam_struct :: "'w conf_env \<Rightarrow> parser_struct \<Rightarrow> 'w station \<Rightarrow> (bool \<times> 'w station) outcome" where
  "apply_cam_struct env x s =
     (let b = st_base s in
      case bano_parser_foreach_pair x (apply_cam_pair (ce_W env)) ((ce_cam_info env x)\<lparr>ci_flags := 0\<rparr>) of
        (r, ci) \<Rightarrow>
          if r = Err then Done (True, s)
          else (case ce_cam_open env ci (world b) of
             (Err, w) \<Rightarrow> Done (True, s\<lparr>st_base := set_world w b\<rparr>)
           | (Ok, w) \<Rightarrow> Done (False, s\<lparr>st_base := (set_world w b)\<lparr>is_cam := True\<rparr>\<rparr>)))"

definition apply_sms_struct :: "'w conf_env \<Rightarrow> parser_struct \<Rightarrow> 'w station \<Rightarrow> (bool \<times> 'w station) outcome" where
  "apply_sms_struct env x s =
     (let b = st_base s in
      case bano_parser_foreach_pair x (apply_sms_pair env) (bano_sms_init_info (ce_sms_info env x), b_mls b) of
        (r, si, ms) \<Rightarrow>
          let b1 = b\<lparr>b_mls := ms\<rparr> in
          if r = Err then Done (True, s\<lparr>st_base := b1\<rparr>)
          else (case ce_sms_open env si (world b1) of
             (Err, w) \<Rightarrow> Done (True, s\<lparr>st_base := set_world w b1\<rparr>)
           | (Ok, w) \<Rightarrow> Done (False, s\<lparr>st_base := (set_world w b1)\<lparr>is_sms := True\<rparr>\<rparr>)))"

text \<open>Structures with another name are passed.\<close>

definition apply_struct :: "'w conf_env \<Rightarrow> parser_struct \<Rightarrow> 'w station \<Rightarrow> (bool \<times> 'w station) outcome" where
  "apply_struct env x s =
     (let name_is = (\<lambda>n. bano_string_cmp_cstr (ps_name x) n = Ok) in
      if name_is ''base'' then apply_base_struct env x s
      else if name_is ''socket'' then apply_socket_struct env x s
      else if name_is ''node'' then apply_node_struct env x s
      else if name_is ''http_server'' then apply_httpd_struct env x s
      else if name_is ''cam'' then apply_cam_struct env x s
      else if name_is ''sms'' then apply_sms_struct env x s
      else Done (False, s))"

definition apply_conf :: "'w conf_env \<Rightarrow> string \<Rightarrow> 'w station \<Rightarrow> (rc \<times> 'w station) outcome" where
  "apply_conf env conf_path s =
     (case bano_parser_load_file (ce_fuel env) (ce_files env) (b_mls (st_base s)) {} conf_path of
        Running \<Rightarrow> Running
      | Fault \<Rightarrow> Fault
      | Done (Err, st) \<Rightarrow> Done (Err, s\<lparr>st_base := (st_base s)\<lparr>b_mls := mls st\<rparr>\<rparr>)
      | Done (Ok, st) \<Rightarrow>
        (case foreach_out (apply_struct env) (map snd (structs (psr st)))
            (s\<lparr>st_base := (st_base s)\<lparr>b_mls := mls st\<rparr>, st_psr := st\<rparr>) of
           Running \<Rightarrow> Running
         | Fault \<Rightarrow> Fault
         | Done (r, s1) \<Rightarrow>
           (case bano_parser_fini (st_psr s1) of None \<Rightarrow> Fault | Some st' \<Rightarrow> Done (r, s1\<lparr>st_psr := st'\<rparr>))))"

section \<open>Opening and closing\<close>

record base_info =
  ba_flags :: u32
  ba_conf_path :: string
  ba_addr :: u32

definition bano_init_base_info :: "base_info \<Rightarrow> base_info" where
  "bano_init_base_info i = i\<lparr>ba_flags := 0\<rparr>"

definition bano_init :: "('w \<Rightarrow> 'w) \<Rightarrow> 'w \<Rightarrow> rc \<times> 'w" where
  "bano_init signal_sigint w = (Ok, signal_sigint w)"

definition bano_fini :: rc where
  "bano_fini = Ok"

text \<open>The nodes of the list, then the sockets: each one frees the nodes still in the list.\<close>

fun free_sockets :: "'w base_lib \<Rightarrow> addr items \<Rightarrow> 'w base \<Rightarrow> 'w base option" where
  "free_sockets lib [] b = Some b"
| "free_sockets lib ((it, sa) # xs) b = Option.bind (bano_socket_free lib sa b) (free_sockets lib xs)"

text \<open>The descriptions are freed with their dictionary, which \<open>bano_dict_fini\<close> needs to exist.\<close>

definition bano_close :: "'w conf_env \<Rightarrow> 'w station \<Rightarrow> (rc \<times> 'w station) option" where
  "bano_close env s =
     (let lib = base_lib.truncate (ce_lib env); b = st_base s;
          w1 = (if is_httpd b then (case st_httpd s of None \<Rightarrow> world b | Some h \<Rightarrow> bano_httpd_fini (ce_lib env) h (world b))
                else world b);
          w2 = (if is_cam b then ce_cam_close env w1 else w1);
          w3 = (if is_sms b then ce_sms_close env w2 else w2)
      in do {
        d \<leftarrow> b_nodls b;
        t \<leftarrow> bano_timer_fini (b_timers b);
        b1 \<leftarrow> free_nodes (b_nodes b) (b\<lparr>world := w3, b_nodls := None, b_timers := t\<rparr>);
        b2 \<leftarrow> free_sockets lib (b_sockets b1) (b1\<lparr>b_nodes := []\<rparr>);
        Some (Ok, s\<lparr>st_base := b2\<lparr>b_sockets := []\<rparr>\<rparr>)
      })"

text \<open>
  The base is the caller's memory: \<open>b0\<close> gives what \<open>malloc\<close> returns, the world and the
  heaps. \<open>on_error_0\<close> is what \<open>bano_close\<close> does.
\<close>

definition open_base :: "base_info \<Rightarrow> 'w base \<Rightarrow> 'w base" where
  "open_base info b0 =
     (case bano_dict_init (b_mls b0) 24 of (ms, d) \<Rightarrow>
       b0\<lparr>b_flags := ba_flags info, is_httpd := False, is_cam := False, is_sms := False,
          b_nodes := [], b_sockets := [], b_timers := bano_timer_init (tm_heap (b_timers b0)) (tm_store (b_timers b0)),
          b_nodls := d, b_mls := ms, b_cipher := snd (bano_cipher_init bano_cipher_info_none),
          b_addr := (if has_flag (ba_flags info) BANO_BASE_FLAG_ADDR then ba_addr info else BANO_DEFAULT_BASE_ADDR)\<rparr>)"

definition bano_open :: "'w conf_env \<Rightarrow> base_info \<Rightarrow> 'w station \<Rightarrow> (rc \<times> 'w station) outcome" where
  "bano_open env info s0 =
     (let s = s0\<lparr>st_base := open_base info (st_base s0), st_httpd := None\<rparr> in
      if has_flag (ba_flags info) BANO_BASE_FLAG_CONF then
        (case apply_conf env (ba_conf_path info) s of
           Running \<Rightarrow> Running
         | Fault \<Rightarrow> Fault
         | Done (Ok, s1) \<Rightarrow> Done (Ok, s1)
         | Done (Err, s1) \<Rightarrow>
           (case bano_close env s1 of None \<Rightarrow> Fault | Some (_, s2) \<Rightarrow> Done (Err, s2)))
      else Done (Ok, s))"

end
