(* ===== verification/Bano_Opened.thy ===== *)
theory Bano_Opened
  imports Bano_Config
begin

text \<open>
  What opening a base from its configuration establishes: no allocation is taken back, the
  descriptions can be searched, and the base that is handed to the event loop satisfies its
  invariant. Then what closing it releases.
\<close>

section \<open>Allocations are taken from the front of the stream\<close>

named_theorems sfx \<open>what an operation leaves of the allocations\<close>

lemma malloc_sfx [sfx]: "malloc ms = (a, ms') \<Longrightarrow> suffix ms' ms"
  by (cases ms) (auto intro: suffix_ConsI)

lemma seq_add_tail_sfx [sfx]: "seq_add_tail ms d xs = (r, ms', ys) \<Longrightarrow> suffix ms' ms"
  using seq_add_tail_suffix [of ms d xs r ms' ys] by (auto simp: suffix_def)

lemma parse_pairs_sfx [sfx]: "parse_pairs ms ps s = (ms', r) \<Longrightarrow> suffix ms' ms"
proof (induction ms ps s arbitrary: ms' r rule: parse_pairs.induct)
  case (1 ms ps s)
  obtain t n where tn: "next_token s = (t, n)" by fastforce
  obtain pair ms1 it ms2 where m: "malloc ms = (pair, ms1)" "malloc ms1 = (it, ms2)" by fastforce
  have s: "suffix ms1 ms" "suffix ms2 ms1" using m by (auto intro: malloc_sfx)
  show ?case
  proof (cases "(n = 0 \<or> n = 1 \<and> s ! t = CHR ''}'') \<or> pair = 0 \<or> it = 0 \<or> parse_pair s = None")
    case True
    with 1(2) tn m s show ?thesis
      by (subst (asm) parse_pairs.simps) (auto split: if_splits option.splits intro: suffix_order.trans)
  next
    case False
    then obtain p k where p: "parse_pair s = Some (p, k)" by fastforce
    obtain ms3 r3 where r: "parse_pairs ms2 (ps @ [(it, p)]) (drop k s) = (ms3, r3)" by fastforce
    have "suffix ms3 ms2"
      using 1(1) [OF tn [symmetric] _ _ m(1) [symmetric] _ m(2) [symmetric] _ p refl r] False by auto
    moreover have "ms' = ms3" using 1(2) False tn m p r
      by (subst (asm) parse_pairs.simps) (auto split: option.splits)
    ultimately show ?thesis using s by (auto intro: suffix_order.trans)
  qed
qed

lemma parse_struct_sfx [sfx]: "parse_struct ms s = (ms', r) \<Longrightarrow> suffix ms' ms"
  by (auto simp: parse_struct_def Let_def split: prod.splits if_splits option.splits dest!: parse_pairs_sfx)

lemma alloc_mmap_buf_sfx [sfx]: "alloc_mmap_buf fs path st = (st', r) \<Longrightarrow> suffix (mls st') (mls st)"
  by (auto simp: alloc_mmap_buf_def split: prod.splits if_splits option.splits dest!: malloc_sfx)

lemma free_buf_mls: "free_buf a st = Some st' \<Longrightarrow> mls st' = mls st"
  by (auto simp: free_buf_def split: if_splits)

lemma free_bufs_mls: "free_bufs xs st = Some st' \<Longrightarrow> mls st' = mls st"
  by (induction xs st rule: free_bufs.induct) (auto split: bind_splits dest!: free_buf_mls)

lemma fini_mls: "bano_parser_fini st = Some st' \<Longrightarrow> mls st' = mls st"
  by (auto simp: bano_parser_fini_def dest!: free_bufs_mls)

definition takes_front :: "(pstate \<Rightarrow> string \<Rightarrow> (pstate \<times> nat option) outcome) \<Rightarrow> bool" where
  "takes_front rec \<longleftrightarrow> (\<forall>st s st' r. rec st s = Done (st', r) \<longrightarrow> suffix (mls st') (mls st))"

lemma takes_frontD: "rec st s = Done (st', r) \<Longrightarrow> takes_front rec \<Longrightarrow> suffix (mls st') (mls st)"
  by (auto simp: takes_front_def)

lemma parse_directive_sfx:
  assumes "takes_front rec"
    and "parse_directive rec fs st s = Done (st', r)"
  shows "suffix (mls st') (mls st)"
  using assms(2)
  by (auto simp: parse_directive_def Let_def split: prod.splits if_splits option.splits outcome.splits rc.splits
      dest!: alloc_mmap_buf_sfx takes_frontD [OF _ assms(1)] seq_add_tail_sfx free_buf_mls intro: suffix_order.trans)

lemma parse_directive_or_struct_sfx:
  assumes "takes_front rec"
    and "parse_directive_or_struct rec fs st s = Done (st', r)"
  shows "suffix (mls st') (mls st)"
  using assms(2)
  by (auto simp: parse_directive_or_struct_def split: prod.splits if_splits option.splits
      dest!: malloc_sfx parse_struct_sfx parse_directive_sfx [OF assms(1)] intro: suffix_order.trans)

lemma parse_buf_sfx [sfx]: "parse_buf fuel fs st s = Done (st', r) \<Longrightarrow> suffix (mls st') (mls st)"
proof (induction fuel arbitrary: st s st' r)
  case (Suc fuel)
  have tf: "takes_front (parse_buf fuel fs)" using Suc.IH by (auto simp: takes_front_def)
  then show ?case using Suc.prems
    by (auto split: if_splits outcome.splits option.splits prod.splits
        dest!: parse_directive_or_struct_sfx [OF tf] takes_frontD [OF _ tf] intro: suffix_order.trans)
qed simp

lemma load_file_sfx [sfx]: "bano_parser_load_file fuel fs ms lv path = Done (r, st) \<Longrightarrow> suffix (mls st) ms"
  by (auto simp: bano_parser_load_file_def Let_def split: option.splits prod.splits rc.splits outcome.splits
      dest!: alloc_mmap_buf_sfx seq_add_tail_sfx free_buf_mls parse_buf_sfx fini_mls intro: suffix_order.trans)

lemma dict_add_sfx [sfx]: "bano_dict_add ms d k v = (r, ms', d') \<Longrightarrow> suffix ms' ms"
  by (auto simp: bano_dict_add_def Let_def split: prod.splits if_splits dest!: malloc_sfx intro: suffix_order.trans)

lemma dict_init_sfx [sfx]: "bano_dict_init ms n = (ms', d) \<Longrightarrow> suffix ms' ms"
  by (auto simp: bano_dict_init_def bano_dict_init_with_nlist_def split: prod.splits if_splits dest!: malloc_sfx)

lemma nodl_struct_sfx [sfx]: "apply_nodl_struct W x s = Done (q, ms', nd') \<Longrightarrow> suffix ms' (fst s)"
  by (auto simp: apply_nodl_struct_def split: if_splits prod.splits rc.splits option.splits dest!: dict_add_sfx)

text \<open>A walk keeps what every step keeps.\<close>

lemma foreach_out_invariant:
  assumes "foreach_out f xs s = Done (r, s')" "P s"
    and "\<And>x s q s'. x \<in> set xs \<Longrightarrow> P s \<Longrightarrow> f x s = Done (q, s') \<Longrightarrow> P s'"
  shows "P s'"
  using assms by (induction xs arbitrary: s) (auto split: outcome.splits if_splits prod.splits, metis+)

lemma load_nodl_file_sfx [sfx]:
  assumes "load_nodl_file env filename ms nd = Done (r, ms', nd')"
  shows "suffix ms' ms"
proof -
  have w: "suffix ms2 ms1" if "foreach_out (apply_nodl_struct W) xs (ms1, nd) = Done (r2, ms2, nd2)" for W xs ms1 ms2 nd2 r2
    using foreach_out_invariant [OF that, of "\<lambda>s. suffix (fst s) ms1"]
    by (fastforce dest: nodl_struct_sfx intro: suffix_order.trans)
  show ?thesis using assms
    by (auto simp: load_nodl_file_def split: outcome.splits prod.splits rc.splits option.splits
        dest!: load_file_sfx w fini_mls intro: suffix_order.trans)
qed

lemma nodl_init_sfx [sfx]: "bano_nodl_init ms = (ms', nd) \<Longrightarrow> suffix ms' ms"
  by (auto simp: bano_nodl_init_def split: prod.splits dest!: dict_init_sfx)

lemma load_entries_sfx [sfx]: "load_entries env dir es ms nodls = Done (r, ms', nodls') \<Longrightarrow> suffix ms' ms"
proof (induction es arbitrary: ms nodls)
  case (Cons d_name es)
  show ?case
  proof (cases "is_nodl_name d_name")
    case True
    with Cons.prems obtain d where d: "nodls = Some d" by (cases nodls) (auto simp: Let_def)
    obtain ra ms1 da where a: "bano_dict_add ms d (of_nat (strtoul (ce_W env) d_name 16)) \<lparr>keyvals = None\<rparr> = (ra, ms1, da)"
      by (metis prod_cases3)
    obtain ms2 nd where n: "bano_nodl_init ms1 = (ms2, nd)" by fastforce
    have s: "suffix ms1 ms" "suffix ms2 ms1" using a n by (auto dest: sfx)
    show ?thesis
    proof (cases ra)
      case Err
      with Cons.prems True d a s show ?thesis by (auto simp: Let_def)
    next
      case Ok
      with Cons.prems True d a n obtain rl ms3 nd' where l: "load_nodl_file env (c_str (dir @ ''/'' @ d_name)) ms2 nd = Done (rl, ms3, nd')"
        by (auto simp: Let_def split: outcome.splits)
      have "suffix ms3 ms2" using l by (rule load_nodl_file_sfx)
      moreover have "suffix ms' ms3"
        using Cons.prems True d a n l Ok by (auto simp: Let_def intro!: Cons.IH)
      ultimately show ?thesis using s by (auto intro: suffix_order.trans)
    qed
  qed (use Cons in \<open>auto simp: Let_def\<close>)
qed simp

lemma load_nodl_dir_sfx [sfx]: "load_nodl_dir env dirname ms nodls = Done (r, ms', nodls') \<Longrightarrow> suffix ms' ms"
  by (auto simp: load_nodl_dir_def split: prod.splits if_splits option.splits
      dest!: malloc_sfx load_entries_sfx intro: suffix_order.trans)

section \<open>A stream that was not used up\<close>

text \<open>\<open>malloc\<close> has not failed when allocations are left at the end.\<close>

lemma malloc_left:
  assumes "malloc ms = (a, ms1)" "suffix ms' ms1" "ms' \<noteq> []" "0 \<notin> set ms"
  shows "a \<noteq> 0" "0 \<notin> set ms1"
  using assms by (cases ms; auto simp: suffix_def)+

lemma suffix_no_null: "suffix ms' ms \<Longrightarrow> 0 \<notin> set ms \<Longrightarrow> (0 :: addr) \<notin> set ms'"
  by (auto simp: suffix_def)

lemma suffix_left: "suffix ms' ms \<Longrightarrow> ms' \<noteq> [] \<Longrightarrow> ms \<noteq> []"
  by (auto simp: suffix_def)

lemma foreach_out_left:
  assumes "foreach_out f xs s = Done (Ok, s')" "P s" "m s' \<noteq> []" "0 \<notin> set (m s :: mallocs)"
    and sf: "\<And>x s q s'. f x s = Done (q, s') \<Longrightarrow> suffix (m s') (m s)"
    and st: "\<And>x s s'. P s \<Longrightarrow> 0 \<notin> set (m s) \<Longrightarrow> m s' \<noteq> [] \<Longrightarrow> f x s = Done (False, s') \<Longrightarrow> P s'"
  shows "P s'" "suffix (m s') (m s)"
proof -
  have "P s' \<and> suffix (m s') (m s)"
    using assms(1-4)
  proof (induction xs arbitrary: s)
    case (Cons x xs)
    then obtain s1 where s1: "f x s = Done (False, s1)" "foreach_out f xs s1 = Done (Ok, s')"
      by (auto split: outcome.splits prod.splits if_splits)
    have sub: "suffix (m s1) (m s)" using s1(1) by (rule sf)
    have "suffix (m s') (m s1)"
      using foreach_out_invariant [OF s1(2), of "\<lambda>s. suffix (m s) (m s1)"] by (auto dest: sf intro: suffix_order.trans)
    then have "m s1 \<noteq> []" using Cons.prems(3) by (rule suffix_left)
    with Cons.prems s1(1) have "P s1" by (auto intro: st)
    with Cons.IH [OF s1(2)] Cons.prems(3,4) sub show ?case
      by (auto dest: suffix_no_null intro: suffix_order.trans)
  qed simp
  then show "P s'" "suffix (m s') (m s)" by auto
qed

section \<open>Descriptions can be searched\<close>

definition dict_all :: "('v \<Rightarrow> bool) \<Rightarrow> 'v dict \<Rightarrow> bool" where
  "dict_all P d \<longleftrightarrow> log2_nlist d < 32 \<and> length (lists d) = 2 ^ log2_nlist d
     \<and> (\<forall>l \<in> set (lists d). \<forall>kv \<in> set l. P (snd kv))"

lemma dict_all_bucket: "dict_all P d \<Longrightarrow> bucket d k < length (lists d)"
  by (simp add: dict_all_def bucket_def get_hash_def hash_bound)

lemma dict_all_upd:
  "dict_all P d \<Longrightarrow> \<forall>kv \<in> set l. P (snd kv) \<Longrightarrow> dict_all P (d\<lparr>lists := (lists d)[h := l]\<rparr>)"
  by (auto simp: dict_all_def dest!: set_update_subset_insert [THEN subsetD])

lemma dict_all_member: "dict_all P d \<Longrightarrow> kv \<in> set (lists d ! bucket d k) \<Longrightarrow> P (snd kv)"
  using dict_all_bucket [of P d k] nth_mem [of "bucket d k" "lists d"] by (auto simp: dict_all_def)

lemma dict_all_add:
  assumes "dict_all P d" "P v" "bano_dict_add ms d k v = (r, ms', d')"
  shows "dict_all P d'"
proof -
  have "dict_all P (d\<lparr>lists := (lists d)[bucket d k := lists d ! bucket d k @ [(k, v)]]\<rparr>)"
    using assms(1,2) dict_all_member [OF assms(1)] by (intro dict_all_upd) auto
  with assms(1,3) show ?thesis by (auto simp: bano_dict_add_def Let_def split: prod.splits if_splits)
qed

lemma dict_all_del:
  assumes "dict_all P d" "bano_dict_del d k f s = (r, d', s')"
  shows "dict_all P d'"
proof -
  let ?l = "lists d ! bucket d k"
  have "dict_all P (d\<lparr>lists := (lists d)[bucket d k := take i ?l @ drop (Suc i) ?l]\<rparr>)" for i
    using dict_all_member [OF assms(1)] by (intro dict_all_upd [OF assms(1)]) (auto dest: in_set_takeD in_set_dropD)
  with assms show ?thesis by (auto simp: bano_dict_del_def find_pair_def Let_def split: option.splits)
qed

lemma dict_all_init: "bano_dict_init ms n = (ms', Some d) \<Longrightarrow> dict_all P d"
  by (auto simp: bano_dict_init_def bano_dict_init_with_nlist_def dict_all_def split: prod.splits if_splits)

lemma dict_all_get: "dict_all P d \<Longrightarrow> bano_dict_get d k = Some v \<Longrightarrow> P v"
  by (auto simp: bano_dict_get_map dict_map_def dest!: map_of_SomeD dict_all_member)

definition nodl_ok :: "nodl \<Rightarrow> bool" where
  "nodl_ok nd \<longleftrightarrow> keyvals nd \<noteq> None"

lemma apply_nodl_struct_ok: "apply_nodl_struct W x (ms, nd) = Done (q, ms', nd') \<Longrightarrow> nodl_ok nd \<Longrightarrow> nodl_ok nd'"
  by (auto simp: apply_nodl_struct_def nodl_ok_def split: if_splits prod.splits rc.splits option.splits)

lemma load_nodl_file_ok:
  assumes "load_nodl_file env filename ms nd = Done (r, ms', nd')" "nodl_ok nd"
  shows "nodl_ok nd'"
proof -
  have w: "nodl_ok nd2" if "foreach_out (apply_nodl_struct W) xs (ms1, nd) = Done (r2, ms2, nd2)" for W xs ms1 ms2 nd2 r2
    using foreach_out_invariant [OF that, of "\<lambda>s. nodl_ok (snd s)"] assms(2) apply_nodl_struct_ok by fastforce
  show ?thesis using assms
    by (auto simp: load_nodl_file_def split: outcome.splits prod.splits rc.splits option.splits dest!: w)
qed

lemma load_entries_ok:
  "load_entries env dir es ms (Some d) = Done (Ok, ms', nodls') \<Longrightarrow> dict_all nodl_ok d \<Longrightarrow> ms' \<noteq> [] \<Longrightarrow> 0 \<notin> set ms
    \<Longrightarrow> \<exists>d'. nodls' = Some d' \<and> dict_all nodl_ok d'"
proof (induction es arbitrary: ms d)
  case (Cons d_name es)
  show ?case
  proof (cases "is_nodl_name d_name")
    case True
    let ?id = "of_nat (strtoul (ce_W env) d_name 16) :: u32"
    obtain ra ms1 da where a: "bano_dict_add ms d ?id \<lparr>keyvals = None\<rparr> = (ra, ms1, da)" by (metis prod_cases3)
    obtain ms2 nd where n: "bano_nodl_init ms1 = (ms2, nd)" by fastforce
    have ra: "ra = Ok" using Cons.prems(1) True a by (cases ra) (auto simp: Let_def)
    then obtain rl ms3 nd' where l: "load_nodl_file env (c_str (dir @ ''/'' @ d_name)) ms2 nd = Done (rl, ms3, nd')"
      using Cons.prems(1) True a n by (auto simp: Let_def split: outcome.splits)
    let ?d1 = "snd (snd (bano_dict_add ms d ?id nd'))"
    let ?d2 = "case rl of Ok \<Rightarrow> ?d1 | Err \<Rightarrow> (case bano_dict_del ?d1 ?id (\<lambda>_ _. ()) () of (_, d', _) \<Rightarrow> d')"
    have rest: "load_entries env dir es ms3 (Some ?d2) = Done (Ok, ms', nodls')"
      using Cons.prems(1) True a n l ra by (simp add: Let_def)
    have s: "suffix ms1 ms" "suffix ms2 ms1" "suffix ms3 ms2" "suffix ms' ms3"
      using a n l rest by (auto dest: sfx)
    have "suffix ms' ms2" using s(3,4) by (rule suffix_order.trans [rotated])
    moreover obtain c where "malloc ms1 = (c, ms2)" "nodl_ok nd \<longleftrightarrow> c \<noteq> 0"
      using n by (auto simp: bano_nodl_init_def bano_dict_init_def bano_dict_init_with_nlist_def nodl_ok_def
          split: prod.splits if_splits)
    ultimately have "nodl_ok nd"
      using Cons.prems(3,4) malloc_left(1) [of ms1 c ms2 ms'] suffix_no_null [OF s(1)] by auto
    then have ok: "nodl_ok nd'" by (rule load_nodl_file_ok [OF l])
    have "dict_all nodl_ok ?d1"
      using dict_all_add [OF Cons.prems(2) ok, of ms ?id] by (cases "bano_dict_add ms d ?id nd'") auto
    then have "dict_all nodl_ok ?d2"
      using dict_all_del [of nodl_ok ?d1 ?id "\<lambda>_ _. ()" "()"] by (cases rl) (auto split: prod.splits)
    moreover have "0 \<notin> set ms3" using Cons.prems(4) s(1-3) by (auto dest: suffix_no_null)
    ultimately show ?thesis using Cons.IH [OF rest] Cons.prems(3) by blast
  qed (use Cons in \<open>auto simp: Let_def\<close>)
qed (auto dest: sym)

section \<open>Every structure keeps the base's invariant\<close>

definition opened_ok :: "'w base \<Rightarrow> bool" where
  "opened_ok b \<longleftrightarrow> base_inv b \<and> (\<forall>d. b_nodls b = Some d \<longrightarrow> dict_all nodl_ok d)
     \<and> (\<forall>sa \<in> snd ` set (b_sockets b). socket_at b sa \<noteq> None \<and> sa \<notin> set (b_mls b))
     \<and> distinct (map snd (b_sockets b))"

lemma opened_ok_cong:
  assumes "opened_ok b" "b_nodes b' = b_nodes b" "node_at b' = node_at b" "io_at b' = io_at b"
    "socket_at b' = socket_at b" "b_nodls b' = b_nodls b" "b_sockets b' = b_sockets b" "suffix (b_mls b') (b_mls b)"
  shows "opened_ok b'"
proof -
  obtain ks where "b_mls b = ks @ b_mls b'" using assms(8) by (auto simp: suffix_def)
  with assms(1) have "base_inv (b\<lparr>b_mls := b_mls b'\<rparr>)" by (auto simp: opened_ok_def intro: base_inv_mls)
  moreover have "base_inv b' = base_inv (b\<lparr>b_mls := b_mls b'\<rparr>)" using assms by (intro base_inv_cong) simp_all
  ultimately show ?thesis using assms by (auto simp: opened_ok_def suffix_def)
qed

text \<open>The description directory is the only pair of a base that needs care.\<close>

lemma apply_base_pair_sfx: "apply_base_pair env p b = Done (q, b') \<Longrightarrow> suffix (b_mls b') (b_mls b)"
  by (auto simp: apply_base_pair_def split: if_splits option.splits outcome.splits prod.splits dest!: load_nodl_dir_sfx)

lemma load_nodl_dir_None: "load_nodl_dir env dn ms None = Done (r, ms', nodls') \<Longrightarrow> nodls' = None"
proof -
  have "nodls' = None" if "load_entries env dn es ms1 None = Done (r, ms', nodls')" for es ms1
    using that by (induction es) (auto simp: Let_def split: if_splits)
  then show "load_nodl_dir env dn ms None = Done (r, ms', nodls') \<Longrightarrow> nodls' = None"
    by (auto simp: load_nodl_dir_def split: prod.splits if_splits option.splits)
qed

lemma load_nodl_dir_ok:
  assumes "load_nodl_dir env dn ms (Some d) = Done (Ok, ms', nodls')" "dict_all nodl_ok d" "ms' \<noteq> []" "0 \<notin> set ms"
  shows "\<exists>d'. nodls' = Some d' \<and> dict_all nodl_ok d'"
proof -
  obtain a ms1 where m: "malloc ms = (a, ms1)" by fastforce
  have "0 \<notin> set ms1" using suffix_no_null [OF malloc_sfx [OF m] assms(4)] .
  with assms m show ?thesis
    by (auto simp: load_nodl_dir_def split: if_splits option.splits dest: load_entries_ok)
qed

lemma apply_base_pair_ok:
  assumes "opened_ok b" "0 \<notin> set (b_mls b)" "b_mls b' \<noteq> []" "apply_base_pair env p b = Done (False, b')"
  shows "opened_ok b'"
proof (cases "key_is p ''addr'' \<or> \<not> key_is p ''nodl_dir''")
  case True
  then have "b_nodls b' = b_nodls b \<and> b_nodes b' = b_nodes b \<and> node_at b' = node_at b \<and> io_at b' = io_at b
      \<and> socket_at b' = socket_at b \<and> b_sockets b' = b_sockets b"
    using assms(4) by (auto simp: apply_base_pair_def split: if_splits option.splits)
  then show ?thesis using assms(1) apply_base_pair_sfx [OF assms(4)] by (intro opened_ok_cong [of b b']) auto
next
  case False
  then obtain r ms nodls where l: "load_nodl_dir env (pp_val p) (b_mls b) (b_nodls b) = Done (r, ms, nodls)"
      "r = Ok" "b' = b\<lparr>b_mls := ms, b_nodls := nodls\<rparr>"
    using assms(4) by (cases "load_nodl_dir env (pp_val p) (b_mls b) (b_nodls b)") (auto simp: apply_base_pair_def, metis rc.exhaust)
  have "\<forall>d. nodls = Some d \<longrightarrow> dict_all nodl_ok d"
  proof (cases "b_nodls b")
    case None
    with l(1) load_nodl_dir_None show ?thesis by fastforce
  next
    case (Some d)
    with l assms load_nodl_dir_ok [of env "pp_val p" "b_mls b" d ms nodls] show ?thesis by (auto simp: opened_ok_def)
  qed
  moreover have "opened_ok (b\<lparr>b_mls := ms\<rparr>)"
    by (rule opened_ok_cong [OF assms(1)]) (simp_all add: load_nodl_dir_sfx [OF l(1)])
  ultimately show ?thesis
    unfolding l(3) using base_inv_cong [of "b\<lparr>b_mls := ms, b_nodls := nodls\<rparr>" "b\<lparr>b_mls := ms\<rparr>"]
    by (auto simp: opened_ok_def)
qed

abbreviation st_mls :: "'w station \<Rightarrow> mallocs" where
  "st_mls s \<equiv> b_mls (st_base s)"

lemma apply_base_struct_sfx:
  assumes "apply_base_struct env x s = Done (q, s')"
  shows "suffix (st_mls s') (st_mls s)"
proof -
  obtain r where "foreach_out (apply_base_pair env) (map snd (ps_pairs x)) (st_base s) = Done (r, st_base s')"
    using assms by (auto simp: apply_base_struct_def split: outcome.splits prod.splits)
  then show ?thesis
    by (rule foreach_out_invariant) (auto dest: apply_base_pair_sfx intro: suffix_order.trans)
qed

lemma apply_base_struct_ok:
  assumes "opened_ok (st_base s)" "0 \<notin> set (st_mls s)" "st_mls s' \<noteq> []" "apply_base_struct env x s = Done (False, s')"
  shows "opened_ok (st_base s')"
proof -
  from assms(4) have "foreach_out (apply_base_pair env) (map snd (ps_pairs x)) (st_base s) = Done (Ok, st_base s')"
    by (auto simp: apply_base_struct_def split: outcome.splits prod.splits) (metis rc.exhaust)
  then show ?thesis
    using assms(1,3,2) by (rule foreach_out_left(1) [where m = b_mls]) (auto intro: apply_base_pair_ok apply_base_pair_sfx)
qed

section \<open>Sockets, nodes and servers\<close>

lemma socket_alloc_sfx: "bano_socket_alloc lib ms si p w = (r, ms', p', w') \<Longrightarrow> suffix ms' ms"
  by (auto simp: bano_socket_alloc_def bano_socket_snrf_open_def bano_socket_httpd_open_def Let_def
      split: prod.splits if_splits socket_type.splits rc.splits dest!: malloc_sfx intro: suffix_order.trans)

lemma socket_alloc_head:
  assumes "bano_socket_alloc lib ms si p w = (Some (a, s), ms', p', w')"
  shows "\<exists>ms1. malloc ms = (a, ms1) \<and> a \<noteq> 0 \<and> suffix ms' ms1"
  using assms by (auto simp: bano_socket_alloc_def bano_socket_snrf_open_def bano_socket_httpd_open_def Let_def
      split: prod.splits if_splits socket_type.splits rc.splits dest!: malloc_sfx)

lemma base_inv_new_socket:
  assumes "base_inv b" "suffix ms (b_mls b)"
  shows "base_inv (b\<lparr>pipes := ps, world := w, socket_at := (socket_at b)(a \<mapsto> s), b_mls := ms, b_sockets := xs\<rparr>)"
proof -
  let ?b = "b\<lparr>pipes := ps, world := w, socket_at := (socket_at b)(a \<mapsto> s), b_mls := ms, b_sockets := xs\<rparr>"
  have n: "nodes_of ?b = nodes_of b" by (simp add: nodes_of_def)
  have "base_node_ok ?b na nd" if "base_node_ok b na nd" for na nd using that by (auto simp: base_node_ok_def)
  then have "base_wf ?b" unfolding base_wf_def n using assms(1) by (simp add: base_inv_def base_wf_def) meson
  moreover have "used ?b = used b" unfolding used_def n by simp
  ultimately show ?thesis
    using assms by (auto simp: base_inv_def suffix_def intro: mls_fresh_suffix)
qed

lemma free_nodes_mls: "free_nodes xs b = Some b' \<Longrightarrow> b_mls b' = b_mls b"
proof (induction xs b rule: free_nodes.induct)
  case (2 it na xs b)
  have f: "b_mls (fold bano_free_io as c) = b_mls c" for as and c :: "'a base"
    by (induction as arbitrary: c) simp_all
  from 2 show ?case by (auto simp: f split: bind_splits)
qed simp

lemma socket_free_mls: "bano_socket_free lib sa b = Some b' \<Longrightarrow> b_mls b' = b_mls b"
  by (auto simp: bano_socket_free_def split: bind_splits dest: free_nodes_mls)

lemma add_socket_sfx: "bano_add_socket lib si b = Some (r, b') \<Longrightarrow> suffix (b_mls b') (b_mls b)"
  by (auto simp: bano_add_socket_def Let_def split: prod.splits option.splits rc.splits
      dest!: socket_alloc_sfx seq_add_tail_sfx socket_free_mls intro: suffix_order.trans)

lemma add_socket_ok:
  assumes "opened_ok b" "bano_add_socket lib si b = Some (Ok, b')"
  shows "opened_ok b'"
proof -
  from assms(2) obtain a s ms ps w ms' xs where al: "bano_socket_alloc (snrf_lib.truncate lib) (b_mls b) si (pipes b) (world b) = (Some (a, s), ms, ps, w)"
    and t: "seq_add_tail ms a (b_sockets b) = (Ok, ms', xs)"
    and b': "b' = b\<lparr>pipes := ps, world := w, socket_at := (socket_at b)(a \<mapsto> s), b_mls := ms', b_sockets := xs\<rparr>"
    by (auto simp: bano_add_socket_def Let_def split: prod.splits option.splits rc.splits)
  have "suffix ms' (b_mls b)" using socket_alloc_sfx [OF al] seq_add_tail_sfx [OF t] by (rule suffix_order.trans [rotated])
  then have "base_inv b'" unfolding b' using assms(1) by (intro base_inv_new_socket) (auto simp: opened_ok_def)
  moreover have xs: "map snd xs = map snd (b_sockets b) @ [a]"
    using t by (auto simp: seq_add_tail_def split: prod.splits if_splits)
  obtain ms1 where a: "malloc (b_mls b) = (a, ms1)" "a \<noteq> 0" "suffix ms ms1"
    using socket_alloc_head [OF al] by auto
  have "a \<in> set (b_mls b)" using a(1,2) by (cases "b_mls b") auto
  moreover have "a \<notin> set ms1"
    using assms(1) a(1,2) by (cases "b_mls b") (auto simp: opened_ok_def base_inv_def mls_fresh_def)
  moreover have "set ms' \<subseteq> set ms1" "set ms' \<subseteq> set (b_mls b)"
    using a(3) seq_add_tail_sfx [OF t] \<open>suffix ms' (b_mls b)\<close> by (auto simp: suffix_def)
  moreover have "snd ` set xs = insert a (snd ` set (b_sockets b))" using arg_cong [OF xs, of set] by simp
  moreover have "distinct (map snd xs) \<longleftrightarrow> distinct (map snd (b_sockets b)) \<and> a \<notin> snd ` set (b_sockets b)"
    unfolding xs by auto
  ultimately show ?thesis using assms(1) by (auto simp: opened_ok_def b')
qed

text \<open>Two bases that differ in their tables of pipes, the outside, and flags only.\<close>

definition same_parts :: "'w base \<Rightarrow> 'w base \<Rightarrow> bool" where
  "same_parts b' b \<longleftrightarrow> b_nodes b' = b_nodes b \<and> node_at b' = node_at b \<and> io_at b' = io_at b
     \<and> socket_at b' = socket_at b \<and> b_nodls b' = b_nodls b \<and> b_sockets b' = b_sockets b \<and> b_mls b' = b_mls b"

lemma opened_ok_same: "opened_ok b \<Longrightarrow> same_parts b' b \<Longrightarrow> opened_ok b'"
  by (rule opened_ok_cong) (auto simp: same_parts_def)

lemma httpd_init_base:
  assumes "bano_httpd_init lib junk hi b = Some (r, b')"
  shows "\<exists>q b1. bano_add_socket (base_lib.truncate lib) (junk\<lparr>si_type := BANO_SOCKET_TYPE_HTTPD\<rparr>) b = Some (q, b1)
    \<and> same_parts b' b1 \<and> (r \<noteq> None \<longrightarrow> q = Ok)"
proof -
  obtain q b1 where 1: "bano_add_socket (base_lib.truncate lib) (junk\<lparr>si_type := BANO_SOCKET_TYPE_HTTPD\<rparr>) b = Some (q, b1)"
    using assms by (cases "bano_add_socket (base_lib.truncate lib) (junk\<lparr>si_type := BANO_SOCKET_TYPE_HTTPD\<rparr>) b")
      (auto simp: bano_httpd_init_def Let_def)
  have "q = Ok" if "r \<noteq> None" using assms 1 that by (cases q) (auto simp: bano_httpd_init_def Let_def)
  moreover have "same_parts b' b1"
    using assms 1 by (cases q) (auto simp: bano_httpd_init_def Let_def same_parts_def split: option.splits prod.splits rc.splits)
  ultimately show ?thesis using 1 by blast
qed

lemma httpd_struct_sfx:
  assumes "apply_httpd_struct env x s = Done (q, s')"
  shows "suffix (st_mls s') (st_mls s)"
proof -
  consider "s' = s" | r hi b1 where "bano_httpd_init (ce_lib env) (ce_socket_info env x) hi (st_base s) = Some (r, b1)"
      "st_mls s' = b_mls b1"
    using assms by (auto simp: apply_httpd_struct_def split: prod.splits if_splits option.splits)
  then show ?thesis
    by cases (auto simp: same_parts_def dest!: httpd_init_base add_socket_sfx)
qed

lemma httpd_struct_ok:
  assumes "opened_ok (st_base s)" "apply_httpd_struct env x s = Done (False, s')"
  shows "opened_ok (st_base s')"
proof -
  obtain hi h b1 where 1: "bano_httpd_init (ce_lib env) (ce_socket_info env x) hi (st_base s) = Some (Some h, b1)"
      "st_base s' = b1\<lparr>is_httpd := True\<rparr>"
    using assms(2) by (auto simp: apply_httpd_struct_def split: prod.splits if_splits option.splits)
  obtain b2 where 2: "bano_add_socket (base_lib.truncate (ce_lib env)) ((ce_socket_info env x)\<lparr>si_type := BANO_SOCKET_TYPE_HTTPD\<rparr>) (st_base s) = Some (Ok, b2)"
      "same_parts b1 b2"
    using httpd_init_base [OF 1(1)] by auto
  have "opened_ok b2" by (rule add_socket_ok [OF assms(1) 2(1)])
  then have "opened_ok b1" using 2(2) by (rule opened_ok_same)
  then show ?thesis unfolding 1(2) by (rule opened_ok_same) (simp add: same_parts_def)
qed

lemma add_cstr_sfx: "bano_parser_add_cstr st v = (st', r) \<Longrightarrow> suffix (mls st') (mls st)"
  by (auto simp: bano_parser_add_cstr_def bano_string_to_cstr_def split: prod.splits if_splits option.splits rc.splits
      dest!: malloc_sfx seq_add_tail_sfx intro: suffix_order.trans)

lemma foreach_until_sfx:
  assumes "foreach_until f xs s = (r, s')" "\<And>x s q s'. f x s = (q, s') \<Longrightarrow> suffix (m s') (m s :: mallocs)"
  shows "suffix (m s') (m s)"
  using assms(1)
proof (induction xs arbitrary: s)
  case (Cons x xs)
  obtain q s1 where f: "f x s = (q, s1)" by fastforce
  show ?case
  proof (cases q)
    case False
    with Cons f have "suffix (m s') (m s1)" by auto
    with assms(2) [OF f] show ?thesis by (rule suffix_order.trans [rotated])
  qed (use Cons.prems f assms(2) [OF f] in auto)
qed simp

lemma socket_pairs_sfx:
  assumes "bano_parser_foreach_pair x (apply_socket_pair a) (si, st) = (r, si', st')"
  shows "suffix (mls st') (mls st)"
proof -
  have "suffix (mls (snd s2)) (mls (snd s1))" if "apply_socket_pair a p s1 = (q, s2)" for p s1 q s2
    using that by (auto simp: apply_socket_pair_def split: if_splits prod.splits option.splits dest!: add_cstr_sfx)
  then show ?thesis
    using foreach_until_sfx [where m = "\<lambda>s. mls (snd s)"] assms by (fastforce simp: bano_parser_foreach_pair_def)
qed

lemma socket_struct_sfx:
  assumes "apply_socket_struct env x s = Done (q, s')"
  shows "suffix (st_mls s') (st_mls s)"
  using assms
  by (auto simp: apply_socket_struct_def Let_def split: prod.splits if_splits option.splits
      dest!: socket_pairs_sfx add_socket_sfx intro: suffix_order.trans)

lemma socket_struct_ok:
  assumes "opened_ok (st_base s)" "apply_socket_struct env x s = Done (False, s')"
  shows "opened_ok (st_base s')"
proof -
  let ?b = "st_base s"
  obtain r si st where p: "bano_parser_foreach_pair x (apply_socket_pair (b_addr ?b))
      (bano_socket_init_info (ce_socket_info env x), (st_psr s)\<lparr>mls := b_mls ?b\<rparr>) = (r, si, st)" by (metis prod_cases3)
  then have "bano_add_socket (base_lib.truncate (ce_lib env)) si (?b\<lparr>b_mls := mls st\<rparr>) = Some (Ok, st_base s')"
    using assms(2) by (auto simp: apply_socket_struct_def Let_def split: if_splits option.splits prod.splits) (metis rc.exhaust)
  moreover have "opened_ok (?b\<lparr>b_mls := mls st\<rparr>)"
    using socket_pairs_sfx [OF p] by (intro opened_ok_cong [OF assms(1)]) simp_all
  ultimately show ?thesis using add_socket_ok by blast
qed

lemma node_alloc_sfx: "bano_node_alloc ms = (ms', r) \<Longrightarrow> suffix ms' ms"
  by (auto simp: bano_node_alloc_def split: prod.splits if_splits dest!: malloc_sfx dict_init_sfx intro: suffix_order.trans)

lemma add_node_sfx: "bano_add_node ni b = Some (r, b') \<Longrightarrow> suffix (b_mls b') (b_mls b)"
  by (auto simp: bano_add_node_def Let_def split: if_splits prod.splits option.splits rc.splits bind_splits
      dest!: node_alloc_sfx seq_add_tail_sfx intro: suffix_order.trans)

text \<open>A configured node satisfies the invariant: its dictionaries exist, and its socket.\<close>

lemma bano_add_node_ok:
  assumes "opened_ok b" "socket_at b (ni_socket ni) \<noteq> None" "0 \<notin> set (b_mls b)" "b_mls b' \<noteq> []"
    and "bano_add_node ni b = Some (Ok, b')"
  shows "opened_ok b'"
proof -
  obtain ms1 na nd where al: "bano_node_alloc (b_mls b) = (ms1, Some (na, nd))"
    using assms(5) by (auto simp: bano_add_node_def split: if_splits prod.splits option.splits)
  define nd1 where "nd1 = (let nd = (if has_flag (ni_flags ni) BANO_NODE_FLAG_CIPHER
                    then nd\<lparr>n_flags := n_flags nd OR BANO_NODE_FLAG_CIPHER\<rparr> else nd)
     in (if has_flag (ni_flags ni) BANO_NODE_FLAG_NAME
                    then nd\<lparr>n_flags := n_flags nd OR BANO_NODE_FLAG_NAME, n_name := ni_name ni\<rparr> else nd))"
  define nd2 where "nd2 = nd1\<lparr>n_addr := ni_addr ni, n_socket := ni_socket ni\<rparr>"
  obtain dl where dl: "get_nodl b (ni_nodl_id ni) = Some (Some dl)"
    using assms(5) al by (auto simp: bano_add_node_def Let_def split: if_splits option.splits bind_splits)
  obtain it where t: "malloc ms1 = (it, b_mls b')" "it \<noteq> 0"
    and b': "b' = set_node na (nd2\<lparr>n_nodl := Some dl\<rparr>) (b\<lparr>b_mls := b_mls b', b_nodes := b_nodes b @ [(it, na)]\<rparr>)"
    using assms(5) al dl unfolding bano_add_node_def nd2_def nd1_def
    by (auto simp: seq_add_tail_def Let_def split: if_splits prod.splits)
  obtain ms0 d where m0: "malloc (b_mls b) = (na, ms0)" "na \<noteq> 0" "bano_dict_init ms0 16 = (ms1, d)"
    and nd: "keyval_pairs nd = d" "posted_ios nd = []" "pending_ios nd = []"
    using al by (auto simp: bano_node_alloc_def split: prod.splits if_splits)
  obtain c where m: "malloc (b_mls b) = (na, ms0)" "na \<noteq> 0" "malloc ms0 = (c, ms1)" and dc: "c \<noteq> 0 \<Longrightarrow> d \<noteq> None"
    using m0 by (auto simp: bano_dict_init_def bano_dict_init_with_nlist_def split: prod.splits if_splits)
  have wfd0: "dict_wf x" if "d = Some x" for x
    using bano_dict_init_wf [of ms0 16 3 ms1 x] m0(3) that by (simp add: bano_dict_init_def)
  have "suffix (b_mls b') ms1" using t by (auto dest: malloc_sfx)
  then have c: "c \<noteq> 0" using malloc_left(1) [OF m(3) _ assms(4)] suffix_no_null [OF malloc_sfx [OF m(1)] assms(3)] by blast
  then have wfd: "\<exists>d. keyval_pairs nd = Some d \<and> dict_wf d" using nd(1) dc wfd0 by auto
  have "nodl_ok dl"
    using assms(1) dl dict_all_get [of nodl_ok] by (auto simp: opened_ok_def get_nodl_def)
  then have wf: "node_wf (nd2\<lparr>n_nodl := Some dl\<rparr>)" "node_ios (nd2\<lparr>n_nodl := Some dl\<rparr>) = []"
    using wfd nd(2,3) by (auto simp: nd2_def nd1_def Let_def node_wf_def node_ios_def nodl_ok_def)
  have mls: "b_mls b = na # c # it # b_mls b'"
    using m t c by (cases "b_mls b"; cases ms0; cases ms1) auto
  have "base_inv b'"
    by (subst b', rule add_node_inv [OF _ mls m(2) t(2) wf]) (use assms(1,2) in \<open>auto simp: opened_ok_def nd2_def\<close>)
  moreover have "b_nodls b' = b_nodls b" "b_sockets b' = b_sockets b" "socket_at b' = socket_at b"
    by (subst b', simp add: set_node_def)+
  moreover have "set (b_mls b') \<subseteq> set (b_mls b)" using mls by auto
  ultimately show ?thesis using assms(1) by (auto simp: opened_ok_def)
qed

lemma node_struct_sfx: "apply_node_struct env x s = Done (q, s') \<Longrightarrow> suffix (st_mls s') (st_mls s)"
  by (auto simp: apply_node_struct_def Let_def split: list.splits prod.splits if_splits option.splits dest!: add_node_sfx)

text \<open>The pairs of a node do not change its socket.\<close>

lemma node_pairs_socket:
  "foreach_until (apply_node_pair W) ps ni = (r, ni') \<Longrightarrow> ni_socket ni' = ni_socket ni"
proof (induction ps arbitrary: ni)
  case (Cons p ps)
  obtain q n1 where f: "apply_node_pair W p ni = (q, n1)" by fastforce
  then have "ni_socket n1 = ni_socket ni"
    by (auto simp: apply_node_pair_def Let_def split: if_splits option.splits)
  with Cons f show ?case by (cases q) auto
qed simp

lemma node_struct_ok:
  assumes "opened_ok (st_base s)" "0 \<notin> set (st_mls s)" "st_mls s' \<noteq> []" "apply_node_struct env x s = Done (False, s')"
  shows "opened_ok (st_base s')"
proof -
  obtain it sa xs where xs: "b_sockets (st_base s) = (it, sa) # xs"
    using assms(4) by (cases "b_sockets (st_base s)") (auto simp: apply_node_struct_def Let_def)
  define ni1 where "ni1 = (let ni0 = bano_init_node_info (ce_node_info env x) in
    ni0\<lparr>ni_flags := ni_flags ni0 OR BANO_NODE_FLAG_SOCKET, ni_socket := sa\<rparr>)"
  obtain r ni where p: "bano_parser_foreach_pair x (apply_node_pair (ce_W env)) ni1 = (r, ni)" by fastforce
  have "ni_socket ni = sa"
    using node_pairs_socket p by (fastforce simp: bano_parser_foreach_pair_def ni1_def Let_def)
  moreover have "bano_add_node ni (st_base s) = Some (Ok, st_base s')"
    using assms(4) xs p unfolding ni1_def
    by (auto simp: apply_node_struct_def Let_def split: if_splits option.splits prod.splits) (metis rc.exhaust)
  moreover have "socket_at (st_base s) sa \<noteq> None" using assms(1) xs by (auto simp: opened_ok_def)
  ultimately show ?thesis using bano_add_node_ok [OF assms(1) _ assms(2,3)] by blast
qed

lemma cam_struct_ok:
  assumes "apply_cam_struct env x s = Done (q, s')"
  shows "suffix (st_mls s') (st_mls s)" "opened_ok (st_base s) \<Longrightarrow> opened_ok (st_base s')"
proof -
  have "same_parts (st_base s') (st_base s)"
    using assms by (auto simp: apply_cam_struct_def Let_def set_world_def same_parts_def split: prod.splits if_splits rc.splits)
  then show "suffix (st_mls s') (st_mls s)" "opened_ok (st_base s) \<Longrightarrow> opened_ok (st_base s')"
    by (auto simp: same_parts_def intro: opened_ok_same)
qed

lemma sms_pairs_sfx:
  assumes "bano_parser_foreach_pair x (apply_sms_pair env) (si, ms) = (r, si', ms')"
  shows "suffix ms' ms"
proof -
  have "suffix (snd s2) (snd s1)" if "apply_sms_pair env p s1 = (q, s2)" for p s1 q s2
    using that by (auto simp: apply_sms_pair_def bano_string_to_cstr_def split: if_splits prod.splits option.splits dest!: malloc_sfx)
  then show ?thesis
    using foreach_until_sfx [where m = snd] assms by (fastforce simp: bano_parser_foreach_pair_def)
qed

lemma sms_struct_ok:
  assumes "apply_sms_struct env x s = Done (q, s')"
  shows "suffix (st_mls s') (st_mls s)" "opened_ok (st_base s) \<Longrightarrow> opened_ok (st_base s')"
proof -
  let ?b = "st_base s"
  obtain r si ms where p: "bano_parser_foreach_pair x (apply_sms_pair env) (bano_sms_init_info (ce_sms_info env x), b_mls ?b) = (r, si, ms)"
    by (metis prod_cases3)
  have "same_parts (st_base s') (?b\<lparr>b_mls := ms\<rparr>)"
    using assms p by (auto simp: apply_sms_struct_def Let_def set_world_def same_parts_def split: prod.splits if_splits rc.splits)
  then show "suffix (st_mls s') (st_mls s)" "opened_ok ?b \<Longrightarrow> opened_ok (st_base s')"
    using sms_pairs_sfx [OF p] by (auto simp: same_parts_def intro: opened_ok_cong)
qed

lemma apply_struct_sfx: "apply_struct env x s = Done (q, s') \<Longrightarrow> suffix (st_mls s') (st_mls s)"
  by (auto simp: apply_struct_def Let_def split: if_splits
      dest: apply_base_struct_sfx socket_struct_sfx node_struct_sfx httpd_struct_sfx cam_struct_ok(1) sms_struct_ok(1))

lemma apply_struct_ok:
  assumes "opened_ok (st_base s)" "0 \<notin> set (st_mls s)" "st_mls s' \<noteq> []" "apply_struct env x s = Done (False, s')"
  shows "opened_ok (st_base s')"
  using assms(4)
    apply_base_struct_ok [OF assms(1-3), of env x] socket_struct_ok [OF assms(1), of env x s'] node_struct_ok [OF assms(1-3), of env x]
    httpd_struct_ok [OF assms(1), of env x s'] cam_struct_ok(2) [OF _ assms(1), of env x False s'] sms_struct_ok(2) [OF _ assms(1), of env x False s']
  by (auto simp: apply_struct_def Let_def split: if_splits) (use assms(1) in auto)

section \<open>Opening\<close>

text \<open>The caller's memory before \<open>bano_open\<close>: no operation is allocated, and \<open>malloc\<close> returns distinct addresses.\<close>

definition fresh_memory :: "'w base \<Rightarrow> bool" where
  "fresh_memory b0 \<longleftrightarrow> distinct (b_mls b0) \<and> 0 \<notin> set (b_mls b0) \<and> (\<forall>a. io_at b0 a = None)"

lemma open_base_ok:
  assumes "fresh_memory b0"
  shows "opened_ok (open_base info b0)" "suffix (b_mls (open_base info b0)) (b_mls b0)"
proof -
  obtain ms d where d: "(bano_dict_init (b_mls b0) 24 :: mallocs \<times> nodl dict option) = (ms, d)" by fastforce
  have s: "suffix ms (b_mls b0)" by (rule dict_init_sfx [OF d])
  then have "distinct ms" using assms by (auto simp: fresh_memory_def suffix_def)
  then have "base_inv (open_base info b0)"
    using assms by (auto simp: open_base_def d base_inv_def base_wf_def mls_fresh_def used_def nodes_of_def fresh_memory_def)
  moreover have "\<forall>x. d = Some x \<longrightarrow> dict_all nodl_ok x" using d dict_all_init by blast
  ultimately show "opened_ok (open_base info b0)" by (auto simp: opened_ok_def open_base_def d)
  show "suffix (b_mls (open_base info b0)) (b_mls b0)" using s by (simp add: open_base_def d)
qed

lemma apply_conf_ok:
  assumes "opened_ok (st_base s)" "0 \<notin> set (st_mls s)" "st_mls s' \<noteq> []" "apply_conf env path s = Done (Ok, s')"
  shows "opened_ok (st_base s')"
proof -
  obtain st s1 where l: "bano_parser_load_file (ce_fuel env) (ce_files env) (st_mls s) {} path = Done (Ok, st)"
    and w: "foreach_out (apply_struct env) (map snd (structs (psr st)))
        (s\<lparr>st_base := (st_base s)\<lparr>b_mls := mls st\<rparr>, st_psr := st\<rparr>) = Done (Ok, s1)" and b: "st_base s' = st_base s1"
    using assms(4) by (auto simp: apply_conf_def split: outcome.splits prod.splits rc.splits option.splits)
  have sf: "suffix (mls st) (st_mls s)" by (rule load_file_sfx [OF l])
  have ok: "opened_ok ((st_base s)\<lparr>b_mls := mls st\<rparr>)" by (rule opened_ok_cong [OF assms(1)]) (simp_all add: sf)
  have "opened_ok (st_base s1)"
  proof (rule foreach_out_left(1) [OF w, where P = "\<lambda>s. opened_ok (st_base s)" and m = "\<lambda>s. st_mls s"])
    show "0 \<notin> set (st_mls (s\<lparr>st_base := (st_base s)\<lparr>b_mls := mls st\<rparr>, st_psr := st\<rparr>))"
      using suffix_no_null [OF sf assms(2)] by simp
  qed (use ok assms(3) b in \<open>auto intro: apply_struct_ok apply_struct_sfx\<close>)
  then show ?thesis by (simp add: b)
qed

lemma bano_open_ok:
  assumes "fresh_memory (st_base s0)" "bano_open env info s0 = Done (Ok, s)" "st_mls s \<noteq> []"
  shows "opened_ok (st_base s)"
proof -
  let ?b = "open_base info (st_base s0)"
  have 0: "0 \<notin> set (b_mls ?b)"
    using suffix_no_null [OF open_base_ok(2) [OF assms(1)]] assms(1) by (auto simp: fresh_memory_def)
  show ?thesis
  proof (cases "has_flag (ba_flags info) BANO_BASE_FLAG_CONF")
    case True
    then have "apply_conf env (ba_conf_path info) (s0\<lparr>st_base := ?b, st_httpd := None\<rparr>) = Done (Ok, s)"
      using assms(2) by (auto simp: bano_open_def Let_def split: outcome.splits prod.splits rc.splits option.splits)
    from apply_conf_ok [OF _ _ assms(3) this] open_base_ok(1) [OF assms(1)] 0 show ?thesis by simp
  next
    case False
    with assms(2) open_base_ok(1) [OF assms(1)] show ?thesis by (auto simp: bano_open_def Let_def)
  qed
qed

section \<open>Closing\<close>

lemma list_fini_timers:
  "fseg h p xs 0 \<Longrightarrow> distinct xs \<Longrightarrow> \<exists>s'. list_fini_at fini_timer p (h, st) = Some s'"
proof (induction xs arbitrary: p h st)
  case (Cons x xs)
  from Cons.prems(1) obtain it where x: "p = x" "x \<noteq> 0" "h x = Some it" "fseg h (it_next it) xs 0"
    by auto
  with Cons.prems(2) have "\<exists>s'. list_fini_at fini_timer (it_next it) (h(x := None), st(it_data it := None)) = Some s'"
    by (intro Cons.IH) (simp_all del: fun_upd_apply)
  then show ?case using x by (subst list_fini_at.simps) (auto simp: fini_timer_def)
qed (simp add: list_fini_at.simps)

lemma bano_timer_fini_ok: "timers_wf t as \<Longrightarrow> \<exists>t'. bano_timer_fini t = Some t'"
  using list_fini_timers [of "tm_heap t" "l_head (tm_list t)" as "tm_store t"]
  by (auto simp: timers_wf_def fll_def bano_timer_fini_def bano_list_fini_def)

lemma fold_free_io:
  "io_at (fold bano_free_io as b) = (\<lambda>a. if a \<in> set as then None else io_at b a)"
  "node_at (fold bano_free_io as b) = node_at b" "socket_at (fold bano_free_io as b) = socket_at b"
  "b_sockets (fold bano_free_io as b) = b_sockets b"
proof -
  have s: "b_sockets (bano_free_io a c) = b_sockets c" for a and c :: "'a base" by (simp add: bano_free_io_def)
  show "io_at (fold bano_free_io as b) = (\<lambda>a. if a \<in> set as then None else io_at b a)"
    by (induction as arbitrary: b) (auto simp: fun_eq_iff)
  show "node_at (fold bano_free_io as b) = node_at b" "socket_at (fold bano_free_io as b) = socket_at b"
    "b_sockets (fold bano_free_io as b) = b_sockets b"
    by (induction as arbitrary: b; simp add: s)+
qed

text \<open>The operations of the nodes of a list.\<close>

definition ios_of :: "(addr \<Rightarrow> node option) \<Rightarrow> addr items \<Rightarrow> addr set" where
  "ios_of nodes xs = (\<Union>na \<in> snd ` set xs. set (node_ios (the (nodes na))))"

lemma free_nodes_all:
  assumes "distinct (map snd xs)" "\<forall>na \<in> snd ` set xs. node_at b na \<noteq> None"
  shows "\<exists>b'. free_nodes xs b = Some b'
    \<and> node_at b' = (\<lambda>a. if a \<in> snd ` set xs then None else node_at b a)
    \<and> io_at b' = (\<lambda>a. if a \<in> ios_of (node_at b) xs then None else io_at b a)
    \<and> socket_at b' = socket_at b \<and> b_sockets b' = b_sockets b"
  using assms
proof (induction xs arbitrary: b)
  case Nil
  then show ?case by (simp add: ios_of_def)
next
  case (Cons x xs)
  obtain it na where x: "x = (it, na)" by fastforce
  obtain nd where nd: "node_at b na = Some nd" using Cons.prems(2) x by auto
  have free: "bano_node_free nd = node_ios nd" by (simp add: bano_node_free_def node_ios_def)
  define b1 where "b1 = fold bano_free_io (bano_node_free nd) (b\<lparr>node_at := (node_at b)(na := None)\<rparr>)"
  have n1: "node_at b1 = (node_at b)(na := None)" "socket_at b1 = socket_at b" "b_sockets b1 = b_sockets b"
    and i1: "io_at b1 = (\<lambda>a. if a \<in> set (node_ios nd) then None else io_at b a)"
    by (simp_all add: b1_def fold_free_io free fun_eq_iff)
  have old: "node_at b1 ma = node_at b ma" if "ma \<in> snd ` set xs" for ma using that Cons.prems(1) x n1 by auto
  then obtain b' where b': "free_nodes xs b1 = Some b'"
    "node_at b' = (\<lambda>a. if a \<in> snd ` set xs then None else node_at b1 a)"
    "io_at b' = (\<lambda>a. if a \<in> ios_of (node_at b1) xs then None else io_at b1 a)"
    "socket_at b' = socket_at b1" "b_sockets b' = b_sockets b1"
    using Cons.IH [of b1] Cons.prems by auto
  have "ios_of (node_at b1) xs = ios_of (node_at b) xs" using old by (simp add: ios_of_def)
  then have "ios_of (node_at b) (x # xs) = set (node_ios nd) \<union> ios_of (node_at b1) xs"
    using nd x by (simp add: ios_of_def)
  moreover have "free_nodes (x # xs) b = Some b'" using nd b'(1) x by (simp add: b1_def)
  ultimately show ?case using b'(2-5) n1 i1 x by (auto simp: fun_eq_iff)
qed

lemma free_sockets_all:
  assumes "b_nodes b = []" "distinct (map snd xs)" "\<forall>sa \<in> snd ` set xs. socket_at b sa \<noteq> None"
  shows "\<exists>b'. free_sockets lib xs b = Some b' \<and> node_at b' = node_at b \<and> io_at b' = io_at b \<and> b_nodes b' = []
    \<and> socket_at b' = (\<lambda>a. if a \<in> snd ` set xs then None else socket_at b a)"
  using assms
proof (induction xs arbitrary: b)
  case (Cons x xs)
  obtain it sa where x: "x = (it, sa)" by fastforce
  obtain s where s: "socket_at b sa = Some s" using Cons.prems(3) x by auto
  define b1 where "b1 = b\<lparr>world := snd (bano_socket_close (snrf_lib.truncate lib) s (world b)), socket_at := (socket_at b)(sa := None)\<rparr>"
  have f: "bano_socket_free lib sa b = Some b1" using Cons.prems(1) s by (simp add: bano_socket_free_def b1_def)
  have b1: "node_at b1 = node_at b" "io_at b1 = io_at b" "b_nodes b1 = []" "socket_at b1 = (socket_at b)(sa := None)"
    using Cons.prems(1) by (simp_all add: b1_def)
  have "\<forall>sa \<in> snd ` set xs. socket_at b1 sa \<noteq> None" using Cons.prems(2,3) x b1(4) by auto
  from Cons.IH [OF b1(3) _ this] Cons.prems(2) obtain b' where
    "free_sockets lib xs b1 = Some b'" "node_at b' = node_at b1" "io_at b' = io_at b1" "b_nodes b' = []"
    "socket_at b' = (\<lambda>a. if a \<in> snd ` set xs then None else socket_at b1 a)"
    by auto
  then show ?case using f x b1 by (auto simp: fun_eq_iff)
qed simp

text \<open>Closing releases every node, every operation on their lists, and every socket.\<close>

lemma bano_close_releases:
  assumes "opened_ok (st_base s)" "timers_wf (b_timers (st_base s)) as" "b_nodls (st_base s) \<noteq> None"
  shows "\<exists>s'. bano_close env s = Some (Ok, s') \<and> b_nodes (st_base s') = [] \<and> b_sockets (st_base s') = []
    \<and> node_at (st_base s') = (\<lambda>a. if a \<in> nodes_of (st_base s) then None else node_at (st_base s) a)
    \<and> io_at (st_base s') = (\<lambda>a. if a \<in> ios_of (node_at (st_base s)) (b_nodes (st_base s)) then None else io_at (st_base s) a)
    \<and> socket_at (st_base s') = (\<lambda>a. if a \<in> snd ` set (b_sockets (st_base s)) then None else socket_at (st_base s) a)"
proof -
  let ?b = "st_base s" and ?lib = "base_lib.truncate (ce_lib env)"
  define w3 where "w3 = (let w1 = (if is_httpd ?b then (case st_httpd s of None \<Rightarrow> world ?b | Some h \<Rightarrow> bano_httpd_fini (ce_lib env) h (world ?b))
                else world ?b);
          w2 = (if is_cam ?b then ce_cam_close env w1 else w1)
      in if is_sms ?b then ce_sms_close env w2 else w2)"
  obtain t where t: "bano_timer_fini (b_timers ?b) = Some t" using bano_timer_fini_ok [OF assms(2)] by blast
  obtain d where d: "b_nodls ?b = Some d" using assms(3) by blast
  let ?b0 = "?b\<lparr>world := w3, b_nodls := None, b_timers := t\<rparr>"
  have wf: "distinct (map snd (b_nodes ?b))" "\<forall>na \<in> snd ` set (b_nodes ?b). node_at ?b na \<noteq> None"
    using assms(1) by (auto simp: opened_ok_def base_inv_def base_wf_def nodes_of_def base_node_ok_def)
  obtain b1 where b1: "free_nodes (b_nodes ?b) ?b0 = Some b1"
    "node_at b1 = (\<lambda>a. if a \<in> snd ` set (b_nodes ?b) then None else node_at ?b a)"
    "io_at b1 = (\<lambda>a. if a \<in> ios_of (node_at ?b) (b_nodes ?b) then None else io_at ?b a)"
    "socket_at b1 = socket_at ?b" "b_sockets b1 = b_sockets ?b"
    using free_nodes_all [of "b_nodes ?b" ?b0] wf by auto
  obtain b2 where b2: "free_sockets ?lib (b_sockets b1) (b1\<lparr>b_nodes := []\<rparr>) = Some b2"
    "node_at b2 = node_at b1" "io_at b2 = io_at b1" "b_nodes b2 = []"
    "socket_at b2 = (\<lambda>a. if a \<in> snd ` set (b_sockets b1) then None else socket_at b1 a)"
    using free_sockets_all [of "b1\<lparr>b_nodes := []\<rparr>" "b_sockets b1" ?lib] assms(1) b1(4,5)
    by (auto simp: opened_ok_def simp del: if_weak_cong cong: if_cong)
  have "bano_close env s = Some (Ok, s\<lparr>st_base := b2\<lparr>b_sockets := []\<rparr>\<rparr>)"
    unfolding bano_close_def Let_def using d t b1(1) b2(1) by (simp add: w3_def Let_def)
  then show ?thesis using b1 b2 by (auto simp: nodes_of_def)
qed

section \<open>Entries of a description\<close>

text \<open>An entry that is read can be found under its key, and the others stay.\<close>

lemma keyval_struct_found:
  assumes "nodl_wf nd" "keyvals nd = Some d" "ps_name x = ''keyval''"
    and "bano_parser_foreach_pair x (apply_nodl_keyval_pair W) bano_nodl_keyval_init = (Ok, kv)"
    and "bano_nodl_find_key nd (kv_key kv) = Some None" "ms = a # c # ms'" "a \<noteq> 0" "c \<noteq> 0"
  shows "\<exists>nd'. apply_nodl_struct W x (ms, nd) = Done (False, ms', nd') \<and> nodl_wf nd'
    \<and> (\<forall>k. bano_nodl_find_key nd' k = (if k = kv_key kv then Some (Some (default_name kv)) else bano_nodl_find_key nd k))"
proof -
  have wf: "dict_wf d" "\<And>k v. (k, v) \<in> set (dict_pairs d) \<Longrightarrow> k = ucast (kv_key v)"
    using assms(1,2) by (auto simp: nodl_wf_def)
  have new: "dict_map d (ucast (kv_key kv)) = None"
    using assms(5) bano_nodl_find_key_lookup [OF assms(1,2)] by simp
  have key: "kv_key (default_name kv) = kv_key kv" by (simp add: default_name_def)
  obtain d' where add: "bano_dict_add ms d (ucast (kv_key kv)) (default_name kv) = (Ok, ms', d')"
    using assms(6-8) by (auto simp: bano_dict_add_def Let_def)
  have d': "dict_wf d'" "dict_map d' = (dict_map d)(ucast (kv_key kv) \<mapsto> default_name kv)"
    using bano_dict_add_map [OF wf(1) new add] by auto
  have wf': "nodl_wf (nd\<lparr>keyvals := Some d'\<rparr>)"
    using d' wf(2) key unfolding nodl_wf_def
    by (auto simp: dict_map_pairs [OF d'(1), symmetric] dict_map_pairs [OF wf(1), symmetric] split: if_splits)
  have "apply_nodl_struct W x (ms, nd) = Done (False, ms', nd\<lparr>keyvals := Some d'\<rparr>)"
    using assms(2-4) add by (simp add: apply_nodl_struct_def cstr_simps)
  then show ?thesis
    using wf' bano_nodl_find_key_lookup [OF wf', of d'] bano_nodl_find_key_lookup [OF assms(1,2)] d'(2) ucast_key_inj by auto
qed

text \<open>Of the four formats the second chain of tests accepts one.\<close>

lemma nodl_fmt_accepted:
  assumes "pp_key p = ''fmt''"
  shows "fst (apply_nodl_keyval_pair W p kv) \<longleftrightarrow> \<not> prefix (pp_val p) ''uint32''"
proof -
  have k: "bano_string_cmp_cstr ''fmt'' ''name'' = Err" "bano_string_cmp_cstr ''fmt'' ''key'' = Err"
    "bano_string_cmp_cstr ''fmt'' ''fmt'' = Ok" by (simp_all)
  show ?thesis using assms k by (simp add: apply_nodl_keyval_pair_def Let_def cmp_cstr_prefix)
qed

end
