(* ===== verification/Bano_Main.thy ===== *)
theory Bano_Main
  imports Bano_Opened
begin

text \<open>
  \<open>main.c\<close>: the command line base. Its options, the event handlers of its four commands, and the
  program from opening to closing. \<open>printf\<close> and \<open>seteuid\<close> act on the world. The outcome
  \<open>Running\<close> is an event loop that goes on behind the number of iterations given.
\<close>

section \<open>Command line\<close>

definition CMDLINE_FLAG_OP_NAME :: u32 where "CMDLINE_FLAG_OP_NAME = 1"
definition CMDLINE_FLAG_OP_KEY :: u32 where "CMDLINE_FLAG_OP_KEY = 2"
definition CMDLINE_FLAG_OP_VAL :: u32 where "CMDLINE_FLAG_OP_VAL = 4"
definition CMDLINE_FLAG_OP_ACK :: u32 where "CMDLINE_FLAG_OP_ACK = 8"
definition CMDLINE_FLAG_NODE_ADDR :: u32 where "CMDLINE_FLAG_NODE_ADDR = 0x10"

record cmdline_info =
  ci_flags :: u32
  op_name :: "string option"
  op_key :: u32
  op_val :: u32
  node_addr :: u32

definition cmd_str_to_uint32 :: "nat \<Rightarrow> string \<Rightarrow> u32" where
  "cmd_str_to_uint32 W s =
     (let b = (if 2 < length s \<and> s ! 0 = CHR ''0'' \<and> s ! 1 = CHR ''x'' then 16 else 10) in of_nat (strtoul W s b))"

text \<open>One option and its value; unknown options are passed.\<close>

definition cmdline_option :: "nat \<Rightarrow> string \<Rightarrow> string \<Rightarrow> cmdline_info \<Rightarrow> cmdline_info" where
  "cmdline_option W k v ci =
     (let add = (\<lambda>f ci. ci\<lparr>cmdline_info.ci_flags := cmdline_info.ci_flags ci OR f\<rparr>) in
      if k = ''-op_name'' then (add CMDLINE_FLAG_OP_NAME ci)\<lparr>op_name := Some v\<rparr>
      else if k = ''-op_key'' then (add CMDLINE_FLAG_OP_KEY ci)\<lparr>op_key := cmd_str_to_uint32 W v\<rparr>
      else if k = ''-op_val'' then (add CMDLINE_FLAG_OP_VAL ci)\<lparr>op_val := cmd_str_to_uint32 W v\<rparr>
      else if k = ''-op_ack'' then (if v = ''1'' then add CMDLINE_FLAG_OP_ACK ci else ci)
      else if k = ''-node_addr'' then (add CMDLINE_FLAG_NODE_ADDR ci)\<lparr>node_addr := cmd_str_to_uint32 W v\<rparr>
      else ci)"

fun cmdline_options :: "nat \<Rightarrow> string list \<Rightarrow> cmdline_info \<Rightarrow> cmdline_info" where
  "cmdline_options W (k # v # av) ci = cmdline_options W av (cmdline_option W k v ci)"
| "cmdline_options W av ci = ci"

definition get_cmdline_info :: "nat \<Rightarrow> string list \<Rightarrow> cmdline_info option" where
  "get_cmdline_info W av =
     (if odd (length av) then None
      else Some (cmdline_options W av
        \<lparr>ci_flags = 0, op_name = None, op_key = 0, op_val = 0, node_addr = 0\<rparr>))"

section \<open>Handlers\<close>

record 'w main_lib = "'w loop_lib" +
  printf :: "string \<Rightarrow> 'w \<Rightarrow> 'w"
  seteuid_0 :: "'w \<Rightarrow> 'w"
  signal_sigint :: "'w \<Rightarrow> 'w"

definition out :: "'w main_lib \<Rightarrow> string \<Rightarrow> 'w base \<Rightarrow> 'w base" where
  "out lib s b = b\<lparr>world := printf lib s (world b)\<rparr>"

definition eol :: string where "eol = [CHR 0x0A]"

definition on_loop_timer :: "'w main_lib \<Rightarrow> 'w base \<Rightarrow> 'w base" where
  "on_loop_timer lib b = out lib (''on_loop_timer'' @ eol) b"

text \<open>The error set on the operation is lost with it: the caller's copy is not used afterwards.\<close>

definition on_get :: "'w main_lib \<Rightarrow> addr \<Rightarrow> u16 \<Rightarrow> 'w base \<Rightarrow> 'w base" where
  "on_get lib na k b = out lib (''on_get('' @ hex4 k @ '')'' @ eol) b"

definition on_set :: "'w main_lib \<Rightarrow> addr \<Rightarrow> u16 \<Rightarrow> u32 \<Rightarrow> 'w base \<Rightarrow> 'w base" where
  "on_set lib na k val b = out lib (''on_set('' @ hex4 k @ '', '' @ hex8 val @ '')'' @ eol) b"

text \<open>The node is one of the base: without it there would be nothing to print.\<close>

definition on_node_print :: "'w main_lib \<Rightarrow> addr \<Rightarrow> nat \<Rightarrow> 'w base \<Rightarrow> 'w base" where
  "on_node_print lib na reason b =
     (case node_at b na of None \<Rightarrow> b
      | Some nd \<Rightarrow> out lib (''-- node'' @ eol @ ''. reason: '' @ hex8 (of_nat reason) @ eol
          @ ''. addr  : '' @ hex8 (bano_node_get_addr nd) @ eol @ eol) b)"

definition ON_GET_COMPL :: nat where "ON_GET_COMPL = 2"
definition ON_SET_COMPL :: nat where "ON_SET_COMPL = 3"

definition on_get_compl :: "'w main_lib \<Rightarrow> u32 \<Rightarrow> addr \<Rightarrow> 'w base \<Rightarrow> 'w base option" where
  "on_get_compl lib naddr ioa b =
     map_option (\<lambda>io.
       out lib (''on_get_compl: node{'' @ hex8 naddr @ '', '' @ hex4 (get_key (io_msg io)) @ ''} ==''
         @ (if io_compl_err io = BANO_IO_ERR_SUCCESS then '' '' @ hex8 (io_compl_val io)
            else '' error ('' @ hex8 (io_compl_err io) @ '')'') @ eol) b) (io_at b ioa)"

definition on_set_compl :: "'w main_lib \<Rightarrow> addr \<Rightarrow> 'w base \<Rightarrow> 'w base option" where
  "on_set_compl lib ioa b =
     map_option (\<lambda>io.
       out lib (''on_set_compl'' @ eol @ (if io_compl_err io = BANO_IO_ERR_SUCCESS then ''success'' @ eol
         else ''error: '' @ hex8 (io_compl_err io) @ eol)) b) (io_at b ioa)"

text \<open>A get operation that cannot be posted is not freed.\<close>

definition on_node_get :: "'w main_lib \<Rightarrow> u32 \<Rightarrow> u16 \<Rightarrow> addr \<Rightarrow> nat \<Rightarrow> 'w base \<Rightarrow> 'w base" where
  "on_node_get lib naddr k na reason b0 =
     (let b = out lib (''on_node_get'' @ eol) b0 in
      case node_at b na of None \<Rightarrow> b
      | Some nd \<Rightarrow>
        if bano_node_get_addr nd \<noteq> naddr then b
        else if reason \<noteq> BANO_NODE_REASON_NEW then b
        else (case bano_alloc_get_io (io_junk lib) k ON_GET_COMPL 0 b of (ioa, b1) \<Rightarrow>
          if ioa = 0 then b1
          else (case bano_post_io na ioa b1 of None \<Rightarrow> b1 | Some (_, b2) \<Rightarrow> b2)))"

definition on_node_set :: "'w main_lib \<Rightarrow> u32 \<Rightarrow> u16 \<Rightarrow> u32 \<Rightarrow> bool \<Rightarrow> addr \<Rightarrow> nat \<Rightarrow> 'w base \<Rightarrow> 'w base" where
  "on_node_set lib naddr k val is_ack na reason b0 =
     (let b = out lib (''on_node_set'' @ eol) b0 in
      case node_at b na of None \<Rightarrow> b
      | Some nd \<Rightarrow>
        if bano_node_get_addr nd \<noteq> naddr then b
        else if reason \<noteq> BANO_NODE_REASON_NEW then b
        else (case bano_alloc_set_io (io_junk lib) k val is_ack ON_SET_COMPL 0 b of (ioa, b1) \<Rightarrow>
          if ioa = 0 then b1
          else (case bano_post_io na ioa b1 of
              None \<Rightarrow> b1
            | Some (Err, b2) \<Rightarrow> bano_free_io ioa b2
            | Some (Ok, b2) \<Rightarrow> b2)))"

section \<open>The program\<close>

text \<open>The completion functions of the program, with the server's; \<open>ngd\<close> is the address the get command waits for.\<close>

definition with_main :: "'w main_lib \<Rightarrow> u32 \<Rightarrow> 'w base_lib" where
  "with_main lib ngd =
     (let l = with_httpd (base_lib.truncate lib) in
      l\<lparr>compl := \<lambda>fn d a b.
         if fn = ON_GET_COMPL then on_get_compl lib ngd a b
         else if fn = ON_SET_COMPL then on_set_compl lib a b
         else compl l fn d a b\<rparr>)"

text \<open>The handlers of a command, \<open>None\<close> for an unknown one; \<open>timer_ms\<close> keeps what memory held.\<close>

definition main_loop_info :: "'w main_lib \<Rightarrow> cmdline_info \<Rightarrow> 'w loop_info \<Rightarrow> 'w loop_info option" where
  "main_loop_info lib ci junk =
     (let li = bano_init_loop_info junk;
          name = (if cmdline_info.ci_flags ci AND CMDLINE_FLAG_OP_NAME = 0 then ''listen''
                  else case op_name ci of None \<Rightarrow> [] | Some s \<Rightarrow> s)
      in if name = ''list'' then Some (li\<lparr>node_fn := Some (on_node_print lib)\<rparr>)
         else if name = ''set'' then
           Some (li\<lparr>node_fn := Some (on_node_set lib (node_addr ci) (ucast (op_key ci)) (op_val ci)
              (cmdline_info.ci_flags ci AND CMDLINE_FLAG_OP_ACK \<noteq> 0))\<rparr>)
         else if name = ''get'' then
           Some (li\<lparr>timer_fn := Some (on_loop_timer lib), timer_ms := 1000,
              node_fn := Some (on_node_get lib (node_addr ci) (ucast (op_key ci)))\<rparr>)
         else if name = ''listen'' then
           Some (li\<lparr>get_fn := Some (on_get lib), set_fn := Some (on_set lib), node_fn := Some (on_node_print lib)\<rparr>)
         else None)"

definition main_loop_lib :: "'w main_lib \<Rightarrow> u32 \<Rightarrow> 'w loop_lib" where
  "main_loop_lib lib ngd = (loop_lib.truncate lib)\<lparr>compl := compl (with_main lib ngd)\<rparr>"

text \<open>The base is closed after an error and after the loop's end alike.\<close>

definition main ::
  "nat \<Rightarrow> 'w main_lib \<Rightarrow> 'w conf_env \<Rightarrow> base_info \<Rightarrow> 'w loop_info \<Rightarrow> string list \<Rightarrow> 'w station \<Rightarrow> (rc \<times> 'w station) outcome" where
  "main fuel lib env bi_junk li_junk av s0 =
     (let s = s0\<lparr>st_base := set_world (seteuid_0 lib (world (st_base s0))) (st_base s0)\<rparr> in
      case get_cmdline_info (ce_W env) av of
        None \<Rightarrow> Done (Err, s)
      | Some ci \<Rightarrow>
        let s1 = s\<lparr>st_base := set_world (snd (bano_init (signal_sigint lib) (world (st_base s)))) (st_base s)\<rparr>;
            bi = bano_init_base_info bi_junk;
            bi = bi\<lparr>ba_flags := ba_flags bi OR BANO_BASE_FLAG_CONF, ba_conf_path := ''./conf/base.conf''\<rparr>;
            close = (\<lambda>r s. case bano_close env s of None \<Rightarrow> Fault | Some (_, s') \<Rightarrow> Done (r, s'))
        in case bano_open env bi s1 of
            Running \<Rightarrow> Running
          | Fault \<Rightarrow> Fault
          | Done (Err, s2) \<Rightarrow> Done (Err, s2)
          | Done (Ok, s2) \<Rightarrow>
            (case main_loop_info lib ci li_junk of
               None \<Rightarrow> close Err s2
             | Some li \<Rightarrow>
               (case bano_start_loop fuel (main_loop_lib lib (node_addr ci)) li (st_base s2) of
                  None \<Rightarrow> Fault
                | Some (Loop_Continue _ _) \<Rightarrow> Running
                | Some (Loop_Return r b) \<Rightarrow> close r (s2\<lparr>st_base := b\<rparr>))))"

section \<open>The handlers keep the invariant\<close>

lemma out_sel [simp]:
  "nodes_of (out lib s b) = nodes_of b" "node_at (out lib s b) = node_at b" "io_at (out lib s b) = io_at b"
  "base_inv (out lib s b) = base_inv b" "unowned a (out lib s b) = unowned a b" "b_mls (out lib s b) = b_mls b"
proof -
  show "base_inv (out lib s b) = base_inv b" by (rule base_inv_cong) (simp_all add: out_def)
qed (simp_all add: out_def nodes_of_def unowned_def)

lemma on_node_print_inv: "base_inv b \<Longrightarrow> base_inv (on_node_print lib na r b) \<and> nodes_of (on_node_print lib na r b) = nodes_of b"
  by (auto simp: on_node_print_def split: option.splits)

lemma post_new_io_inv:
  assumes "base_inv b" "na \<in> nodes_of b" "a \<noteq> 0" "unowned a b" "bano_post_io na a b = Some (r, b')"
  shows "base_inv b'" "nodes_of b' = nodes_of b" "r = Err \<Longrightarrow> base_inv (bano_free_io a b')"
  using bano_post_io_inv [OF assms(1,2,4,3,5)] base_inv_free_io by auto

lemma on_node_get_inv:
  assumes "base_inv b" "na \<in> nodes_of b"
  shows "base_inv (on_node_get lib naddr k na r b) \<and> nodes_of (on_node_get lib naddr k na r b) = nodes_of b"
proof -
  let ?b = "out lib (''on_node_get'' @ eol) b"
  obtain a b1 where a: "bano_alloc_get_io (io_junk lib) k ON_GET_COMPL 0 ?b = (a, b1)" by fastforce
  note i = alloc_io_inv [OF _ disjI1 [OF a]]
  have post: "base_inv b2 \<and> nodes_of b2 = nodes_of b" if "a \<noteq> 0" "bano_post_io na a b1 = Some (q, b2)" for q b2
    using post_new_io_inv(1,2) [OF i(1) _ that(1) _ that(2)] i(2,3) that(1) assms by simp
  show ?thesis
    using assms i(1,3) post a by (auto simp: on_node_get_def Let_def split: option.splits prod.splits if_splits)
qed

lemma on_node_set_inv:
  assumes "base_inv b" "na \<in> nodes_of b"
  shows "base_inv (on_node_set lib naddr k v ack na r b) \<and> nodes_of (on_node_set lib naddr k v ack na r b) = nodes_of b"
proof -
  let ?b = "out lib (''on_node_set'' @ eol) b"
  obtain a b1 where a: "bano_alloc_set_io (io_junk lib) k v ack ON_SET_COMPL 0 ?b = (a, b1)" by fastforce
  note i = alloc_io_inv [OF _ disjI2 [OF a]]
  have post: "base_inv b2 \<and> nodes_of b2 = nodes_of b \<and> (q = Err \<longrightarrow> base_inv (bano_free_io a b2))"
    if "a \<noteq> 0" "bano_post_io na a b1 = Some (q, b2)" for q b2
    using post_new_io_inv [OF i(1) _ that(1) _ that(2)] i(2,3) that(1) assms by simp
  show ?thesis
    using assms i(1,3) post a by (auto simp: on_node_set_def Let_def split: option.splits prod.splits if_splits rc.splits)
qed

lemmas command_inv = on_node_print_inv [THEN conjunct1] on_node_print_inv [THEN conjunct2]
  on_node_get_inv [THEN conjunct1] on_node_get_inv [THEN conjunct2]
  on_node_set_inv [THEN conjunct1] on_node_set_inv [THEN conjunct2]

lemma main_handlers_ok:
  assumes "main_loop_info lib ci junk = Some li"
  shows "handlers_ok li"
  using assms
  by (auto simp: main_loop_info_def bano_init_loop_info_def handlers_ok_def Let_def on_get_def on_set_def command_inv split: if_splits)

lemma main_compl_ok:
  assumes "compl_ok (base_lib.truncate lib)"
  shows "compl_ok (with_main lib ngd)"
  unfolding compl_ok_def
proof (intro allI impI)
  fix fn d a and b b' :: "'a base"
  assume b: "base_inv b" "unowned a b" "io_at b a \<noteq> None" "compl (with_main lib ngd) fn d a b = Some b'"
  have h: "compl_ok (with_httpd (base_lib.truncate lib))" by (rule with_httpd_compl_ok [OF assms])
  show "base_inv b' \<and> unowned a b'"
  proof (cases "fn = ON_GET_COMPL \<or> fn = ON_SET_COMPL")
    case True
    then have "\<exists>s. b' = out lib s b"
      using b(4) by (auto simp: with_main_def Let_def on_get_compl_def on_set_compl_def ON_GET_COMPL_def ON_SET_COMPL_def)
    with b(1,2) show ?thesis by auto
  next
    case False
    then have "compl (with_httpd (base_lib.truncate lib)) fn d a b = Some b'"
      using b(4) by (simp add: with_main_def Let_def)
    with h b(1-3) show ?thesis unfolding compl_ok_def by blast
  qed
qed

text \<open>The set command posts its operation to the new node it names.\<close>

lemma on_node_set_posts:
  assumes "node_at b na = Some nd" "n_addr nd = naddr" "b_mls b = a # it # ms" "a \<noteq> 0" "it \<noteq> 0" "msg_wf (io_msg (io_junk lib))"
  shows "\<exists>nd' io. node_at (on_node_set lib naddr k v ack na BANO_NODE_REASON_NEW b) na = Some nd'
    \<and> posted_ios nd' = posted_ios nd @ [(it, a)]
    \<and> io_at (on_node_set lib naddr k v ack na BANO_NODE_REASON_NEW b) a = Some io
    \<and> op (io_msg io) = BANO_MSG_OP_SET \<and> set_key (io_msg io) = k \<and> set_val (io_msg io) = v
    \<and> io_node io = na \<and> io_compl_fn io = ON_SET_COMPL \<and> has_flag (io_flags io) BANO_IO_FLAG_REPLY = ack"
  using assms
  by (simp add: on_node_set_def Let_def bano_node_get_addr_def bano_alloc_set_io_def bano_post_io_def seq_add_tail_def
      set_io_def set_node_def bano_init_common_io_def has_flag_def BANO_IO_FLAG_REPLY_def)

section \<open>Options are read back\<close>

lemma cmd_str_to_uint32_hex8: "32 \<le> W \<Longrightarrow> cmd_str_to_uint32 W (hex8 x) = x"
  using str_to_uint32_hex8 [of W x]
  by (simp add: cmd_str_to_uint32_def str_to_uint32_def hex8_def httpd_get_base_def)

lemma cmdline_read_back:
  assumes "32 \<le> W"
  shows "get_cmdline_info W [''-op_name'', n, ''-node_addr'', hex8 a, ''-op_key'', hex8 k, ''-op_val'', hex8 v, ''-op_ack'', ''1'']
    = Some \<lparr>ci_flags = 0x1f, op_name = Some n, op_key = k, op_val = v, node_addr = a\<rparr>"
  using assms
  by (simp add: get_cmdline_info_def cmdline_option_def cmd_str_to_uint32_hex8 CMDLINE_FLAG_OP_NAME_def
      CMDLINE_FLAG_OP_KEY_def CMDLINE_FLAG_OP_VAL_def CMDLINE_FLAG_OP_ACK_def CMDLINE_FLAG_NODE_ADDR_def)

end
