(* ===== verification/Bano_Exchange.thy ===== *)
theory Bano_Exchange
  imports Node_Apps Bano_Main
begin

text \<open>
  The base and a node together: an operation in flight, the bytes of its request on the air, the
  node's handler, the bytes of the answer, and the base that handles them. The models of the two
  programs meet here; nothing of the sources is translated in this theory.
\<close>

lemma cmp_pending_io_addr: "n_addr nd' = n_addr nd \<Longrightarrow> cmp_pending_io m nd' = cmp_pending_io m nd"
  by (rule ext) (simp add: cmp_pending_io_def)

lemma node_of_msg_found:
  assumes "bano_find_node_by_addr b a = Some (Ok, na)"
  shows "na \<noteq> 0" "node_of_msg linfo sa a b = Some (Ok, na, b)"
  using assms by (auto simp: bano_find_node_by_addr_def node_of_msg_def split: if_splits)

text \<open>A reply of a known node goes through the store of its value and the completion of its operation.\<close>

lemma handle_reply:
  assumes "bano_find_node_by_addr b (saddr msg) = Some (Ok, na)" "msg = decrypt_msg (b_cipher b) m"
    and "op msg = BANO_MSG_OP_SET" "has_flag (flags msg) BANO_MSG_FLAG_REPLY"
    and "handle_set_value lib msg na b = Some b1" "complete_reply lib msg na b1 = Some b'"
  shows "handle_bano_msg lib linfo sa m b = Some (Ok, b')"
  using node_of_msg_found [OF assms(1)] assms(3-6)
  unfolding handle_bano_msg_def handle_set_msg_def Let_def assms(2) [symmetric]
  by simp

text \<open>The oldest operation in flight of a node, answered by it.\<close>

lemma oldest_reply_completes:
  assumes inv: "base_inv b" "na \<in> nodes_of b" "node_at b na = Some nd"
    and pend: "pending_ios nd = (it, ioa) # rest" "io_at b ioa = Some io" "cmp_pending_io msg nd io"
    and io: "io_compl_fn io \<noteq> 0" "\<not> has_flag (flags msg) BANO_MSG_FLAG_ERR" "compl_world lib g"
    and tm: "timers_wf (b_timers b) as" "dll (tm_heap (b_timers b)) (tm_list (b_timers b)) as"
      "a \<in> set as" "io_timer io = timer_of (b_timers b) a"
    and keys: "\<And>dl. n_nodl nd = Some dl \<Longrightarrow> \<exists>kv. bano_nodl_find_key dl (set_key msg) = Some (Some kv)"
  shows "\<exists>b1 b' nd'. handle_set_value lib msg na b = Some b1 \<and> complete_reply lib msg na b1 = Some b'
    \<and> world b' = g (io_compl_fn io) (io_compl_data io)
        (io\<lparr>io_compl_err := BANO_IO_ERR_SUCCESS, io_compl_val := set_val msg\<rparr>) (world b1)
    \<and> io_at b' = (io_at b)(ioa := None) \<and> node_at b' na = Some nd' \<and> pending_ios nd' = rest
    \<and> posted_ios nd' = posted_ios nd \<and> timers_wf (b_timers b') (remove1 a as)"
proof -
  obtain b1 nd1 where b1: "handle_set_value lib msg na b = Some b1" "node_at b1 na = Some nd1" "io_at b1 = io_at b"
      "posted_ios nd1 = posted_ios nd" "pending_ios nd1 = pending_ios nd" "n_addr nd1 = n_addr nd" "b_timers b1 = b_timers b"
    using handle_set_value_stores [OF inv io(2) keys, of lib] by auto
  note inv1 = handle_set_value_inv [OF inv(1,2) b1(1)]
  have dist: "it \<notin> fst ` set rest"
    using base_wf_node [of b na nd] inv pend(1) by (auto simp: base_inv_def base_node_ok_def node_wf_def)
  have "find (\<lambda>x. cmp_pending_io msg nd1 (the (io_at b1 (snd x)))) (pending_ios nd1) = Some (it, ioa)"
    using pend b1(3,5) cmp_pending_io_addr [OF b1(6), of msg] by simp
  from complete_reply_completes [OF inv1(1) _ b1(2) this _ io(1,2,3), of as a] pend(2) tm inv(2) b1(3,7) inv1(2)
  obtain b' where "complete_reply lib msg na b1 = Some b'"
      "world b' = g (io_compl_fn io) (io_compl_data io)
        (io\<lparr>io_compl_err := BANO_IO_ERR_SUCCESS, io_compl_val := set_val msg\<rparr>) (world b1)"
      "io_at b' = (io_at b)(ioa := None)" "node_at b' na = Some (nd1\<lparr>pending_ios := seq_del it (pending_ios nd1)\<rparr>)"
      "timers_wf (b_timers b') (remove1 a as)"
    by auto
  moreover have "seq_del it (pending_ios nd1) = rest"
    using pend(1) b1(5) dist by simp
  ultimately show ?thesis using b1(1,4) by auto
qed

text \<open>
  The whole exchange. The answer the node puts on the air is found by the base as the answer to
  the oldest operation in flight; its completion runs once, with the value the node set or read.
\<close>

lemma answer_completes_request:
  assumes cl: "xtea_lib_ok cl" "same_cipher cfg (b_cipher b) nd" "msg_wf (io_msg io)"
    and ask: "op (io_msg io) = BANO_MSG_OP_SET \<or> op (io_msg io) = BANO_MSG_OP_GET"
    and fl: "op (io_msg io) = BANO_MSG_OP_SET \<Longrightarrow> has_flag (handler_flags hs (io_msg io) u) (ucast BANO_MSG_FLAG_REPLY)"
      "cfg_alg cfg = BANO_CIPHER_ALG_NONE \<Longrightarrow> \<not> has_flag (handler_flags hs (io_msg io) u) (ucast BANO_MSG_FLAG_ENC)"
      "\<not> has_flag (handler_flags hs (io_msg io) u) (ucast BANO_MSG_FLAG_ERR)"
    and inv: "base_inv b" "na \<in> nodes_of b" "node_at b na = Some nd" "bano_find_node_by_addr b (n_addr nd) = Some (Ok, na)"
    and pend: "pending_ios nd = (it, ioa) # rest" "io_at b ioa = Some io" "io_compl_fn io \<noteq> 0" "compl_world lib g"
    and tm: "timers_wf (b_timers b) as" "dll (tm_heap (b_timers b)) (tm_list (b_timers b)) as"
      "a \<in> set as" "io_timer io = timer_of (b_timers b) a"
    and keys: "\<And>dl. n_nodl nd = Some dl \<Longrightarrow> \<exists>kv. bano_nodl_find_key dl (get_key (io_msg io)) = Some (Some kv)"
  shows "\<exists>u' m' bs b' w nd'. handle_event_msg cl cfg hs (receive_msg cl cfg (posted_bytes (b_cipher b) nd (io_msg io))) u = (u', m', [bs])
    \<and> handle_bano_msg lib linfo sa (bytes_msg bs) b = Some (Ok, b')
    \<and> world b' = g (io_compl_fn io) (io_compl_data io)
        (io\<lparr>io_compl_err := BANO_IO_ERR_SUCCESS,
            io_compl_val := (if op (io_msg io) = BANO_MSG_OP_SET then set_val (io_msg io)
              else fst (snd (bano_get_handler hs (get_key (io_msg io)) u)))\<rparr>) w
    \<and> io_at b' = (io_at b)(ioa := None) \<and> node_at b' na = Some nd' \<and> pending_ios nd' = rest
    \<and> timers_wf (b_timers b') (remove1 a as)"
proof -
  from node_answers_request [OF cl ask fl(1,2)] fl(3) obtain u' m' bs ans where n:
    "handle_event_msg cl cfg hs (receive_msg cl cfg (posted_bytes (b_cipher b) nd (io_msg io))) u = (u', m', [bs])"
    "ans = decrypt_msg (b_cipher b) (bytes_msg bs)" "cmp_pending_io ans nd io" "op ans = BANO_MSG_OP_SET"
    "has_flag (flags ans) BANO_MSG_FLAG_REPLY" "\<not> has_flag (flags ans) BANO_MSG_FLAG_ERR"
    "set_val ans = (if op (io_msg io) = BANO_MSG_OP_SET then set_val (io_msg io)
        else fst (snd (bano_get_handler hs (get_key (io_msg io)) u)))"
    by blast
  have k: "saddr ans = n_addr nd" "set_key ans = get_key (io_msg io)"
    using n(3) by (auto simp: cmp_pending_io_def set_key_def get_key_def split: if_splits)
  have keys': "\<And>dl. n_nodl nd = Some dl \<Longrightarrow> \<exists>kv. bano_nodl_find_key dl (set_key ans) = Some (Some kv)"
    using keys k(2) by simp
  from oldest_reply_completes [OF inv(1-3) pend(1,2) n(3) pend(3) n(6) pend(4) tm keys'] obtain b1 b' nd' where r:
    "handle_set_value lib ans na b = Some b1" "complete_reply lib ans na b1 = Some b'"
    "world b' = g (io_compl_fn io) (io_compl_data io)
        (io\<lparr>io_compl_err := BANO_IO_ERR_SUCCESS, io_compl_val := set_val ans\<rparr>) (world b1)"
    "io_at b' = (io_at b)(ioa := None)" "node_at b' na = Some nd'" "pending_ios nd' = rest"
    "timers_wf (b_timers b') (remove1 a as)" by blast
  have "handle_bano_msg lib linfo sa (bytes_msg bs) b = Some (Ok, b')"
    using handle_reply [OF _ n(2,4,5) r(1,2)] inv(4) k(1) by simp
  with n(1) show ?thesis
    using r(3-7) unfolding n(7) by (intro exI conjI) assumption+
qed

text \<open>
  A message a node sends of its own: it reaches the store of the base with the key and the value
  the application gave, through both ciphers and the bytes on the air, and the handler of the
  base's user is called with them.
\<close>

lemma report_is_stored:
  assumes cl: "xtea_lib_ok cl" "same_cipher cfg (b_cipher b) nd" "msg_wf junk"
    and inv: "base_inv b" "na \<in> nodes_of b" "node_at b na = Some nd" "bano_find_node_by_addr b (n_addr nd) = Some (Ok, na)"
    and keys: "\<And>dl. n_nodl nd = Some dl \<Longrightarrow> \<exists>kv. bano_nodl_find_key dl k = Some (Some kv)"
  shows "\<exists>b1 nd'. handle_bano_msg lib linfo sa (bytes_msg (bano_send_set cl cfg junk k v)) b
      = Some (Ok, case set_fn linfo of None \<Rightarrow> b1 | Some f \<Rightarrow> f na k v b1)
    \<and> node_at b1 = (node_at b)(na \<mapsto> nd') \<and> io_at b1 = io_at b
    \<and> posted_ios nd' = posted_ios nd \<and> pending_ios nd' = pending_ios nd \<and> n_addr nd' = n_addr nd \<and> b_timers b1 = b_timers b
    \<and> (node_values nd' = (node_values nd)(ucast k \<mapsto> \<lparr>nv_val = v, nv_mtime = gettime lib (world b)\<rparr>)
       \<or> node_values nd (ucast k) = None \<and> nd' = nd \<and> \<not> (\<exists>p i ms. b_mls b = p # i # ms \<and> p \<noteq> 0 \<and> i \<noteq> 0))"
proof -
  let ?m = "make_set_msg k v junk"
  have m: "msg_wf ?m" "set_key ?m = k" "set_val ?m = v" "op ?m = BANO_MSG_OP_SET" "flags ?m = 0"
    using cl(3) by (simp_all add: make_set_msg_def)
  have ad: "n_addr nd = cfg_addr cfg" using cl(2) by (simp add: same_cipher_def)
  obtain f where d: "decrypt_msg (b_cipher b) (bytes_msg (bano_send_set cl cfg junk k v)) = ?m\<lparr>saddr := cfg_addr cfg, flags := f\<rparr>"
      "\<And>g. BANO_MSG_FLAG_ENC AND g = 0 \<Longrightarrow> \<not> has_flag f g"
    using base_decrypts_sent [OF cl(1,2) m(1)] m(5) by (auto simp: bano_send_set_def has_flag_def)
  define msg where "msg = ?m\<lparr>saddr := cfg_addr cfg, flags := f\<rparr>"
  have fl: "\<not> has_flag (flags msg) BANO_MSG_FLAG_ERR" "\<not> has_flag (flags msg) BANO_MSG_FLAG_REPLY"
    using d(2) reply_enc_disjoint by (simp_all add: msg_def)
  have k: "set_key msg = k" "set_val msg = v" "op msg = BANO_MSG_OP_SET" "saddr msg = n_addr nd"
    using m ad by (simp_all add: msg_def)
  from handle_set_value_stores [OF inv(1-3) fl(1), of lib] keys k
  obtain b1 nd' where b1: "handle_set_value lib msg na b = Some b1" "node_at b1 = (node_at b)(na \<mapsto> nd')" "io_at b1 = io_at b"
      "posted_ios nd' = posted_ios nd" "pending_ios nd' = pending_ios nd" "n_addr nd' = n_addr nd" "b_timers b1 = b_timers b"
      "node_values nd' = (node_values nd)(ucast k \<mapsto> \<lparr>nv_val = v, nv_mtime = gettime lib (world b)\<rparr>)
       \<or> node_values nd (ucast k) = None \<and> nd' = nd \<and> \<not> (\<exists>p i ms. b_mls b = p # i # ms \<and> p \<noteq> 0 \<and> i \<noteq> 0)"
    by auto
  have na: "na \<noteq> 0" "node_of_msg linfo sa (saddr msg) b = Some (Ok, na, b)"
    using node_of_msg_found [OF inv(4)] k(4) by simp_all
  have "handle_bano_msg lib linfo sa (bytes_msg (bano_send_set cl cfg junk k v)) b
      = Some (Ok, case set_fn linfo of None \<Rightarrow> b1 | Some f \<Rightarrow> f na k v b1)"
    using na k b1(1) fl(2) d(1) [folded msg_def]
    by (auto simp: handle_bano_msg_def handle_set_msg_def Let_def split: option.splits)
  with b1(2-8) show ?thesis by (intro exI conjI)
qed

end
