(* ===== verification/Bano_Example.thy ===== *)
theory Bano_Example
  imports Bano_Loop
begin

text \<open>
  One small base station, used to evaluate the theorems at a concrete input: one radio socket,
  one known node with an acknowledged operation in flight and its timer, and libraries that
  accept every call. The world records the values completions and text messages deliver.
\<close>

definition ex_io :: io where
  "ex_io = \<lparr>io_node = 2, io_flags = BANO_IO_FLAG_REPLY, io_timer = 30, io_retry_ms = BANO_RETRY_MS,
     io_retry_count = 3, io_compl_err = 0, io_compl_val = 0, io_compl_fn = 7, io_compl_data = 0,
     io_msg = put_key 5 \<lparr>op = BANO_MSG_OP_GET, flags = 0, saddr = 0, csum = 0, token = 0, body = replicate 6 0\<rparr>\<rparr>"

definition ex_lib :: "u32 list base_lib" where
  "ex_lib = \<lparr>snrf_open_with_path = \<lambda>h p w. (Ok, w), snrf_set_keyval = \<lambda>h k v w. (Ok, w),
     snrf_read_msg = \<lambda>h w. (Inl (- 1), w), snrf_get_pending_msg = \<lambda>h w. (None, w),
     snrf_write_payload = \<lambda>h bs w. (Ok, w), snrf_sync = \<lambda>h w. w, snrf_close = \<lambda>h w. (Ok, w),
     snrf_get_fd = \<lambda>h. 6, SNRF_KEY_STATE = 0, SNRF_KEY_CRC = 1, SNRF_KEY_TX_ACK = 2,
     SNRF_KEY_ADDR_WIDTH = 3, SNRF_KEY_RX_ADDR = 4, SNRF_KEY_TX_ADDR = 5, SNRF_KEY_PAYLOAD_WIDTH = 6,
     SNRF_STATE_CONF = 0, SNRF_STATE_TXRX = 1, SNRF_CRC_DISABLED = 0, SNRF_TX_ACK_DISABLED = 0,
     pipe_read = \<lambda>fd w. (None, w),
     gettime = \<lambda>w. 1000, gettime_usec = \<lambda>w. 0, sms_send_uint32 = \<lambda>v w. (Ok, v # w),
     cam_capture = \<lambda>w. (Ok, w), files = \<lambda>p. Some ''css'',
     mg_send_header = \<lambda>c n v w. w, mg_send_data = \<lambda>c d w. w, compl_signal = \<lambda>c r w. w,
     io_junk = ex_io,
     compl = \<lambda>fn d a b. Some (b\<lparr>world := io_compl_val (the (io_at b a)) # world b\<rparr>)\<rparr>"

definition ex_lib_down :: "u32 list base_lib" where
  "ex_lib_down = ex_lib\<lparr>snrf_write_payload := \<lambda>h bs w. (Err, w)\<rparr>"

definition ex_linfo :: "u32 list loop_info" where
  "ex_linfo = \<lparr>set_fn = None, get_fn = None, node_fn = None, timer_fn = None, timer_ms = 1000\<rparr>"

definition ex_socket :: socket where
  "ex_socket = \<lparr>s_type = BANO_SOCKET_TYPE_SNRF, read_fn = SNRF, peek_fn = SNRF, write_fn = SNRF,
     ctl_fn = SNRF, close_fn = SNRF, get_fd_fn = SNRF, s_data = 8\<rparr>"

definition ex_dict :: "'v dict" where
  "ex_dict = \<lparr>lists = replicate 8 [], log2_nlist = 3, val_size = 16\<rparr>"

definition ex_node :: node where
  "ex_node = \<lparr>n_flags = 0, n_addr = 0xa1, n_name = [], n_socket = 3, n_nodl = None,
     posted_ios = [], pending_ios = [(10, 20)], keyval_pairs = Some ex_dict\<rparr>"

definition ex_timers :: timers where
  "ex_timers = \<lparr>tm_list = \<lparr>l_head = 40, l_tail = 40\<rparr>,
     tm_heap = (\<lambda>a. if a = 40 then Some \<lparr>it_data = 30, it_next = 0, it_prev = 0\<rparr> else None),
     tm_store = (\<lambda>a. if a = 30 then Some \<lparr>rel_ms = 1700, t_item = 40, t_data = (2, 10)\<rparr> else None)\<rparr>"

definition ex_base :: "u32 list base" where
  "ex_base = \<lparr>b_flags = BANO_BASE_FLAG_NEW_NODES, b_nodes = [(1, 2)], b_sockets = [(4, 3)], b_timers = ex_timers,
     b_nodls = None, b_cipher = \<lparr>alg = BANO_CIPHER_ALG_XTEA, key = replicate 16 7\<rparr>, b_addr = 0x5a,
     is_httpd = False, is_cam = False, is_sms = False,
     node_at = (\<lambda>a. if a = 2 then Some ex_node else None),
     socket_at = (\<lambda>a. if a = 3 then Some ex_socket else None),
     io_at = (\<lambda>a. if a = 20 then Some ex_io else None),
     pipes = (\<lambda>a. 0), hod_at = (\<lambda>a. None), b_mls = [50, 51, 52, 53, 54, 55], world = []\<rparr>"

text \<open>The same station with the operation still to be written.\<close>

definition ex_posted :: node where
  "ex_posted = ex_node\<lparr>posted_ios := [(10, 20)], pending_ios := []\<rparr>"

definition ex_base_posted :: "u32 list base" where
  "ex_base_posted = ex_base\<lparr>node_at := (\<lambda>a. if a = 2 then Some ex_posted else None), 
     b_timers := bano_timer_init (\<lambda>_. None) (\<lambda>_. None)\<rparr>"

text \<open>The reply to the operation in flight.\<close>

definition ex_reply :: bano_msg where
  "ex_reply = put_val 9 (put_key 5 \<lparr>op = BANO_MSG_OP_SET, flags = BANO_MSG_FLAG_REPLY, saddr = 0xa1,
     csum = 0, token = 0, body = replicate 6 0\<rparr>)"

lemmas ex_defs = ex_io_def ex_lib_def ex_lib_down_def ex_linfo_def ex_socket_def ex_node_def
  ex_timers_def ex_base_def ex_posted_def ex_base_posted_def ex_reply_def

lemma ex_dict_wf: "dict_wf ex_dict"
  by (simp add: dict_wf_def ex_dict_def nth_append)

lemma ex_dict_empty: "find_pair ex_dict k = None"
  by (simp add: find_pair_None dict_map_def ex_dict_def nth_append bucket_def get_hash_def hash_bound [of 3, simplified])

lemma ex_base_inv: "base_inv ex_base" "base_inv ex_base_posted"
  by (simp_all add: base_inv_def base_wf_def mls_fresh_def nodes_of_def used_def node_items_def node_ios_def
      base_node_ok_def node_wf_def ex_dict_wf ex_defs)

lemma ex_compl_ok: "compl_world ex_lib (\<lambda>fn d io w. io_compl_val io # w)"
  by (simp add: compl_world_def ex_lib_def)

lemma ex_handlers_ok: "handlers_ok ex_linfo"
  by (simp add: handlers_ok_def ex_linfo_def)

lemma ex_timers_wf: "timers_wf ex_timers [40]" "dll (tm_heap ex_timers) (tm_list ex_timers) [40]"
  by (simp_all add: timers_wf_def fll_def dll_def timer_of_def last_or_def ex_timers_def)

lemma msg_wf_body: "msg_wf \<lparr>op = o', flags = f, saddr = s, csum = c, token = t, body = bs\<rparr> \<longleftrightarrow> length bs = 6"
  by (simp add: msg_wf_def)

lemma ex_msg_wf: "msg_wf ex_reply" "msg_wf (io_msg ex_io)"
  by (simp_all add: ex_reply_def ex_io_def msg_wf_body)

lemma ex_msg_keys: "set_key ex_reply = 5" "set_val ex_reply = 9" "get_key ex_reply = 5" "get_key (io_msg ex_io) = 5"
  "flags ex_reply = BANO_MSG_FLAG_REPLY" "op ex_reply = BANO_MSG_OP_SET" "saddr ex_reply = 0xa1"
  "op (io_msg ex_io) = BANO_MSG_OP_GET"
  by (simp_all add: ex_reply_def ex_io_def msg_wf_body)

end
