(* ===== verification/Bano_Server.thy ===== *)
theory Bano_Server
  imports Bano_Httpd
begin

text \<open>
  The two threads of a base with a web server (\<open>bano_httpd.c\<close>): the server's thread, which polls
  \<open>mongoose\<close> and hands a request to the event loop through a pipe, and the thread of the event loop,
  which completes the request and, at the end, stops the server. They share a mutex, a condition
  variable, the variable \<open>compl_err\<close> on the stack of \<open>on_event\<close> and the flag \<open>is_done\<close>. What the event
  loop does with a message in between is left open: it may complete it at once, keep it, complete
  it later, or lose it with the operations of a freed node.
\<close>

section \<open>The state of the two threads\<close>

datatype thread = Server_Thread | Loop_Thread

text \<open>Where the server's thread is; after a wake up it takes the mutex again, as before the first test.\<close>

datatype server_pc = Poll_Test | In_Poll | Lock_Mutex | Test_Compl | Cond_Wait | Leaving | Exited

text \<open>A message, and the call of \<open>on_event\<close> whose variable its pointer \<open>compl_err\<close> addresses.\<close>

type_synonym request = "httpd_msg \<times> nat"

text \<open>Where the event loop is. In \<open>Dangling\<close> it has written through the pointer of a call that returned.\<close>

datatype loop_pc = Looping | Sending request | Want_Lock request | Set_Err request | Signalling | Unlocking
  | Fini_Start | Fini_Poll | Closed | Dangling

text \<open>
  \<open>sv_compl\<close> is \<open>compl_err\<close>, \<open>None\<close> the invalid value; \<open>sv_frame\<close> is the running call of \<open>on_event\<close>, by
  its number; \<open>sv_replies\<close> are the connections that were answered.
\<close>

record server =
  sv_pc :: server_pc
  lp_pc :: loop_pc
  sv_lock :: "thread option"
  sv_compl :: "rc option"
  sv_frame :: "nat option"
  sv_calls :: nat
  sv_pipe :: "request list"
  sv_kept :: "request list"
  sv_done :: bool
  sv_replies :: "nat list"

text \<open>What \<open>mg_poll_server\<close> does next: it returns, or it has a request for the image or another one.\<close>

datatype poll_event = Poll_Returns | Get_Image nat | Get_Page "string \<Rightarrow> string" nat bool

section \<open>The steps\<close>

text \<open>The server's thread: \<open>None\<close> when it is blocked or has ended.\<close>

definition server_step :: "nat \<Rightarrow> poll_event \<Rightarrow> server \<Rightarrow> server option" where
  "server_step W ev s =
     (case sv_pc s of
        Poll_Test \<Rightarrow> Some (s\<lparr>sv_pc := if sv_done s then Leaving else In_Poll\<rparr>)
      | In_Poll \<Rightarrow>
        (case ev of
           Poll_Returns \<Rightarrow> Some (s\<lparr>sv_pc := Poll_Test\<rparr>)
         | Get_Image c \<Rightarrow> Some (s\<lparr>sv_replies := sv_replies s @ [c]\<rparr>)
         | Get_Page var c written \<Rightarrow>
             Some (if written
                   then s\<lparr>sv_compl := None, sv_frame := Some (sv_calls s), sv_calls := sv_calls s + 1,
                     sv_pipe := sv_pipe s @ [(decode_request W var c, sv_calls s)], sv_pc := Lock_Mutex\<rparr>
                   else s\<lparr>sv_replies := sv_replies s @ [c]\<rparr>))
      | Lock_Mutex \<Rightarrow> if sv_lock s = None then Some (s\<lparr>sv_lock := Some Server_Thread, sv_pc := Test_Compl\<rparr>) else None
      | Test_Compl \<Rightarrow>
          Some (if sv_compl s = None then s\<lparr>sv_lock := None, sv_pc := Cond_Wait\<rparr>
                else s\<lparr>sv_lock := None, sv_frame := None, sv_pc := In_Poll\<rparr>)
      | Cond_Wait \<Rightarrow> None
      | Leaving \<Rightarrow> Some (s\<lparr>sv_done := False, sv_pc := Exited\<rparr>)
      | Exited \<Rightarrow> None)"

text \<open>\<open>bano_httpd_complete_msg\<close>, from the data it sends to the mutex it releases.\<close>

definition complete_step :: "server \<Rightarrow> server option" where
  "complete_step s =
     (case lp_pc s of
        Sending m \<Rightarrow> Some (s\<lparr>sv_replies := sv_replies s @ [hm_conn (fst m)], lp_pc := Want_Lock m\<rparr>)
      | Want_Lock m \<Rightarrow> if sv_lock s = None then Some (s\<lparr>sv_lock := Some Loop_Thread, lp_pc := Set_Err m\<rparr>) else None
      | Set_Err m \<Rightarrow>
          Some (if sv_frame s = Some (snd m) then s\<lparr>sv_compl := Some Ok, lp_pc := Signalling\<rparr>
                else s\<lparr>lp_pc := Dangling\<rparr>)
      | Signalling \<Rightarrow>
          Some (s\<lparr>sv_pc := if sv_pc s = Cond_Wait then Lock_Mutex else sv_pc s, lp_pc := Unlocking\<rparr>)
      | Unlocking \<Rightarrow> Some (s\<lparr>sv_lock := None, lp_pc := Looping\<rparr>)
      | _ \<Rightarrow> None)"

text \<open>
  \<open>bano_httpd_fini\<close>: the flag, and the wait for the thread to take it back. The wake up of the poll
  is a \<open>Poll_Returns\<close> of the server's thread, which may come at any time.
\<close>

definition fini_step :: "server \<Rightarrow> server option" where
  "fini_step s =
     (case lp_pc s of
        Fini_Start \<Rightarrow> Some (s\<lparr>sv_done := True, lp_pc := Fini_Poll\<rparr>)
      | Fini_Poll \<Rightarrow> Some (if sv_done s then s else s\<lparr>lp_pc := Closed\<rparr>)
      | _ \<Rightarrow> None)"

inductive threads_step :: "nat \<Rightarrow> server \<Rightarrow> server \<Rightarrow> bool" for W where
  server: "server_step W ev s = Some s' \<Longrightarrow> threads_step W s s'"
| complete: "complete_step s = Some s' \<Longrightarrow> threads_step W s s'"
| fini: "fini_step s = Some s' \<Longrightarrow> threads_step W s s'"
| spurious: "sv_pc s = Cond_Wait \<Longrightarrow> threads_step W s (s\<lparr>sv_pc := Lock_Mutex\<rparr>)"
| read_done: "lp_pc s = Looping \<Longrightarrow> sv_pipe s = m # ms \<Longrightarrow> threads_step W s (s\<lparr>sv_pipe := ms, lp_pc := Sending m\<rparr>)"
| read_keep: "lp_pc s = Looping \<Longrightarrow> sv_pipe s = m # ms \<Longrightarrow> threads_step W s (s\<lparr>sv_pipe := ms, sv_kept := sv_kept s @ [m]\<rparr>)"
| io_done: "lp_pc s = Looping \<Longrightarrow> m \<in> set (sv_kept s) \<Longrightarrow> threads_step W s (s\<lparr>sv_kept := remove1 m (sv_kept s), lp_pc := Sending m\<rparr>)"
| io_lost: "lp_pc s = Looping \<Longrightarrow> threads_step W s (s\<lparr>sv_kept := []\<rparr>)"
| loop_ends: "lp_pc s = Looping \<Longrightarrow> threads_step W s (s\<lparr>lp_pc := Fini_Start\<rparr>)"

definition server_started :: server where
  "server_started = \<lparr>sv_pc = Poll_Test, lp_pc = Looping, sv_lock = None, sv_compl = None, sv_frame = None, sv_calls = 0,
     sv_pipe = [], sv_kept = [], sv_done = False, sv_replies = []\<rparr>"

inductive threads_reach :: "nat \<Rightarrow> server \<Rightarrow> bool" for W where
  started: "threads_reach W server_started"
| step: "threads_reach W s \<Longrightarrow> threads_step W s s' \<Longrightarrow> threads_reach W s'"

inductive_cases threads_stepE: "threads_step W s s'"

section \<open>The invariant\<close>

text \<open>The message the event loop holds in its hands.\<close>

fun held :: "loop_pc \<Rightarrow> request list" where
  "held (Sending m) = [m]"
| "held (Want_Lock m) = [m]"
| "held (Set_Err m) = [m]"
| "held _ = []"

definition outstanding :: "server \<Rightarrow> request list" where
  "outstanding s = sv_pipe s @ sv_kept s @ held (lp_pc s)"

definition waiting :: "server \<Rightarrow> bool" where
  "waiting s \<longleftrightarrow> sv_pc s \<in> {Lock_Mutex, Test_Compl, Cond_Wait}"

text \<open>
  The mutex is held by the thread that is in its critical section. There is one outstanding message at
  most, it points into the running call and has not been completed. A thread that sleeps although
  its request is completed is about to be woken. The flag tells how far the shutdown is.
\<close>

definition locks_ok :: "server \<Rightarrow> bool" where
  "locks_ok s \<longleftrightarrow> (sv_lock s = Some Server_Thread \<longleftrightarrow> sv_pc s = Test_Compl)
     \<and> (sv_lock s = Some Loop_Thread \<longleftrightarrow> (\<exists>m. lp_pc s = Set_Err m) \<or> lp_pc s \<in> {Signalling, Unlocking})"

definition frames_ok :: "server \<Rightarrow> bool" where
  "frames_ok s \<longleftrightarrow> length (outstanding s) \<le> 1
     \<and> list_all (\<lambda>m. sv_frame s = Some (snd m)) (outstanding s)
     \<and> (outstanding s \<noteq> [] \<longrightarrow> sv_compl s = None \<and> waiting s)
     \<and> (sv_frame s = None \<longleftrightarrow> \<not> waiting s)
     \<and> (sv_pc s = Cond_Wait \<and> sv_compl s \<noteq> None \<longrightarrow> lp_pc s = Signalling)
     \<and> lp_pc s \<noteq> Dangling"

definition shutdown_ok :: "server \<Rightarrow> bool" where
  "shutdown_ok s \<longleftrightarrow> (sv_done s \<longrightarrow> lp_pc s = Fini_Poll)
     \<and> (sv_pc s = Leaving \<longrightarrow> sv_done s)
     \<and> (sv_pc s = Exited \<longrightarrow> lp_pc s \<in> {Fini_Poll, Closed} \<and> \<not> sv_done s)
     \<and> (lp_pc s = Fini_Poll \<and> \<not> sv_done s \<longrightarrow> sv_pc s = Exited)
     \<and> (lp_pc s = Closed \<longrightarrow> sv_pc s = Exited)"

lemmas threads_defs = locks_ok_def frames_ok_def shutdown_ok_def outstanding_def waiting_def

text \<open>A step that leaves the messages and the call alone.\<close>

lemma frames_ok_same:
  assumes "frames_ok s" "outstanding s' = outstanding s" "sv_frame s' = sv_frame s" "sv_compl s' = sv_compl s"
    and "waiting s' = waiting s" "sv_pc s' = Cond_Wait \<Longrightarrow> sv_compl s \<noteq> None \<Longrightarrow> lp_pc s' = Signalling"
    and "lp_pc s' \<noteq> Dangling"
  shows "frames_ok s'"
  using assms(1,6,7) unfolding frames_ok_def assms(2-5) by blast

lemma server_step_locks:
  assumes "server_step W ev s = Some s'" "locks_ok s"
  shows "locks_ok s'"
  using assms by (cases "sv_pc s"; cases ev) (auto simp: server_step_def locks_ok_def split: if_splits)

lemma server_step_frames:
  assumes "server_step W ev s = Some s'" "locks_ok s" "frames_ok s" "shutdown_ok s"
  shows "frames_ok s'"
proof (cases "sv_pc s")
  case In_Poll
  then have "outstanding s = []"
    using assms(3) by (cases "outstanding s") (auto simp: frames_ok_def waiting_def)
  with In_Poll assms(1,3) show ?thesis
    by (cases ev) (auto simp: server_step_def frames_ok_def waiting_def outstanding_def split: if_splits)
next
  case Test_Compl
  show ?thesis
  proof (cases "sv_compl s")
    case None
    with Test_Compl assms(1,3) show ?thesis
      by (auto simp: server_step_def frames_ok_def waiting_def outstanding_def)
  next
    case (Some e)
    then have "outstanding s = []"
      using assms(3) by (cases "outstanding s") (auto simp: frames_ok_def)
    with Test_Compl Some assms(1,3) show ?thesis
      by (auto simp: server_step_def frames_ok_def waiting_def outstanding_def)
  qed
next
  case Lock_Mutex
  with assms(1,3) show ?thesis
    by (auto simp: server_step_def frames_ok_def waiting_def outstanding_def split: if_splits)
qed (use assms in \<open>auto simp: server_step_def frames_ok_def waiting_def outstanding_def split: if_splits\<close>)

lemma server_step_shutdown:
  assumes "server_step W ev s = Some s'" "shutdown_ok s"
  shows "shutdown_ok s'"
  using assms by (cases "sv_pc s"; cases ev) (auto simp: server_step_def shutdown_ok_def split: if_splits)

lemma held_points_to_call: "frames_ok s \<Longrightarrow> lp_pc s = Set_Err m \<Longrightarrow> sv_frame s = Some (snd m)"
  by (simp add: frames_ok_def outstanding_def)

lemma complete_step_locks:
  assumes "complete_step s = Some s'" "locks_ok s" "frames_ok s"
  shows "locks_ok s'"
  using assms(1,2) held_points_to_call [OF assms(3)]
  by (cases "lp_pc s") (auto simp: complete_step_def locks_ok_def split: if_splits)

lemma asleep_completed: "frames_ok s \<Longrightarrow> sv_pc s = Cond_Wait \<Longrightarrow> sv_compl s \<noteq> None \<Longrightarrow> lp_pc s = Signalling"
  by (simp add: frames_ok_def)

lemma complete_step_frames:
  assumes "complete_step s = Some s'" "frames_ok s"
  shows "frames_ok s'"
proof (cases "lp_pc s")
  case (Sending m)
  then have s': "s' = s\<lparr>sv_replies := sv_replies s @ [hm_conn (fst m)], lp_pc := Want_Lock m\<rparr>"
    using assms(1) by (simp add: complete_step_def)
  show ?thesis unfolding s' using asleep_completed [OF assms(2)] Sending
    by (intro frames_ok_same [OF assms(2)]) (simp_all add: outstanding_def waiting_def)
next
  case (Want_Lock m)
  then have s': "s' = s\<lparr>sv_lock := Some Loop_Thread, lp_pc := Set_Err m\<rparr>"
    using assms(1) by (simp add: complete_step_def split: if_splits)
  show ?thesis unfolding s' using asleep_completed [OF assms(2)] Want_Lock
    by (intro frames_ok_same [OF assms(2)]) (simp_all add: outstanding_def waiting_def)
next
  case (Set_Err m)
  then have "outstanding s = sv_pipe s @ sv_kept s @ [m]" by (simp add: outstanding_def)
  with assms(2) have o: "sv_pipe s = []" "sv_kept s = []" "waiting s" by (simp_all add: frames_ok_def)
  have "s' = s\<lparr>sv_compl := Some Ok, lp_pc := Signalling\<rparr>"
    using assms(1) Set_Err held_points_to_call [OF assms(2)] by (simp add: complete_step_def)
  with o assms(2) show ?thesis by (simp add: frames_ok_def waiting_def outstanding_def)
next
  case Signalling
  then have s': "s' = s\<lparr>sv_pc := if sv_pc s = Cond_Wait then Lock_Mutex else sv_pc s, lp_pc := Unlocking\<rparr>"
    using assms(1) by (simp add: complete_step_def)
  show ?thesis unfolding s' using Signalling
    by (intro frames_ok_same [OF assms(2)]) (simp_all add: outstanding_def waiting_def split: if_splits)
next
  case Unlocking
  then have s': "s' = s\<lparr>sv_lock := None, lp_pc := Looping\<rparr>"
    using assms(1) by (simp add: complete_step_def)
  show ?thesis unfolding s' using asleep_completed [OF assms(2)] Unlocking
    by (intro frames_ok_same [OF assms(2)]) (simp_all add: outstanding_def waiting_def)
qed (use assms(1) in \<open>simp_all add: complete_step_def\<close>)

lemma complete_step_shutdown:
  assumes "complete_step s = Some s'" "shutdown_ok s"
  shows "shutdown_ok s'"
  using assms by (cases "lp_pc s") (auto simp: complete_step_def shutdown_ok_def split: if_splits)

lemma fini_step_inv:
  assumes "fini_step s = Some s'" "locks_ok s" "frames_ok s" "shutdown_ok s"
  shows "locks_ok s' \<and> frames_ok s' \<and> shutdown_ok s'"
proof (cases "lp_pc s")
  case Fini_Start
  then have s': "s' = s\<lparr>sv_done := True, lp_pc := Fini_Poll\<rparr>" using assms(1) by (simp add: fini_step_def)
  have "frames_ok s'" unfolding s' using asleep_completed [OF assms(3)] Fini_Start
    by (intro frames_ok_same [OF assms(3)]) (simp_all add: outstanding_def waiting_def)
  with Fini_Start assms(2,4) s' show ?thesis by (auto simp: locks_ok_def shutdown_ok_def)
next
  case Fini_Poll
  show ?thesis
  proof (cases "sv_done s")
    case False
    with Fini_Poll have s': "s' = s\<lparr>lp_pc := Closed\<rparr>" using assms(1) by (simp add: fini_step_def)
    have "frames_ok s'" unfolding s' using asleep_completed [OF assms(3)] Fini_Poll
      by (intro frames_ok_same [OF assms(3)]) (simp_all add: outstanding_def waiting_def)
    with Fini_Poll False assms(2,4) s' show ?thesis by (auto simp: locks_ok_def shutdown_ok_def)
  qed (use assms Fini_Poll in \<open>simp add: fini_step_def\<close>)
qed (use assms(1) in \<open>simp_all add: fini_step_def\<close>)

text \<open>The steps of the event loop between the two functions.\<close>

lemma loop_step_inv:
  assumes "lp_pc s = Looping" "locks_ok s" "frames_ok s" "shutdown_ok s"
    and "s' = s\<lparr>sv_pipe := p, sv_kept := k, lp_pc := l\<rparr>" "l = Looping \<or> l = Fini_Start \<or> (\<exists>m. l = Sending m)"
    and "set (p @ k @ held l) \<subseteq> set (outstanding s)" "length (p @ k @ held l) \<le> 1"
  shows "locks_ok s'" "frames_ok s'" "shutdown_ok s'"
proof -
  show "locks_ok s'" "shutdown_ok s'" using assms by (auto simp: locks_ok_def shutdown_ok_def)
  have o: "outstanding s' = p @ k @ held l" "waiting s' = waiting s" using assms(5) by (simp_all add: outstanding_def waiting_def)
  have "list_all (\<lambda>m. sv_frame s = Some (snd m)) (p @ k @ held l)" "p @ k @ held l \<noteq> [] \<Longrightarrow> outstanding s \<noteq> []"
    using assms(3,7) unfolding frames_ok_def list_all_iff by fastforce+
  with assms(1,3,5,6,8) o show "frames_ok s'" by (auto simp: frames_ok_def)
qed

lemma threads_step_inv:
  assumes "threads_step W s s'" "locks_ok s" "frames_ok s" "shutdown_ok s"
  shows "locks_ok s' \<and> frames_ok s' \<and> shutdown_ok s'"
proof -
  have one: "length (sv_pipe s @ sv_kept s) \<le> 1" if "lp_pc s = Looping"
    using assms(3) that by (simp add: frames_ok_def outstanding_def)
  have loop: "locks_ok s' \<and> frames_ok s' \<and> shutdown_ok s'"
    if "lp_pc s = Looping" "s' = s\<lparr>sv_pipe := p, sv_kept := k, lp_pc := l\<rparr>" "l = Looping \<or> l = Fini_Start \<or> (\<exists>m. l = Sending m)"
      "set (p @ k @ held l) \<subseteq> set (sv_pipe s @ sv_kept s)" "length (p @ k @ held l) \<le> 1" for p k l
    using loop_step_inv [OF that(1) assms(2-4) that(2,3) _ that(5)] that(1,4) by (simp add: outstanding_def)
  from assms(1) show ?thesis
  proof cases
    case (server ev)
    then show ?thesis
      using server_step_locks [of W ev s s'] server_step_frames [of W ev s s'] server_step_shutdown [of W ev s s'] assms(2-4) by simp
  next
    case complete
    then show ?thesis
      using complete_step_locks [of s s'] complete_step_frames [of s s'] complete_step_shutdown [of s s'] assms(2-4) by simp
  next
    case fini
    then show ?thesis by (rule fini_step_inv [OF _ assms(2-4)])
  next
    case spurious
    have "frames_ok s'" unfolding spurious(1) using spurious(2)
      by (intro frames_ok_same [OF assms(3)]) (use assms(3) in \<open>simp_all add: frames_ok_def outstanding_def waiting_def\<close>)
    with spurious assms(2,4) show ?thesis by (auto simp: locks_ok_def shutdown_ok_def)
  next
    case (read_done m ms)
    then show ?thesis using one by (intro loop [where p = ms and k = "sv_kept s" and l = "Sending m"]) auto
  next
    case (read_keep m ms)
    then show ?thesis using one by (intro loop [where p = ms and k = "sv_kept s @ [m]" and l = Looping]) auto
  next
    case (io_done m)
    then have "set (remove1 m (sv_kept s)) \<subseteq> set (sv_kept s)" "length (remove1 m (sv_kept s)) = length (sv_kept s) - 1" "sv_kept s \<noteq> []"
      by (auto simp: set_remove1_subset length_remove1)
    then show ?thesis using io_done one by (intro loop [where p = "sv_pipe s" and k = "remove1 m (sv_kept s)" and l = "Sending m"]) (auto, cases "sv_kept s", auto)
  next
    case io_lost
    then show ?thesis using one by (intro loop [where p = "sv_pipe s" and k = "[]" and l = Looping]) auto
  next
    case loop_ends
    then show ?thesis using one by (intro loop [where p = "sv_pipe s" and k = "sv_kept s" and l = Fini_Start]) auto
  qed
qed

lemma threads_inv: "threads_reach W s \<Longrightarrow> locks_ok s \<and> frames_ok s \<and> shutdown_ok s"
proof (induction rule: threads_reach.induct)
  case started
  then show ?case by (simp add: threads_defs server_started_def)
next
  case (step s s')
  then show ?case by (blast dest: threads_step_inv)
qed

section \<open>Safety, wake up and shutdown\<close>

lemma test_excludes_write:
  assumes "threads_reach W s" "sv_pc s = Test_Compl"
  shows "lp_pc s \<noteq> Set_Err m"
proof
  assume "lp_pc s = Set_Err m"
  then have "sv_lock s = Some Server_Thread" "sv_lock s = Some Loop_Thread"
    using threads_inv [OF assms(1)] assms(2) unfolding locks_ok_def by blast+
  then show False by simp
qed

text \<open>
  The image of the camera is read by \<open>Get_Image\<close>, in the poll, and written while a message is handled.
\<close>

lemma image_not_read_while_captured: "threads_reach W s \<Longrightarrow> outstanding s \<noteq> [] \<Longrightarrow> sv_pc s \<noteq> In_Poll"
  using threads_inv [of W s] unfolding frames_ok_def waiting_def by auto

lemma threads_safe:
  assumes "threads_reach W s"
  shows "lp_pc s \<noteq> Dangling" "length (outstanding s) \<le> 1" "lp_pc s = Closed \<Longrightarrow> sv_pc s = Exited"
  using threads_inv [OF assms] unfolding frames_ok_def shutdown_ok_def by blast+

text \<open>A run that keeps a request as the loop ends: an operation of a node in flight at Ctrl-C.\<close>

definition in_flight :: "nat \<Rightarrow> request" where
  "in_flight W = (decode_request W (\<lambda>_. ''get'') 5, 0)"

definition loop_ended_in_flight :: "nat \<Rightarrow> server" where
  "loop_ended_in_flight W = server_started\<lparr>sv_pc := Lock_Mutex, lp_pc := Fini_Start, sv_frame := Some 0, sv_calls := 1,
     sv_kept := [in_flight W]\<rparr>"

lemma in_flight_reached: "threads_reach W (loop_ended_in_flight W)"
proof -
  let ?a = "server_started\<lparr>sv_pc := In_Poll\<rparr>"
  let ?b = "server_started\<lparr>sv_pc := Lock_Mutex, sv_frame := Some 0, sv_calls := 1, sv_pipe := [in_flight W]\<rparr>"
  let ?c = "server_started\<lparr>sv_pc := Lock_Mutex, sv_frame := Some 0, sv_calls := 1, sv_kept := [in_flight W]\<rparr>"
  have a: "threads_reach W ?a"
    by (rule threads_reach.step [OF threads_reach.started threads_step.server [where ev = Poll_Returns]])
      (simp add: server_step_def server_started_def)
  have b: "threads_reach W ?b"
    by (rule threads_reach.step [OF a threads_step.server [where ev = "Get_Page (\<lambda>_. ''get'') 5 True"]])
      (simp add: server_step_def server_started_def in_flight_def)
  have c: "threads_reach W ?c"
    using threads_reach.step [OF b threads_step.read_keep [where m = "in_flight W" and ms = "[]"]]
    by (simp add: server_started_def)
  show ?thesis
    using threads_reach.step [OF c threads_step.loop_ends] by (simp add: loop_ended_in_flight_def server_started_def)
qed

abbreviation threads_steps :: "nat \<Rightarrow> server \<Rightarrow> server \<Rightarrow> bool" where
  "threads_steps W \<equiv> (threads_step W)\<^sup>*\<^sup>*"

lemma server_steps: "server_step W ev s = Some s' \<Longrightarrow> threads_steps W s s'"
  by (rule r_into_rtranclp) (rule threads_step.server)

lemma fini_steps: "fini_step s = Some s' \<Longrightarrow> threads_steps W s s'"
  by (rule r_into_rtranclp) (rule threads_step.fini)

text \<open>A completed request returns from \<open>on_event\<close> by steps of its own thread.\<close>

lemma completed_returns:
  assumes "threads_reach W s" "waiting s" "sv_compl s \<noteq> None" "held (lp_pc s) = []" "lp_pc s \<notin> {Signalling, Unlocking}"
  shows "threads_steps W s (s\<lparr>sv_lock := None, sv_frame := None, sv_pc := In_Poll\<rparr>)"
proof -
  note inv = threads_inv [OF assms(1)]
  have nl: "sv_lock s \<noteq> Some Loop_Thread" using inv assms(4,5) by (auto simp: locks_ok_def)
  have t: "threads_steps W u (u\<lparr>sv_lock := None, sv_frame := None, sv_pc := In_Poll\<rparr>)"
    if "sv_pc u = Test_Compl" "sv_compl u \<noteq> None" for u
    by (rule server_steps [where ev = Poll_Returns]) (use that in \<open>auto simp: server_step_def\<close>)
  from assms(2) consider "sv_pc s = Lock_Mutex" | "sv_pc s = Test_Compl" | "sv_pc s = Cond_Wait" by (auto simp: waiting_def)
  then show ?thesis
  proof cases
    case 1
    then have "sv_lock s \<noteq> Some Server_Thread" using inv by (simp add: locks_ok_def)
    with nl have l: "sv_lock s = None" by (metis (full_types) option.exhaust thread.exhaust)
    let ?u = "s\<lparr>sv_lock := Some Server_Thread, sv_pc := Test_Compl\<rparr>"
    have "threads_steps W s ?u"
      by (rule server_steps [where ev = Poll_Returns]) (use 1 l in \<open>simp add: server_step_def\<close>)
    moreover have "threads_steps W ?u (s\<lparr>sv_lock := None, sv_frame := None, sv_pc := In_Poll\<rparr>)"
      using t [of ?u] assms(3) by simp
    ultimately show ?thesis by (rule rtranclp_trans)
  next
    case 2
    then show ?thesis using t assms(3) by simp
  next
    case 3
    with inv assms(3,5) show ?thesis by (simp add: frames_ok_def)
  qed
qed

text \<open>A shutdown never ends while a request waits that is not completed.\<close>

definition stuck :: "server \<Rightarrow> bool" where
  "stuck s \<longleftrightarrow> waiting s \<and> sv_compl s = None \<and> (lp_pc s = Fini_Start \<or> lp_pc s = Fini_Poll \<and> sv_done s)"

lemma stuck_step:
  assumes "threads_step W s s'" "stuck s"
  shows "stuck s'"
  using assms(1)
proof cases
  case (server ev)
  with assms(2) show ?thesis
    by (cases "sv_pc s") (auto simp: server_step_def stuck_def waiting_def split: if_splits)
qed (use assms(2) in \<open>auto simp: stuck_def waiting_def complete_step_def fini_step_def\<close>)

lemma stuck_steps: "threads_steps W s s' \<Longrightarrow> stuck s \<Longrightarrow> stuck s'"
  by (induction rule: rtranclp_induct) (auto intro: stuck_step)

lemma idle_shutdown:
  assumes "sv_pc s \<in> {Poll_Test, In_Poll}" "lp_pc s = Fini_Start"
  shows "\<exists>s'. threads_steps W s s' \<and> lp_pc s' = Closed"
proof -
  let ?a = "s\<lparr>sv_pc := Poll_Test\<rparr>"
  have 0: "threads_steps W s ?a"
  proof (cases "sv_pc s = Poll_Test")
    case True
    then have "?a = s" by (cases s) simp
    then show ?thesis by simp
  next
    case False
    with assms(1) show ?thesis by (intro server_steps [where ev = Poll_Returns]) (simp add: server_step_def)
  qed
  let ?b = "?a\<lparr>sv_done := True, lp_pc := Fini_Poll\<rparr>"
  let ?c = "?b\<lparr>sv_pc := Leaving\<rparr>"
  let ?d = "?c\<lparr>sv_done := False, sv_pc := Exited\<rparr>"
  have 1: "threads_steps W ?a ?b" using assms(2) by (intro fini_steps) (simp add: fini_step_def)
  have 2: "threads_steps W ?b ?c" by (rule server_steps [where ev = Poll_Returns]) (simp add: server_step_def)
  have 3: "threads_steps W ?c ?d" by (rule server_steps [where ev = Poll_Returns]) (simp add: server_step_def)
  have 4: "threads_steps W ?d (?d\<lparr>lp_pc := Closed\<rparr>)" by (rule fini_steps) (simp add: fini_step_def)
  from 0 1 2 3 4 have "threads_steps W s (?d\<lparr>lp_pc := Closed\<rparr>)" by (meson rtranclp_trans)
  then show ?thesis by (intro exI conjI) (assumption, simp)
qed

lemma shutdown_ends:
  assumes "threads_reach W s" "lp_pc s = Fini_Start" "\<not> (waiting s \<and> sv_compl s = None)"
  shows "\<exists>s'. threads_steps W s s' \<and> lp_pc s' = Closed"
proof (cases "waiting s")
  case True
  let ?u = "s\<lparr>sv_lock := None, sv_frame := None, sv_pc := In_Poll\<rparr>"
  have "threads_steps W s ?u" using completed_returns [OF assms(1) True] assms(2,3) True by simp
  moreover obtain s' where "threads_steps W ?u s'" "lp_pc s' = Closed"
    using idle_shutdown [of ?u W] assms(2) by auto
  ultimately show ?thesis by (meson rtranclp_trans)
next
  case False
  with threads_inv [OF assms(1)] assms(2) have "sv_pc s \<in> {Poll_Test, In_Poll}"
    by (cases "sv_pc s") (auto simp: waiting_def shutdown_ok_def)
  then show ?thesis using idle_shutdown assms(2) by blast
qed

lemma stuck_never_closed: "stuck s \<Longrightarrow> threads_steps W s s' \<Longrightarrow> lp_pc s' \<noteq> Closed"
  by (drule stuck_steps) (auto simp: stuck_def)

lemma in_flight_stuck: "lp_pc (loop_ended_in_flight W) = Fini_Start" "stuck (loop_ended_in_flight W)"
  by (simp_all add: loop_ended_in_flight_def stuck_def waiting_def server_started_def)

end
