(* ===== verification/Bano_Tools.thy ===== *)
theory Bano_Tools
  imports Bano_Config
begin

text \<open>
  The tools under \<open>src/util\<close>: \<open>sms_creds\<close>, which prints the encrypted credentials for a
  configuration and reads them back, \<open>sms_send\<close>, which sends three messages, and \<open>rand\<close>, which
  prints random keys and seeds. A program takes its arguments without its name and returns its
  exit code and what it prints; \<open>None\<close>, or \<open>Fault\<close>, is a use of \<open>NULL\<close> or of memory that is not there.
\<close>

section \<open>sms\_creds\<close>

definition newline :: char where "newline = CHR 0x0A"

text \<open>The bytes, each with the character after it.\<close>

definition creds_text :: "u8 list \<Rightarrow> string" where
  "creds_text creds = concat (map (\<lambda>i. ''0x'' @ hex_fixed 2 (unat (creds ! i))
     @ [if i = BANO_SMS_CREDS_SIZE - 1 then newline else CHR '','']) [0..<BANO_SMS_CREDS_SIZE])"

text \<open>
  A missing argument is \<open>NULL\<close>, which \<open>strcmp\<close> and \<open>strlen\<close> read. The text to decrypt ends with the
  argument.
\<close>

definition creds_command :: "('s, 'k) ssl_lib \<Rightarrow> nat \<Rightarrow> 'k sms \<Rightarrow> string list \<Rightarrow> (rc \<times> string) option" where
  "creds_command lib W h av =
     (case av of
        [] \<Rightarrow> None
      | c # args \<Rightarrow>
        if c = ''-d'' then
          (case args of
             [] \<Rightarrow> None
           | x # _ \<Rightarrow> Some
             (case bano_string_to_array W (bano_string_init_with_data x) [] BANO_SMS_CREDS_SIZE of
                None \<Rightarrow> (Err, [])
              | Some creds \<Rightarrow>
                (case bano_sms_decrypt_creds lib (aes_key h) creds of (l, p) \<Rightarrow>
                  (Ok, ''l='' @ bytes_str l @ '', p='' @ bytes_str p @ [newline]))))
        else if c = ''-e'' then
          (case args of
             [] \<Rightarrow> None
           | l # args' \<Rightarrow>
             if length l \<noteq> BANO_SMS_LOGIN_SIZE then Some (Err, [])
             else (case args' of
               [] \<Rightarrow> None
             | p # _ \<Rightarrow> Some
               (if length p \<noteq> BANO_SMS_PASS_SIZE then (Err, [])
                else (Ok, creds_text (bano_sms_encrypt_creds lib (aes_key h) (str_bytes l) (str_bytes p))))))
        else Some (Ok, []))"

text \<open>\<open>h0\<close> and the credentials of \<open>i0\<close> are what the stack held; the latter are decrypted all the same.\<close>

definition sms_creds_main ::
  "('s, 'k) ssl_lib \<Rightarrow> nat \<Rightarrow> 'k sms \<Rightarrow> sms_info \<Rightarrow> string list \<Rightarrow> 's \<Rightarrow> (rc \<times> string \<times> 's) option" where
  "sms_creds_main lib W h0 i0 av s =
     (case bano_sms_open lib W h0 (bano_sms_init_info i0) s of
        None \<Rightarrow> None
      | Some (Err, h, s1) \<Rightarrow> Some (Err, [], s1)
      | Some (Ok, h, s1) \<Rightarrow>
        (case creds_command lib W h av of
           None \<Rightarrow> None
         | Some (err, printed) \<Rightarrow> Some (err, printed, snd (bano_sms_close lib s1))))"

text \<open>What is printed is the array of the configuration files, and a newline.\<close>

lemma concat_upt_Suc: "concat (map f [0..<Suc n]) = f 0 @ concat (map (\<lambda>i. f (Suc i)) [0..<n])"
  by (simp add: upt_conv_Cons map_Suc_upt [symmetric] o_def del: upt_Suc)

lemma creds_text_upt:
  "bs \<noteq> [] \<Longrightarrow> concat (map (\<lambda>i. ''0x'' @ hex_fixed 2 (unat (bs ! i))
     @ [if i = length bs - 1 then newline else CHR '','']) [0..<length bs]) = print_array bs @ [newline]"
proof (induction bs rule: print_array.induct)
  case (3 b c bs)
  have n: "length (b # c # bs) = Suc (length (c # bs))" by simp
  have "(i = Suc (length (c # bs)) - 1) = (i = length bs + 1)" for i by simp
  with 3 show ?case unfolding n concat_upt_Suc by (simp del: upt_Suc)
qed simp_all

lemma creds_text_array: "length creds = BANO_SMS_CREDS_SIZE \<Longrightarrow> creds_text creds = print_array creds @ [newline]"
  using creds_text_upt [of creds] unfolding creds_text_def by (cases "creds = []") (auto simp: BANO_SMS_CREDS_SIZE_def)

text \<open>A string survives its way through the bytes.\<close>

lemma char_of_u8_of_char: "char_of (unat (of_char c :: u8)) = c"
proof -
  have "unat (of_char c :: u8) = unat (of_nat (of_char c) :: u8)" by (simp only: of_nat_of_char)
  also have "\<dots> = of_char c" unfolding unat_of_nat by simp
  finally show ?thesis by simp
qed

lemma bytes_str_bytes: "CHR 0x00 \<notin> set s \<Longrightarrow> bytes_str (str_bytes s @ [0]) = s"
  unfolding bytes_str_append_0
  by (induction s) (auto simp: bytes_str_def str_bytes_def c_str_def char_of_u8_of_char)

text \<open>What \<open>-e\<close> prints, without its newline, opens a handle with the login and the password.\<close>

lemma bano_sms_open_key:
  assumes "bano_sms_open lib W h i s = Some (Ok, h', s')"
  shows "\<exists>e buf. sl_getenv lib ''BANO_SMS_KEY'' = Some e \<and> sms_key e = Some buf \<and> sl_aes_init lib buf = Some (aes_key h')"
    and "(sms_login h', sms_pass h') = bano_sms_decrypt_creds lib (aes_key h') (sms_creds i)"
  using assms by (auto simp: bano_sms_open_def sms_address_def split: prod.splits rc.splits option.splits bind_splits if_splits)

lemma bano_sms_open_same_key:
  assumes "bano_sms_open lib W h i s = Some (Ok, h', s')" "bano_sms_open lib W g j t = Some (Ok, g', t')"
  shows "aes_key g' = aes_key h'"
  using bano_sms_open_key(1) [OF assms(1)] bano_sms_open_key(1) [OF assms(2)] by auto

text \<open>The text printed by \<open>-e\<close>.\<close>

lemma sms_creds_encrypts:
  assumes "sms_creds_main lib W h0 i0 [''-e'', l, p] s = Some (Ok, printed, s')" "aes_ok lib"
  obtains h s1 buf where "bano_sms_open lib W h0 (bano_sms_init_info i0) s = Some (Ok, h, s1)"
    "sl_aes_init lib buf = Some (aes_key h)" "length l = BANO_SMS_LOGIN_SIZE" "length p = BANO_SMS_PASS_SIZE"
    "printed = print_array (bano_sms_encrypt_creds lib (aes_key h) (str_bytes l) (str_bytes p)) @ [newline]"
proof -
  from assms(1) obtain h s1 where h: "bano_sms_open lib W h0 (bano_sms_init_info i0) s = Some (Ok, h, s1)"
    and c: "creds_command lib W h [''-e'', l, p] = Some (Ok, printed)"
    by (auto simp: sms_creds_main_def split: option.splits prod.splits rc.splits)
  from bano_sms_open_key(1) [OF h] obtain buf where buf: "sl_aes_init lib buf = Some (aes_key h)" by blast
  show ?thesis
    by (rule that [OF h buf]; use c creds_text_array [OF length_encrypt_creds [OF assms(2) buf]] in
        \<open>auto simp: creds_command_def str_bytes_def split: if_splits\<close>)
qed

lemma creds_read_back:
  assumes "aes_ok lib" "sl_aes_init lib buf = Some k" "8 \<le> W" "rest = [] \<or> digit_val (hd rest) \<ge> 16"
    and "length l = BANO_SMS_LOGIN_SIZE" "length p = BANO_SMS_PASS_SIZE"
  shows "bano_string_to_array W (print_array (bano_sms_encrypt_creds lib k l p)) rest BANO_SMS_CREDS_SIZE
    = Some (bano_sms_encrypt_creds lib k l p)"
proof -
  let ?c = "bano_sms_encrypt_creds lib k l p"
  have len: "length ?c = BANO_SMS_CREDS_SIZE" by (rule length_encrypt_creds [OF assms(1,2,5,6)])
  then have "?c \<noteq> []" by (auto simp: BANO_SMS_CREDS_SIZE_def)
  from to_array_print_array [OF assms(3) this assms(4)] show ?thesis unfolding len .
qed

section \<open>sms\_send\<close>

definition sms_send_creds :: "u8 list" where
  "sms_send_creds =
     [0xea, 0xac, 0x69, 0xa4, 0x01, 0x25, 0x34, 0x49, 0x88, 0x14, 0x8d, 0xc3, 0x2f, 0x33, 0xb2, 0xc6,
      0x1d, 0xe3, 0x6c, 0x9a, 0xf1, 0xea, 0xa5, 0xa8, 0x15, 0x58, 0x01, 0xce, 0x2d, 0x5f, 0xc2, 0x48]"

text \<open>The messages one after the other, up to the first that fails.\<close>

fun sms_send_all :: "nat \<Rightarrow> ('s, 'k) ssl_lib \<Rightarrow> 'k sms \<Rightarrow> string list \<Rightarrow> 's \<Rightarrow> (rc \<times> 's) outcome" where
  "sms_send_all fuel lib h [] s = Done (Ok, s)"
| "sms_send_all fuel lib h (m # ms) s =
     (case bano_sms_send fuel lib h m s of
        Running \<Rightarrow> Running
      | Fault \<Rightarrow> Fault
      | Done (Err, s1) \<Rightarrow> Done (Err, s1)
      | Done (Ok, s1) \<Rightarrow> sms_send_all fuel lib h ms s1)"

definition sms_send_main :: "nat \<Rightarrow> ('s, 'k) ssl_lib \<Rightarrow> nat \<Rightarrow> 'k sms \<Rightarrow> sms_info \<Rightarrow> 's \<Rightarrow> (rc \<times> string \<times> 's) outcome" where
  "sms_send_main fuel lib W h0 i0 s =
     (let info = (bano_sms_init_info i0)\<lparr>sms_addr := Some ''212.27.40.200'', sms_port := Some ''443'', sms_creds := sms_send_creds\<rparr> in
      case bano_sms_open lib W h0 info s of
        None \<Rightarrow> Fault
      | Some (Err, h, s1) \<Rightarrow> Done (Err, [], s1)
      | Some (Ok, h, s1) \<Rightarrow>
        (case sms_send_all fuel lib h [''00'', ''01'', ''02''] s1 of
           Running \<Rightarrow> Running
         | Fault \<Rightarrow> Fault
         | Done (Err, s2) \<Rightarrow> Done (Err, [], snd (bano_sms_close lib s2))
         | Done (Ok, s2) \<Rightarrow> Done (Ok, ''success'' @ [newline], snd (bano_sms_close lib s2))))"

lemma sms_send_all_no_fault:
  "alerts_ok lib \<Longrightarrow> sms_wf h \<Longrightarrow> list_all (\<lambda>m. length m \<le> 186) ms \<Longrightarrow> sms_send_all fuel lib h ms s \<noteq> Fault"
  using bano_sms_send_no_fault [of lib h] by (induction ms arbitrary: s) (auto split: outcome.splits prod.splits rc.splits)

lemma bano_sms_open_faults_not:
  assumes "sl_getenv lib ''BANO_SMS_KEY'' \<noteq> Some []" "sms_addr i = Some a" "length a < 16" "sms_port i \<noteq> None"
  shows "bano_sms_open lib W h i s \<noteq> None"
  using assms by (auto simp: bano_sms_open_def sms_address_def sms_key_def Let_def split: prod.splits rc.splits option.splits)

lemma sms_send_main_no_fault:
  assumes "alerts_ok lib" "sl_getenv lib ''BANO_SMS_KEY'' \<noteq> Some []"
  shows "sms_send_main fuel lib W h0 i0 s \<noteq> Fault"
proof -
  define info where "info = (bano_sms_init_info i0)\<lparr>sms_addr := Some ''212.27.40.200'', sms_port := Some ''443'', sms_creds := sms_send_creds\<rparr>"
  have "bano_sms_open lib W h0 info s \<noteq> None"
    by (rule bano_sms_open_faults_not [OF assms(2), of _ "''212.27.40.200''"]) (simp_all add: info_def)
  then obtain r h s1 where o: "bano_sms_open lib W h0 info s = Some (r, h, s1)" by auto
  show ?thesis
  proof (cases r)
    case Ok
    have "sms_wf h" by (rule bano_sms_open_wf [OF o [unfolded Ok]])
    then have "sms_send_all fuel lib h [''00'', ''01'', ''02''] s1 \<noteq> Fault" by (intro sms_send_all_no_fault assms) simp_all
    then show ?thesis using o Ok unfolding sms_send_main_def Let_def info_def [symmetric]
      by (auto split: outcome.splits prod.splits rc.splits)
  qed (use o in \<open>simp add: sms_send_main_def info_def [symmetric]\<close>)
qed

section \<open>rand\<close>

text \<open>
  \<open>atoi\<close> gives an \<open>int\<close>, which is extended to a \<open>size_t\<close> of \<open>W\<close> bits: a negative number is a large
  one. The format is the number of digits and the mask, \<open>None\<close> is \<open>NULL\<close>.
\<close>

definition atoi_size :: "nat \<Rightarrow> string \<Rightarrow> nat" where
  "atoi_size W s = nat (sint (of_nat (strtoul W s 10) :: u32) mod 2 ^ W)"

definition rand_option :: "nat \<Rightarrow> string \<Rightarrow> string \<Rightarrow> (nat \<times> u32) option \<times> nat \<Rightarrow> (nat \<times> u32) option \<times> nat" where
  "rand_option W opt arg st =
     (case st of (fmt, n) \<Rightarrow>
       if opt = ''-f'' then
         (if arg = ''uint8'' then (Some (2, 0xff), n)
          else if arg = ''uint32'' then (Some (8, 0xffffffff), n)
          else (fmt, n))
       else if opt = ''-n'' then (fmt, atoi_size W arg)
       else (fmt, n))"

text \<open>The arguments come in pairs, since their number is even.\<close>

fun rand_options :: "nat \<Rightarrow> string list \<Rightarrow> (nat \<times> u32) option \<times> nat \<Rightarrow> (nat \<times> u32) option \<times> nat" where
  "rand_options W (opt # arg # av) st = rand_options W av (rand_option W opt arg st)"
| "rand_options W _ st = st"

text \<open>\<open>rnd\<close> are the values \<open>rand\<close> returns after it was seeded.\<close>

definition rand_main :: "nat \<Rightarrow> (nat \<Rightarrow> u32) \<Rightarrow> string list \<Rightarrow> rc \<times> string" where
  "rand_main W rnd av =
     (if odd (length av) then (Err, [])
      else (case rand_options W av (None, 0) of
        (None, _) \<Rightarrow> (Err, [])
      | (Some (digits, msk), n) \<Rightarrow>
        if n = 0 then (Err, [])
        else (Ok, concat (map (\<lambda>i. (if i \<noteq> 0 then '','' else []) @ ''0x'' @ hex_fixed digits (unat (rnd i AND msk))) [0..<n]))))"

lemma u32_of_nat_sint: "n < 2 ^ 31 \<Longrightarrow> sint (of_nat n :: u32) = int n"
  by (simp add: signed_of_nat signed_take_bit_int_eq_self)

lemma atoi_size_dec:
  assumes "32 \<le> W" "n < 2 ^ 31"
  shows "atoi_size W (dec n) = n"
proof -
  have "(2 :: nat) ^ 31 \<le> 2 ^ W" using assms(1) by (intro power_increasing) simp_all
  with assms(2) have w: "n < 2 ^ W" by linarith
  have "strtoul W (dec n) 10 = n"
    using strtoul_digits [of "dec n" 10 W] dec_digits w by (simp add: digits_val_dec)
  moreover have "int n mod 2 ^ W = int n" using w by (metis mod_less of_nat_mod of_nat_numeral of_nat_power)
  ultimately show ?thesis using u32_of_nat_sint [OF assms(2)] by (simp add: atoi_size_def)
qed

lemma commas_between:
  "concat (map (\<lambda>i. (if i \<noteq> 0 then '','' else []) @ ''0x'' @ hex_fixed 2 (unat (f i))) [0..<Suc n])
    = print_array (map (\<lambda>i. f i) [0..<Suc n])" for f :: "nat \<Rightarrow> u8"
proof -
  have "print_array bs @ concat (map (\<lambda>b. '','' @ ''0x'' @ hex_fixed 2 (unat b)) cs) = print_array (bs @ cs)"
    if "bs \<noteq> []" for bs cs
    using that
  proof (induction bs rule: print_array.induct)
    case (2 b)
    show ?case by (induction cs arbitrary: b) simp_all
  qed simp_all
  from this [of "[f 0]" "map (\<lambda>i. f (Suc i)) [0..<n]"] show ?thesis
    by (simp only: concat_upt_Suc) (simp add: upt_conv_Cons map_Suc_upt [symmetric] o_def del: upt_Suc)
qed

text \<open>The bytes of a key: the text is the array the configuration files take.\<close>

lemma rand_bytes:
  assumes "32 \<le> W" "0 < n" "n < 2 ^ 31"
  shows "rand_main W rnd [''-f'', ''uint8'', ''-n'', dec n] = (Ok, print_array (map (\<lambda>i. ucast (rnd i)) [0..<n]))"
proof -
  have "unat (x AND 0xff :: u32) = unat (ucast x :: u8)" for x :: u32
    by (simp add: unsigned_ucast_eq take_bit_eq_mask mask_eq_exp_minus_1 unsigned_and_eq)
  moreover obtain k where "n = Suc k" using assms(2) by (cases n) auto
  ultimately show ?thesis
    using commas_between [of "\<lambda>i. ucast (rnd i)"] atoi_size_dec [OF assms(1,3)]
    by (simp add: rand_main_def rand_option_def del: upt_Suc)
qed

lemma rand_key_read_back:
  assumes "32 \<le> W" "rest = [] \<or> digit_val (hd rest) \<ge> 16"
  shows "bano_string_to_cipher_key W (snd (rand_main W rnd [''-f'', ''uint8'', ''-n'', dec BANO_CIPHER_KEY_SIZE])) rest
    = Some (map (\<lambda>i. ucast (rnd i)) [0..<BANO_CIPHER_KEY_SIZE])"
  using rand_bytes [OF assms(1), of BANO_CIPHER_KEY_SIZE rnd] assms
    to_array_print_array [of W "map (\<lambda>i. ucast (rnd i)) [0..<BANO_CIPHER_KEY_SIZE]" rest]
  by (simp add: bano_string_to_cipher_key_def BANO_CIPHER_KEY_SIZE_def)

lemma rand_seed_read_back:
  assumes "32 \<le> W"
  shows "bano_string_to_uint32 W (snd (rand_main W rnd [''-f'', ''uint32'', ''-n'', dec 1])) = Some (rnd 0)"
proof -
  have "(0xffffffff :: u32) = - 1" by simp
  then have "x AND 0xffffffff = x" for x :: u32 by (simp only: bit.conj_one_right)
  then show ?thesis using atoi_size_dec [OF assms, of 1] to_uint32_hex8 [OF assms]
    by (simp add: rand_main_def rand_option_def hex8_def)
qed

section \<open>From the tools to the station\<close>

lemma printed_credentials:
  assumes "aes_ok lib" "8 \<le> W" "sms_creds_main lib W h0 i0 [''-e'', l, p] s = Some (Ok, printed, s')"
    and "rest = [] \<or> digit_val (hd rest) \<ge> 16"
  obtains c where "bano_string_to_array W (butlast printed) rest BANO_SMS_CREDS_SIZE = Some c"
    "\<And>g j t h t'. bano_sms_open lib W g j t = Some (Ok, h, t') \<Longrightarrow>
       bano_sms_decrypt_creds lib (aes_key h) c = (str_bytes l @ [0], str_bytes p @ [0])"
proof -
  from assms(3,1) obtain h s1 buf where h: "bano_sms_open lib W h0 (bano_sms_init_info i0) s = Some (Ok, h, s1)"
    and buf: "sl_aes_init lib buf = Some (aes_key h)"
    and n: "length (str_bytes l) = BANO_SMS_LOGIN_SIZE" "length (str_bytes p) = BANO_SMS_PASS_SIZE"
    and t: "printed = print_array (bano_sms_encrypt_creds lib (aes_key h) (str_bytes l) (str_bytes p)) @ [newline]"
    by (rule sms_creds_encrypts) (simp add: str_bytes_def)
  show ?thesis
  proof (rule that)
    show "bano_string_to_array W (butlast printed) rest BANO_SMS_CREDS_SIZE
      = Some (bano_sms_encrypt_creds lib (aes_key h) (str_bytes l) (str_bytes p))"
      unfolding t butlast_snoc by (rule creds_read_back [OF assms(1) buf assms(2,4) n])
    show "bano_sms_decrypt_creds lib (aes_key h') (bano_sms_encrypt_creds lib (aes_key h) (str_bytes l) (str_bytes p))
      = (str_bytes l @ [0], str_bytes p @ [0])" if "bano_sms_open lib W g j u = Some (Ok, h', u')" for g j u h' u'
      unfolding bano_sms_open_same_key [OF h that] by (rule creds_round_trip [OF assms(1) buf n])
  qed
qed

end
