(* ===== verification/Matrix_Aes.thy ===== *)
theory Matrix_Aes
  imports Aes_Tables
begin

text \<open>
  The block cipher the credentials of the SMS account are encrypted with: \<open>psAesInitKey\<close>,
  \<open>psAesEncryptBlock\<close> and \<open>psAesDecryptBlock\<close> of \<open>matrixssl\<close>, for keys of 16, 24 and 32 bytes.
\<close>

section \<open>Bytes and rotations\<close>

definition byte :: "u32 \<Rightarrow> nat \<Rightarrow> u32" where
  "byte x n = drop_bit (8 * n) x AND 255"

definition ROR :: "u32 \<Rightarrow> nat \<Rightarrow> u32" where
  "ROR x n = drop_bit n x OR push_bit (32 - n) x"

definition LOAD32H :: "u8 list \<Rightarrow> u32" where
  "LOAD32H y = push_bit 24 (ucast (y ! 0)) OR push_bit 16 (ucast (y ! 1)) OR push_bit 8 (ucast (y ! 2)) OR ucast (y ! 3)"

definition STORE32H :: "u32 \<Rightarrow> u8 list" where
  "STORE32H x = [ucast (drop_bit 24 x AND 255), ucast (drop_bit 16 x AND 255), ucast (drop_bit 8 x AND 255), ucast (x AND 255)]"

text \<open>The other tables are rotations, and masks, of the four.\<close>

definition Te0 :: "u32 \<Rightarrow> u32" where "Te0 x = TE0 ! unat x"
definition Te1 :: "u32 \<Rightarrow> u32" where "Te1 x = ROR (TE0 ! unat x) 8"
definition Te2 :: "u32 \<Rightarrow> u32" where "Te2 x = ROR (TE0 ! unat x) 16"
definition Te3 :: "u32 \<Rightarrow> u32" where "Te3 x = ROR (TE0 ! unat x) 24"
definition Td0 :: "u32 \<Rightarrow> u32" where "Td0 x = TD0 ! unat x"
definition Td1 :: "u32 \<Rightarrow> u32" where "Td1 x = ROR (TD0 ! unat x) 8"
definition Td2 :: "u32 \<Rightarrow> u32" where "Td2 x = ROR (TD0 ! unat x) 16"
definition Td3 :: "u32 \<Rightarrow> u32" where "Td3 x = ROR (TD0 ! unat x) 24"
definition Te4_0 :: "u32 \<Rightarrow> u32" where "Te4_0 x = 0x000000FF AND Te4 ! unat x"
definition Te4_1 :: "u32 \<Rightarrow> u32" where "Te4_1 x = 0x0000FF00 AND Te4 ! unat x"
definition Te4_2 :: "u32 \<Rightarrow> u32" where "Te4_2 x = 0x00FF0000 AND Te4 ! unat x"
definition Te4_3 :: "u32 \<Rightarrow> u32" where "Te4_3 x = 0xFF000000 AND Te4 ! unat x"

section \<open>The key schedule\<close>

definition rcon :: "u32 list" where
  "rcon = [0x01000000, 0x02000000, 0x04000000, 0x08000000, 0x10000000, 0x20000000, 0x40000000, 0x80000000,
     0x1B000000, 0x36000000]"

definition setup_mix :: "u32 \<Rightarrow> u32" where
  "setup_mix t = Te4_3 (byte t 2) XOR Te4_2 (byte t 1) XOR Te4_1 (byte t 0) XOR Te4_0 (byte t 3)"

definition setup_mix2 :: "u32 \<Rightarrow> u32" where
  "setup_mix2 t = Td0 (255 AND Te4 ! unat (byte t 3)) XOR Td1 (255 AND Te4 ! unat (byte t 2))
     XOR Td2 (255 AND Te4 ! unat (byte t 1)) XOR Td3 (255 AND Te4 ! unat (byte t 0))"

text \<open>
  A turn of the loop that extends the key: \<open>rk\<close> is the array up to what is written, and the
  pointer of the code is at its offset \<open>n i\<close>, for words of \<open>n\<close> in the key.
\<close>

definition expand16 :: "nat \<Rightarrow> u32 list \<Rightarrow> u32 list" where
  "expand16 i ek =
     (let rk = drop (4 * i) ek;
          r4 = rk ! 0 XOR setup_mix (rk ! 3) XOR rcon ! i;
          r5 = rk ! 1 XOR r4; r6 = rk ! 2 XOR r5; r7 = rk ! 3 XOR r6
      in ek @ [r4, r5, r6, r7])"

definition expand24 :: "nat \<Rightarrow> u32 list \<Rightarrow> u32 list" where
  "expand24 i ek =
     (let rk = drop (6 * i) ek;
          r6 = rk ! 0 XOR setup_mix (rk ! 5) XOR rcon ! i;
          r7 = rk ! 1 XOR r6; r8 = rk ! 2 XOR r7; r9 = rk ! 3 XOR r8
      in if i + 1 = 8 then ek @ [r6, r7, r8, r9]
         else let r10 = rk ! 4 XOR r9; r11 = rk ! 5 XOR r10 in ek @ [r6, r7, r8, r9, r10, r11])"

definition expand32 :: "nat \<Rightarrow> u32 list \<Rightarrow> u32 list" where
  "expand32 i ek =
     (let rk = drop (8 * i) ek;
          r8 = rk ! 0 XOR setup_mix (rk ! 7) XOR rcon ! i;
          r9 = rk ! 1 XOR r8; r10 = rk ! 2 XOR r9; r11 = rk ! 3 XOR r10
      in if i + 1 = 7 then ek @ [r8, r9, r10, r11]
         else let r12 = rk ! 4 XOR setup_mix (ROR r11 8);
                  r13 = rk ! 5 XOR r12; r14 = rk ! 6 XOR r13; r15 = rk ! 7 XOR r14
              in ek @ [r8, r9, r10, r11, r12, r13, r14, r15])"

text \<open>The words of the key, in the order of its bytes.\<close>

definition key_words :: "u8 list \<Rightarrow> u32 list" where
  "key_words k = map (\<lambda>i. LOAD32H (drop (4 * i) k)) [0..<length k div 4]"

definition forward_key :: "u8 list \<Rightarrow> u32 list" where
  "forward_key k =
     (if length k = 16 then fold expand16 [0..<10] (key_words k)
      else if length k = 24 then fold expand24 [0..<8] (key_words k)
      else fold expand32 [0..<7] (key_words k))"

text \<open>
  The inverse key, from the last four words of the \<open>j\<close> to the first: all but the first and the
  last four are mixed.
\<close>

definition inverse_key :: "nat \<Rightarrow> nat \<Rightarrow> u32 list \<Rightarrow> u32 list" where
  "inverse_key nr j ek =
     concat (map (\<lambda>i. let rrk = take 4 (drop (j - 4 - 4 * i) ek)
                      in if 0 < i \<and> i < nr then map setup_mix2 rrk else rrk) [0..<nr + 1])"

text \<open>The arrays have 64 words, which are 0 at first.\<close>

record psAesKey =
  eK :: "u32 list"
  dK :: "u32 list"
  Nr :: nat

definition psAesInitKey :: "u8 list \<Rightarrow> psAesKey option" where
  "psAesInitKey k =
     (if length k \<noteq> 16 \<and> length k \<noteq> 24 \<and> length k \<noteq> 32 then None
      else let nr = 10 + (length k div 8 - 2) * 2;
               ek = forward_key k;
               j = (if length k = 16 then 44 else if length k = 24 then 52 else 60);
               dk = inverse_key nr j ek
           in Some \<lparr>eK = ek @ replicate (64 - length ek) 0, dK = dk @ replicate (64 - length dk) 0, Nr = nr\<rparr>)"

section \<open>The blocks\<close>

type_synonym aes_state = "u32 \<times> u32 \<times> u32 \<times> u32"

definition load_state :: "u8 list \<Rightarrow> u32 list \<Rightarrow> aes_state" where
  "load_state b rk = (LOAD32H b XOR rk ! 0, LOAD32H (drop 4 b) XOR rk ! 1, LOAD32H (drop 8 b) XOR rk ! 2, LOAD32H (drop 12 b) XOR rk ! 3)"

text \<open>A turn of the loop of the rounds; \<open>rk\<close> is the key from the pointer on.\<close>

definition enc_round :: "u32 list \<Rightarrow> aes_state \<Rightarrow> aes_state" where
  "enc_round rk s =
     (case s of (s0, s1, s2, s3) \<Rightarrow>
       (Te0 (byte s0 3) XOR Te1 (byte s1 2) XOR Te2 (byte s2 1) XOR Te3 (byte s3 0) XOR rk ! 0,
        Te0 (byte s1 3) XOR Te1 (byte s2 2) XOR Te2 (byte s3 1) XOR Te3 (byte s0 0) XOR rk ! 1,
        Te0 (byte s2 3) XOR Te1 (byte s3 2) XOR Te2 (byte s0 1) XOR Te3 (byte s1 0) XOR rk ! 2,
        Te0 (byte s3 3) XOR Te1 (byte s0 2) XOR Te2 (byte s1 1) XOR Te3 (byte s2 0) XOR rk ! 3))"

definition enc_last :: "u32 list \<Rightarrow> aes_state \<Rightarrow> u8 list" where
  "enc_last rk t =
     (case t of (t0, t1, t2, t3) \<Rightarrow>
       STORE32H (Te4_3 (byte t0 3) XOR Te4_2 (byte t1 2) XOR Te4_1 (byte t2 1) XOR Te4_0 (byte t3 0) XOR rk ! 0)
       @ STORE32H (Te4_3 (byte t1 3) XOR Te4_2 (byte t2 2) XOR Te4_1 (byte t3 1) XOR Te4_0 (byte t0 0) XOR rk ! 1)
       @ STORE32H (Te4_3 (byte t2 3) XOR Te4_2 (byte t3 2) XOR Te4_1 (byte t0 1) XOR Te4_0 (byte t1 0) XOR rk ! 2)
       @ STORE32H (Te4_3 (byte t3 3) XOR Te4_2 (byte t0 2) XOR Te4_1 (byte t1 1) XOR Te4_0 (byte t2 0) XOR rk ! 3))"

text \<open>
  The loop runs for \<open>r\<close> from 0 to \<open>Nr - 2\<close>; the number of rounds is at least 10 for every key that
  was initialised. The blocks have 16 bytes.
\<close>

definition psAesEncryptBlock :: "psAesKey \<Rightarrow> u8 list \<Rightarrow> u8 list" where
  "psAesEncryptBlock skey pt =
     enc_last (drop (4 * Nr skey) (eK skey))
       (fold (\<lambda>r. enc_round (drop (4 * (r + 1)) (eK skey))) [0..<Nr skey - 1] (load_state pt (eK skey)))"

definition dec_round :: "u32 list \<Rightarrow> aes_state \<Rightarrow> aes_state" where
  "dec_round rk s =
     (case s of (s0, s1, s2, s3) \<Rightarrow>
       (Td0 (byte s0 3) XOR Td1 (byte s3 2) XOR Td2 (byte s2 1) XOR Td3 (byte s1 0) XOR rk ! 0,
        Td0 (byte s1 3) XOR Td1 (byte s0 2) XOR Td2 (byte s3 1) XOR Td3 (byte s2 0) XOR rk ! 1,
        Td0 (byte s2 3) XOR Td1 (byte s1 2) XOR Td2 (byte s0 1) XOR Td3 (byte s3 0) XOR rk ! 2,
        Td0 (byte s3 3) XOR Td1 (byte s2 2) XOR Td2 (byte s1 1) XOR Td3 (byte s0 0) XOR rk ! 3))"

definition dec_last :: "u32 list \<Rightarrow> aes_state \<Rightarrow> u8 list" where
  "dec_last rk t =
     (case t of (t0, t1, t2, t3) \<Rightarrow>
       STORE32H ((Td4 ! unat (byte t0 3) AND 0xff000000) XOR (Td4 ! unat (byte t3 2) AND 0x00ff0000)
         XOR (Td4 ! unat (byte t2 1) AND 0x0000ff00) XOR (Td4 ! unat (byte t1 0) AND 0x000000ff) XOR rk ! 0)
       @ STORE32H ((Td4 ! unat (byte t1 3) AND 0xff000000) XOR (Td4 ! unat (byte t0 2) AND 0x00ff0000)
         XOR (Td4 ! unat (byte t3 1) AND 0x0000ff00) XOR (Td4 ! unat (byte t2 0) AND 0x000000ff) XOR rk ! 1)
       @ STORE32H ((Td4 ! unat (byte t2 3) AND 0xff000000) XOR (Td4 ! unat (byte t1 2) AND 0x00ff0000)
         XOR (Td4 ! unat (byte t0 1) AND 0x0000ff00) XOR (Td4 ! unat (byte t3 0) AND 0x000000ff) XOR rk ! 2)
       @ STORE32H ((Td4 ! unat (byte t3 3) AND 0xff000000) XOR (Td4 ! unat (byte t2 2) AND 0x00ff0000)
         XOR (Td4 ! unat (byte t1 1) AND 0x0000ff00) XOR (Td4 ! unat (byte t0 0) AND 0x000000ff) XOR rk ! 3))"

definition psAesDecryptBlock :: "psAesKey \<Rightarrow> u8 list \<Rightarrow> u8 list" where
  "psAesDecryptBlock skey ct =
     dec_last (drop (4 * Nr skey) (dK skey))
       (fold (\<lambda>r. dec_round (drop (4 * (r + 1)) (dK skey))) [0..<Nr skey - 1] (load_state ct (dK skey)))"

section \<open>Words as four bytes\<close>

definition byt :: "u32 \<Rightarrow> nat \<Rightarrow> u8" where
  "byt x n = ucast (drop_bit (8 * n) x)"

lemma bit_pack: "bit (pack b3 b2 b1 b0) n \<longleftrightarrow>
   (if n < 8 then bit b0 n else if n < 16 then bit b1 (n - 8) else if n < 24 then bit b2 (n - 16) else bit b3 (n - 24))"
  by (auto simp: pack_def bit_simps not_less dest: bit_imp_le_length)

lemma pack_xor: "pack a3 a2 a1 a0 XOR pack b3 b2 b1 b0 = pack (a3 XOR b3) (a2 XOR b2) (a1 XOR b1) (a0 XOR b0)"
  by (rule bit_word_eqI) (simp add: bit_pack bit_simps)

lemma ROR_pack:
  "ROR (pack b3 b2 b1 b0) 8 = pack b0 b3 b2 b1" "ROR (pack b3 b2 b1 b0) 16 = pack b1 b0 b3 b2"
  "ROR (pack b3 b2 b1 b0) 24 = pack b2 b1 b0 b3"
  by (rule bit_word_eqI, auto simp: ROR_def bit_simps bit_pack not_less)+

lemma byt_pack [simp]:
  "byt (pack b3 b2 b1 b0) 0 = b0" "byt (pack b3 b2 b1 b0) 1 = b1" "byt (pack b3 b2 b1 b0) (Suc 0) = b1"
  "byt (pack b3 b2 b1 b0) 2 = b2" "byt (pack b3 b2 b1 b0) 3 = b3"
  by (rule bit_word_eqI, simp add: byt_def bit_simps bit_pack)+

lemma pack_byt [simp]: "pack (byt w 3) (byt w 2) (byt w (Suc 0)) (byt w 0) = w"
  by (rule bit_word_eqI) (auto simp: byt_def bit_simps bit_pack not_less)

lemma unat_byte: "n < 4 \<Longrightarrow> unat (byte w n) = unat (byt w n)"
  by (simp add: byte_def byt_def unsigned_and_eq unsigned_ucast_eq unsigned_drop_bit_eq take_bit_eq_mask mask_eq_exp_minus_1)

lemma pack_and:
  "0x000000FF AND pack b3 b2 b1 b0 = pack 0 0 0 b0" "0x0000FF00 AND pack b3 b2 b1 b0 = pack 0 0 b1 0"
  "0x00FF0000 AND pack b3 b2 b1 b0 = pack 0 b2 0 0" "0xFF000000 AND pack b3 b2 b1 b0 = pack b3 0 0 0"
proof -
  have e: "(255 :: u8) = - 1" by simp
  have m: "(0x000000FF :: u32) = pack 0 0 0 255" "(0x0000FF00 :: u32) = pack 0 0 255 0"
    "(0x00FF0000 :: u32) = pack 0 255 0 0" "(0xFF000000 :: u32) = pack 255 0 0 0" by (simp_all add: pack_def)
  show "0x000000FF AND pack b3 b2 b1 b0 = pack 0 0 0 b0" "0x0000FF00 AND pack b3 b2 b1 b0 = pack 0 0 b1 0"
    "0x00FF0000 AND pack b3 b2 b1 b0 = pack 0 b2 0 0" "0xFF000000 AND pack b3 b2 b1 b0 = pack b3 0 0 0"
    unfolding m [unfolded e] by (rule bit_word_eqI, auto simp: bit_simps bit_pack)+
qed

lemma STORE32H_pack: "STORE32H (pack b3 b2 b1 b0) = [b3, b2, b1, b0]"
proof -
  have "x AND 255 = take_bit 8 x" for x :: u32 by (simp add: take_bit_eq_mask mask_eq_exp_minus_1)
  then show ?thesis by (auto simp: STORE32H_def bit_simps bit_pack intro!: bit_word_eqI)
qed

lemma LOAD32H_pack: "LOAD32H y = pack (y ! 0) (y ! 1) (y ! 2) (y ! 3)"
  by (simp add: LOAD32H_def pack_def)

section \<open>The mixed columns are inverse to each other\<close>

lemma xtime_xor: "xtime (x XOR y) = xtime x XOR xtime y"
  by (rule bit_word_eqI) (auto simp: xtime_def bit_simps)

lemma xor_cancel [simp]: "x XOR (x XOR y) = (y :: 'a :: len word)"
  by (simp add: xor.assoc [symmetric])

lemmas xor_ac = xor.assoc xor.commute xor.left_commute

definition mix_columns :: "u32 \<Rightarrow> u32" where
  "mix_columns w = mix_column (byt w 3) XOR ROR (mix_column (byt w 2)) 8 XOR ROR (mix_column (byt w 1)) 16 XOR ROR (mix_column (byt w 0)) 24"

definition inv_mix_columns :: "u32 \<Rightarrow> u32" where
  "inv_mix_columns w = inv_mix_column (byt w 3) XOR ROR (inv_mix_column (byt w 2)) 8
     XOR ROR (inv_mix_column (byt w 1)) 16 XOR ROR (inv_mix_column (byt w 0)) 24"

lemma inv_mix_mix_columns: "inv_mix_columns (mix_columns w) = w"
proof -
  define a b c d where "a = byt w 3" "b = byt w 2" "c = byt w 1" "d = byt w 0"
  have "mix_columns w = pack (xtime a XOR (xtime b XOR b) XOR c XOR d) (a XOR xtime b XOR (xtime c XOR c) XOR d)
      (a XOR b XOR xtime c XOR (xtime d XOR d)) ((xtime a XOR a) XOR b XOR c XOR xtime d)"
    by (simp add: mix_columns_def mix_column_def ROR_pack pack_xor xor_ac flip: a_b_c_d_def del: One_nat_def)
  then have "inv_mix_columns (mix_columns w) = pack a b c d"
    by (simp add: inv_mix_columns_def inv_mix_column_def Let_def ROR_pack pack_xor xtime_xor xor_ac)
  then show ?thesis by (simp add: a_b_c_d_def)
qed

lemma byt_xor: "byt (x XOR y) n = byt x n XOR byt y n"
  by (rule bit_word_eqI) (simp add: byt_def bit_simps)

lemma ROR_xor: "ROR (x XOR y) n = ROR x n XOR ROR y n" if "n < 32"
  using that by (intro bit_word_eqI) (auto simp: ROR_def bit_simps dest: bit_imp_le_length)

lemma inv_mix_column_xor: "inv_mix_column (x XOR y) = inv_mix_column x XOR inv_mix_column y"
  by (simp add: inv_mix_column_def Let_def pack_xor xtime_xor xor_ac)

lemma inv_mix_xor: "inv_mix_columns (x XOR y) = inv_mix_columns x XOR inv_mix_columns y"
  by (simp add: inv_mix_columns_def byt_xor inv_mix_column_xor ROR_xor xor_ac)

section \<open>A round and its inverse\<close>

text \<open>The substitution of the four bytes that a round mixes into one word, and its inverse.\<close>

definition sub_row :: "u32 \<Rightarrow> u32 \<Rightarrow> u32 \<Rightarrow> u32 \<Rightarrow> u32" where
  "sub_row a b c d = pack (sub_byte (byt a 3)) (sub_byte (byt b 2)) (sub_byte (byt c 1)) (sub_byte (byt d 0))"

definition inv_sub_row :: "u32 \<Rightarrow> u32 \<Rightarrow> u32 \<Rightarrow> u32 \<Rightarrow> u32" where
  "inv_sub_row a b c d =
     pack (inv_sub_byte (byt a 3)) (inv_sub_byte (byt b 2)) (inv_sub_byte (byt c 1)) (inv_sub_byte (byt d 0))"

lemma inv_sub_row_sub_row:
  "inv_sub_row (sub_row a b' c'' d''') (sub_row d a' b'' c''') (sub_row c d' a'' b''') (sub_row b c' d'' a''') = pack (byt a 3) (byt a' 2) (byt a'' 1) (byt a''' 0)"
  by (simp add: sub_row_def inv_sub_row_def)

lemma enc_word:
  "Te0 (byte a 3) XOR Te1 (byte b 2) XOR Te2 (byte c 1) XOR Te3 (byte d 0) = mix_columns (sub_row a b c d)"
  by (simp add: Te0_def Te1_def Te2_def Te3_def unat_byte TE0_entry mix_columns_def sub_row_def)

lemma dec_word:
  "Td0 (byte a 3) XOR Td1 (byte b 2) XOR Td2 (byte c 1) XOR Td3 (byte d 0) = inv_mix_columns (inv_sub_row a b c d)"
  by (simp add: Td0_def Td1_def Td2_def Td3_def unat_byte TD0_entry inv_mix_columns_def inv_sub_row_def)

lemma enc_last_word:
  "Te4_3 (byte a 3) XOR Te4_2 (byte b 2) XOR Te4_1 (byte c 1) XOR Te4_0 (byte d 0) = sub_row a b c d"
  by (simp add: Te4_0_def Te4_1_def Te4_2_def Te4_3_def unat_byte Te4_entry pack_and pack_xor sub_row_def)

lemma dec_last_word:
  "(Td4 ! unat (byte a 3) AND 0xff000000) XOR (Td4 ! unat (byte b 2) AND 0x00ff0000)
     XOR (Td4 ! unat (byte c 1) AND 0x0000ff00) XOR (Td4 ! unat (byte d 0) AND 0x000000ff) = inv_sub_row a b c d"
  by (simp add: unat_byte Td4_entry pack_and pack_xor inv_sub_row_def and.commute [of "pack _ _ _ _"])

lemma setup_mix2_inv_mix: "setup_mix2 w = inv_mix_columns w"
proof -
  have "unat (255 AND Te4 ! unat (byte w n)) = unat (sub_byte (byt w n))" if "n < 4" for n
  proof -
    have "255 AND Te4 ! unat (byte w n) = pack 0 0 0 (sub_byte (byt w n))"
      using that pack_and(1) by (simp add: unat_byte Te4_entry)
    then show ?thesis by (simp add: pack_def unsigned_ucast_eq take_bit_nat_eq_self order_less_trans [OF unat_u8_less])
  qed
  then show ?thesis
    by (simp add: setup_mix2_def Td0_def Td1_def Td2_def Td3_def TD0_entry inv_mix_columns_def)
qed

text \<open>The state as a tuple: the substitution with its shift of shift_rows, and words combined with a key.\<close>

definition shift_rows :: "(u32 \<Rightarrow> u32 \<Rightarrow> u32 \<Rightarrow> u32 \<Rightarrow> u32) \<Rightarrow> aes_state \<Rightarrow> aes_state" where
  "shift_rows f s = (case s of (s0, s1, s2, s3) \<Rightarrow> (f s0 s1 s2 s3, f s1 s2 s3 s0, f s2 s3 s0 s1, f s3 s0 s1 s2))"

definition inv_shift :: "(u32 \<Rightarrow> u32 \<Rightarrow> u32 \<Rightarrow> u32 \<Rightarrow> u32) \<Rightarrow> aes_state \<Rightarrow> aes_state" where
  "inv_shift f s = (case s of (s0, s1, s2, s3) \<Rightarrow> (f s0 s3 s2 s1, f s1 s0 s3 s2, f s2 s1 s0 s3, f s3 s2 s1 s0))"

definition each_word :: "(u32 \<Rightarrow> u32) \<Rightarrow> aes_state \<Rightarrow> aes_state" where
  "each_word f s = (case s of (s0, s1, s2, s3) \<Rightarrow> (f s0, f s1, f s2, f s3))"

definition add_key :: "u32 list \<Rightarrow> aes_state \<Rightarrow> aes_state" where
  "add_key rk s = (case s of (s0, s1, s2, s3) \<Rightarrow> (s0 XOR rk ! 0, s1 XOR rk ! 1, s2 XOR rk ! 2, s3 XOR rk ! 3))"

definition store_state :: "aes_state \<Rightarrow> u8 list" where
  "store_state s = (case s of (s0, s1, s2, s3) \<Rightarrow> STORE32H s0 @ STORE32H s1 @ STORE32H s2 @ STORE32H s3)"

lemmas state_defs = shift_rows_def inv_shift_def each_word_def add_key_def store_state_def

lemma round_steps:
  "enc_round rk s = add_key rk (each_word mix_columns (shift_rows sub_row s))" "enc_last rk s = store_state (add_key rk (shift_rows sub_row s))"
  "dec_round rk s = add_key rk (each_word inv_mix_columns (inv_shift inv_sub_row s))" "dec_last rk s = store_state (add_key rk (inv_shift inv_sub_row s))"
  by (cases s; simp only: enc_round_def enc_last_def dec_round_def dec_last_def state_defs prod.case
      xor.assoc [symmetric] enc_word [simplified xor.assoc [symmetric]] enc_last_word [simplified xor.assoc [symmetric]]
      dec_word [simplified xor.assoc [symmetric]] dec_last_word [simplified xor.assoc [symmetric]])+

lemma inv_shift_rows: "inv_shift inv_sub_row (shift_rows sub_row s) = s"
  by (cases s) (simp add: state_defs inv_sub_row_sub_row)

lemma inv_mix_each: "each_word inv_mix_columns (each_word mix_columns s) = s"
  by (cases s) (simp add: state_defs inv_mix_mix_columns)

lemma add_key_twice: "add_key rk (add_key rk s) = s"
  by (cases s) (simp add: state_defs xor.assoc)

lemma each_add_key:
  "(\<And>i. i < 4 \<Longrightarrow> rk' ! i = inv_mix_columns (rk ! i)) \<Longrightarrow> add_key rk' (each_word inv_mix_columns s) = each_word inv_mix_columns (add_key rk s)"
  by (cases s) (simp add: state_defs inv_mix_xor)

lemma length_store [simp]: "length (store_state s) = 16"
  by (cases s) (simp add: state_defs STORE32H_def)

lemma STORE32H_byt: "STORE32H x = [byt x 3, byt x 2, byt x (Suc 0), byt x 0]"
  using STORE32H_pack [of "byt x 3" "byt x 2" "byt x (Suc 0)" "byt x 0"] by simp

lemma LOAD_STORE: "LOAD32H (STORE32H x @ r) = x"
  by (simp add: STORE32H_byt LOAD32H_pack)

lemma load_store_state: "load_state (store_state s) rk = add_key rk s"
proof -
  have l: "length (STORE32H x) = 4" for x by (simp add: STORE32H_def)
  show ?thesis using LOAD_STORE [of _ "[]"] by (cases s) (simp add: state_defs load_state_def LOAD_STORE l)
qed

lemma store_load_state:
  assumes "length b = 16"
  shows "store_state (add_key rk (load_state b rk)) = b"
proof -
  have "STORE32H (LOAD32H y) = take 4 y" if "4 \<le> length y" for y
    using that by (auto simp: LOAD32H_pack STORE32H_pack list_eq_iff_nth_eq nth_Cons' less_Suc_eq numeral_eq_Suc)
  then have "store_state (add_key rk (load_state b rk)) = take 4 b @ take 4 (drop 4 b) @ take 4 (drop 8 b) @ take 4 (drop 12 b)"
    using assms by (simp add: state_defs load_state_def xor.assoc)
  also have "\<dots> = b"
    using assms append_take_drop_id [of 4 b] append_take_drop_id [of 4 "drop 4 b"] append_take_drop_id [of 4 "drop 8 b"] by simp
  finally show ?thesis .
qed

section \<open>Decryption undoes encryption\<close>

text \<open>
  The two keys of a context belong together: the inverse key is the forward key backwards, with
  mixed columns between its ends.
\<close>

definition key_ok :: "psAesKey \<Rightarrow> bool" where
  "key_ok sk \<longleftrightarrow> 0 < Nr sk \<and> Nr sk < 16 \<and> length (eK sk) = 64 \<and> length (dK sk) = 64
     \<and> (\<forall>i \<le> Nr sk. \<forall>c < 4. dK sk ! (4 * i + c) =
          (if 0 < i \<and> i < Nr sk then inv_mix_columns else (\<lambda>w. w)) (eK sk ! (4 * (Nr sk - i) + c)))"

lemma key_ok_mixed:
  assumes "key_ok sk" "0 < i" "i < Nr sk" "c < 4"
  shows "drop (4 * i) (dK sk) ! c = inv_mix_columns (drop (4 * (Nr sk - i)) (eK sk) ! c)"
proof -
  have "4 * i \<le> length (dK sk)" "4 * (Nr sk - i) \<le> length (eK sk)" using assms by (auto simp: key_ok_def)
  then show ?thesis using assms by (simp add: key_ok_def)
qed

lemma add_key_cong: "(\<And>c. c < 4 \<Longrightarrow> rk ! c = rk' ! c) \<Longrightarrow> add_key rk s = add_key rk' s"
  by (cases s) (simp add: add_key_def)

lemma key_ok_ends:
  assumes "key_ok sk"
  shows "add_key (dK sk) s = add_key (drop (4 * Nr sk) (eK sk)) s" "add_key (drop (4 * Nr sk) (dK sk)) s = add_key (eK sk) s"
proof -
  have d: "dK sk ! (4 * i + c) = (if 0 < i \<and> i < Nr sk then inv_mix_columns else (\<lambda>w. w)) (eK sk ! (4 * (Nr sk - i) + c))"
    if "i \<le> Nr sk" "c < 4" for i c using assms that unfolding key_ok_def by blast
  have l: "4 * Nr sk \<le> length (eK sk)" "4 * Nr sk \<le> length (dK sk)" using assms by (simp_all add: key_ok_def)
  show "add_key (dK sk) s = add_key (drop (4 * Nr sk) (eK sk)) s"
    using d [of 0] l by (intro add_key_cong) simp
  show "add_key (drop (4 * Nr sk) (dK sk)) s = add_key (eK sk) s"
    using d [of "Nr sk"] l by (intro add_key_cong) simp
qed

lemma dec_enc_block:
  assumes ok: "key_ok sk" and b: "length b = 16"
  shows "psAesDecryptBlock sk (psAesEncryptBlock sk b) = b"
proof -
  define ek where "ek = (\<lambda>r. drop (4 * r) (eK sk))"
  define dk where "dk = (\<lambda>r. drop (4 * r) (dK sk))"
  define S where "S = (\<lambda>n. fold (\<lambda>r. enc_round (ek (r + 1))) [0..<n] (load_state b (eK sk)))"
  define D where "D = (\<lambda>n ct. fold (\<lambda>r. dec_round (dk (r + 1))) [0..<n] (load_state ct (dK sk)))"
  let ?N = "Nr sk" and ?ct = "psAesEncryptBlock sk b"
  have ct: "?ct = store_state (add_key (ek ?N) (shift_rows sub_row (S (?N - 1))))"
    by (simp add: psAesEncryptBlock_def round_steps(2) S_def ek_def)
  have S: "S (Suc m) = add_key (ek (Suc m)) (each_word mix_columns (shift_rows sub_row (S m)))" for m by (simp add: S_def round_steps(1))
  have D: "D n ?ct = shift_rows sub_row (S (?N - 1 - n))" if "n \<le> ?N - 1" for n
    using that
  proof (induction n)
    case 0
    show ?case using key_ok_ends(1) [OF ok]
      by (simp add: D_def ct load_store_state add_key_twice ek_def)
  next
    case (Suc n)
    let ?m = "?N - 1 - Suc n"
    have m: "?N - 1 - n = Suc ?m" "?N - Suc n = Suc ?m" using Suc.prems by simp_all
    have k: "dk (Suc n) ! c = inv_mix_columns (ek (Suc ?m) ! c)" if "c < 4" for c
      using key_ok_mixed [OF ok _ _ that, of "Suc n"] Suc.prems unfolding ek_def dk_def m(2) by simp
    have "D (Suc n) ?ct = dec_round (dk (Suc n)) (D n ?ct)" by (simp add: D_def)
    also have "\<dots> = add_key (dk (Suc n)) (each_word inv_mix_columns (S (Suc ?m)))"
      using Suc unfolding m(1) by (simp add: round_steps(3) inv_shift_rows)
    also have "\<dots> = each_word inv_mix_columns (add_key (ek (Suc ?m)) (S (Suc ?m)))" using k by (rule each_add_key)
    also have "\<dots> = shift_rows sub_row (S ?m)" by (simp add: S add_key_twice inv_mix_each)
    finally show ?case .
  qed
  have "psAesDecryptBlock sk ?ct = store_state (add_key (dk ?N) (inv_shift inv_sub_row (D (?N - 1) ?ct)))"
    by (simp add: psAesDecryptBlock_def round_steps(4) D_def dk_def)
  also have "\<dots> = store_state (add_key (eK sk) (load_state b (eK sk)))"
    using key_ok_ends(2) [OF ok] by (simp add: D inv_shift_rows dk_def S_def)
  also have "\<dots> = b" by (rule store_load_state [OF b])
  finally show ?thesis .
qed

section \<open>The keys that are made\<close>

lemma length_expand:
  "length (expand16 i ek) = length ek + 4" "length (expand24 i ek) = length ek + (if i + 1 = 8 then 4 else 6)"
  "length (expand32 i ek) = length ek + (if i + 1 = 7 then 4 else 8)"
  by (simp_all add: expand16_def expand24_def expand32_def Let_def)

lemma length_forward_key:
  "length k = 16 \<Longrightarrow> length (forward_key k) = 44" "length k = 24 \<Longrightarrow> length (forward_key k) = 52"
  "length k = 32 \<Longrightarrow> length (forward_key k) = 60"
  by (simp_all add: forward_key_def key_words_def length_expand upt_rec_numeral upt_conv_Cons)

lemma concat_nth4:
  "(\<And>x. x \<in> set xs \<Longrightarrow> length (g x) = 4) \<Longrightarrow> i < length xs \<Longrightarrow> c < 4 \<Longrightarrow> concat (map g xs) ! (4 * i + c) = g (xs ! i) ! c"
proof (induction xs arbitrary: i)
  case (Cons x xs)
  show ?case
  proof (cases i)
    case (Suc j)
    then have "concat (map g (x # xs)) ! (4 * i + c) = concat (map g xs) ! (4 * j + c)"
      using Cons.prems(1) [of x] by (simp add: nth_append)
    with Suc Cons show ?thesis by simp
  qed (use Cons.prems(1) [of x] Cons.prems(3) in \<open>simp add: nth_append\<close>)
qed simp

lemma inverse_key_nth:
  assumes "length ek = 4 * (nr + 1)" "i \<le> nr" "c < 4"
  shows "inverse_key nr (4 * (nr + 1)) ek ! (4 * i + c) =
    (if 0 < i \<and> i < nr then inv_mix_columns else (\<lambda>w. w)) (ek ! (4 * (nr - i) + c))"
    and "length (inverse_key nr (4 * (nr + 1)) ek) = 4 * (nr + 1)"
proof -
  let ?g = "\<lambda>i. let rrk = take 4 (drop (4 * (nr + 1) - 4 - 4 * i) ek) in if 0 < i \<and> i < nr then map setup_mix2 rrk else rrk"
  have l: "length (?g x) = 4" if "x \<in> set [0..<nr + 1]" for x using that assms(1) by (auto simp: Let_def min_def)
  have "inverse_key nr (4 * (nr + 1)) ek ! (4 * i + c) = ?g ([0..<nr + 1] ! i) ! c"
    unfolding inverse_key_def by (rule concat_nth4 [OF l]) (use assms in auto)
  also have "[0..<nr + 1] ! i = i" using assms(2) by (subst nth_upt) simp_all
  also have "?g i ! c = (if 0 < i \<and> i < nr then inv_mix_columns else (\<lambda>w. w)) (ek ! (4 * (nr - i) + c))"
    using assms by (simp add: Let_def setup_mix2_inv_mix diff_mult_distrib2)
  finally show "inverse_key nr (4 * (nr + 1)) ek ! (4 * i + c) =
    (if 0 < i \<and> i < nr then inv_mix_columns else (\<lambda>w. w)) (ek ! (4 * (nr - i) + c))" .
  have "sum_list (map (length \<circ> ?g) [0..<nr + 1]) = sum_list (map (\<lambda>_. 4) [0..<nr + 1])"
    by (rule arg_cong [where f = sum_list], rule map_cong) (use l in auto)
  then show "length (inverse_key nr (4 * (nr + 1)) ek) = 4 * (nr + 1)"
    unfolding inverse_key_def by (simp add: length_concat sum_list_triv del: upt_Suc)
qed

lemma psAesInitKey_accepts: "length k \<in> {16, 24, 32} \<Longrightarrow> \<exists>sk. psAesInitKey k = Some sk"
  by (auto simp: psAesInitKey_def Let_def)

lemma psAesInitKey_ok:
  assumes "psAesInitKey k = Some sk"
  shows "key_ok sk" "Nr sk \<in> {10, 12, 14}"
proof -
  define nr where "nr = 10 + (length k div 8 - 2) * 2"
  have k: "length k = 16 \<or> length k = 24 \<or> length k = 32" using assms by (auto simp: psAesInitKey_def split: if_splits)
  have j: "(if length k = 16 then 44 else if length k = 24 then 52 else 60) = 4 * (nr + 1)"
    and n: "nr \<in> {10, 12, 14}" using k by (auto simp: nr_def)
  have ek: "length (forward_key k) = 4 * (nr + 1)" using k length_forward_key [of k] by (auto simp: nr_def)
  let ?ek = "forward_key k" and ?dk = "inverse_key nr (4 * (nr + 1)) (forward_key k)"
  have sk: "sk = \<lparr>eK = ?ek @ replicate (64 - length ?ek) 0, dK = ?dk @ replicate (64 - length ?dk) 0, Nr = nr\<rparr>"
    using assms k unfolding psAesInitKey_def Let_def j nr_def [symmetric] by auto
  note dk = inverse_key_nth(2) [OF ek, of 0 0, simplified]
  have "?dk ! (4 * i + c) = (if 0 < i \<and> i < nr then inv_mix_columns else (\<lambda>w. w)) (?ek ! (4 * (nr - i) + c))"
    if "i \<le> nr" "c < 4" for i c by (rule inverse_key_nth(1) [OF ek that])
  moreover have "4 * i + c < 4 * (nr + 1)" "4 * (nr - i) + c < 4 * (nr + 1)" if "i \<le> nr" "c < 4" for i c
    using that by simp_all
  ultimately show "key_ok sk" using n ek dk unfolding key_ok_def sk by (auto simp: nth_append)
  show "Nr sk \<in> {10, 12, 14}" using n by (simp add: sk)
qed

lemma psAes_round_trip:
  assumes "psAesInitKey k = Some sk" "length b = 16"
  shows "length (psAesEncryptBlock sk b) = 16 \<and> psAesDecryptBlock sk (psAesEncryptBlock sk b) = b"
  using dec_enc_block [OF psAesInitKey_ok(1) [OF assms(1)] assms(2)] by (simp add: psAesEncryptBlock_def round_steps(2))

end
