(* ===== verification/Aes_Vector.thy ===== *)
theory Aes_Vector
  imports Matrix_Aes
begin

text \<open>
  The example of the standard (FIPS 197, appendix C.1): the key of 16 bytes, its expansion and the
  states of the ten rounds, one step after the other.
\<close>

lemmas expand_defs = expand16_def setup_mix_def byte_def Te4_0_def Te4_1_def Te4_2_def Te4_3_def Te4_def rcon_def

definition fips_key :: "u8 list" where
  "fips_key = [0x00, 0x01, 0x02, 0x03, 0x04, 0x05, 0x06, 0x07, 0x08, 0x09, 0x0a, 0x0b, 0x0c, 0x0d, 0x0e, 0x0f]"

definition fips_plain :: "u8 list" where
  "fips_plain = [0x00, 0x11, 0x22, 0x33, 0x44, 0x55, 0x66, 0x77, 0x88, 0x99, 0xaa, 0xbb, 0xcc, 0xdd, 0xee, 0xff]"

definition fips_cipher :: "u8 list" where
  "fips_cipher = [0x69, 0xc4, 0xe0, 0xd8, 0x6a, 0x7b, 0x04, 0x30, 0xd8, 0xcd, 0xb7, 0x80, 0x70, 0xb4, 0xc5, 0x5a]"

text \<open>The expanded key and the states between the rounds, as the standard lists them.\<close>

definition fips_words :: "u32 list" where
  "fips_words =
    [0x00010203, 0x04050607, 0x08090a0b, 0x0c0d0e0f, 0xd6aa74fd, 0xd2af72fa, 0xdaa678f1, 0xd6ab76fe,
     0xb692cf0b, 0x643dbdf1, 0xbe9bc500, 0x6830b3fe, 0xb6ff744e, 0xd2c2c9bf, 0x6c590cbf, 0x0469bf41,
     0x47f7f7bc, 0x95353e03, 0xf96c32bc, 0xfd058dfd, 0x3caaa3e8, 0xa99f9deb, 0x50f3af57, 0xadf622aa,
     0x5e390f7d, 0xf7a69296, 0xa7553dc1, 0x0aa31f6b, 0x14f9701a, 0xe35fe28c, 0x440adf4d, 0x4ea9c026,
     0x47438735, 0xa41c65b9, 0xe016baf4, 0xaebf7ad2, 0x549932d1, 0xf0855768, 0x1093ed9c, 0xbe2c974e,
     0x13111d7f, 0xe3944a17, 0xf307a78b, 0x4d2b30c5]"

lemma fips_expand_0: "expand16 0 (take 4 fips_words) = take 8 fips_words"
  by (simp add: fips_words_def expand_defs)

lemma fips_expand_1: "expand16 1 (take 8 fips_words) = take 12 fips_words"
  by (simp add: fips_words_def expand_defs)

lemma fips_expand_2: "expand16 2 (take 12 fips_words) = take 16 fips_words"
  by (simp add: fips_words_def expand_defs)

lemma fips_expand_3: "expand16 3 (take 16 fips_words) = take 20 fips_words"
  by (simp add: fips_words_def expand_defs)

lemma fips_expand_4: "expand16 4 (take 20 fips_words) = take 24 fips_words"
  by (simp add: fips_words_def expand_defs)

lemma fips_expand_5: "expand16 5 (take 24 fips_words) = take 28 fips_words"
  by (simp add: fips_words_def expand_defs)

lemma fips_expand_6: "expand16 6 (take 28 fips_words) = take 32 fips_words"
  by (simp add: fips_words_def expand_defs)

lemma fips_expand_7: "expand16 7 (take 32 fips_words) = take 36 fips_words"
  by (simp add: fips_words_def expand_defs)

lemma fips_expand_8: "expand16 8 (take 36 fips_words) = take 40 fips_words"
  by (simp add: fips_words_def expand_defs)

lemma fips_expand_9: "expand16 9 (take 40 fips_words) = take 44 fips_words"
  by (simp add: fips_words_def expand_defs)

lemma fips_load: "load_state fips_plain fips_words = (0x00102030, 0x40506070, 0x8090a0b0, 0xc0d0e0f0)"
  by (simp add: fips_plain_def fips_words_def load_state_def LOAD32H_def)

lemma fips_round_0: "enc_round (drop 4 fips_words) (0x00102030, 0x40506070, 0x8090a0b0, 0xc0d0e0f0) = (0x89d810e8, 0x855ace68, 0x2d1843d8, 0xcb128fe4)"
  by code_simp

lemma fips_round_1: "enc_round (drop 8 fips_words) (0x89d810e8, 0x855ace68, 0x2d1843d8, 0xcb128fe4) = (0x4915598f, 0x55e5d7a0, 0xdaca94fa, 0x1f0a63f7)"
  by code_simp

lemma fips_round_2: "enc_round (drop 12 fips_words) (0x4915598f, 0x55e5d7a0, 0xdaca94fa, 0x1f0a63f7) = (0xfa636a28, 0x25b339c9, 0x40668a31, 0x57244d17)"
  by code_simp

lemma fips_round_3: "enc_round (drop 16 fips_words) (0xfa636a28, 0x25b339c9, 0x40668a31, 0x57244d17) = (0x24724023, 0x6966b3fa, 0x6ed27532, 0x88425b6c)"
  by code_simp

lemma fips_round_4: "enc_round (drop 20 fips_words) (0x24724023, 0x6966b3fa, 0x6ed27532, 0x88425b6c) = (0xc81677bc, 0x9b7ac93b, 0x25027992, 0xb0261996)"
  by code_simp

lemma fips_round_5: "enc_round (drop 24 fips_words) (0xc81677bc, 0x9b7ac93b, 0x25027992, 0xb0261996) = (0xc62fe109, 0xf75eedc3, 0xcc79395d, 0x84f9cf5d)"
  by code_simp

lemma fips_round_6: "enc_round (drop 28 fips_words) (0xc62fe109, 0xf75eedc3, 0xcc79395d, 0x84f9cf5d) = (0xd1876c0f, 0x79c4300a, 0xb45594ad, 0xd66ff41f)"
  by code_simp

lemma fips_round_7: "enc_round (drop 32 fips_words) (0xd1876c0f, 0x79c4300a, 0xb45594ad, 0xd66ff41f) = (0xfde3bad2, 0x05e5d0d7, 0x3547964e, 0xf1fe37f1)"
  by code_simp

lemma fips_round_8: "enc_round (drop 36 fips_words) (0xfde3bad2, 0x05e5d0d7, 0x3547964e, 0xf1fe37f1) = (0xbd6e7c3d, 0xf2b5779e, 0x0b61216e, 0x8b10b689)"
  by code_simp

lemma fips_last: "enc_last (drop 40 fips_words) (0xbd6e7c3d, 0xf2b5779e, 0x0b61216e, 0x8b10b689) = fips_cipher"
  by code_simp

lemma take_whole: "take 44 fips_words = fips_words"
  by (simp add: fips_words_def)

lemma fips_forward_key: "forward_key fips_key = fips_words"
proof -
  have k: "length fips_key = 16" "key_words fips_key = take 4 fips_words"
    by (simp_all add: fips_key_def key_words_def LOAD32H_def fips_words_def upt_rec_numeral upt_conv_Cons)
  have u: "[0..<10] = [0, 1, 2, 3, 4, 5, 6, 7, 8, 9 :: nat]" by (simp add: upt_rec_numeral upt_conv_Cons)
  show ?thesis unfolding forward_key_def k(2) u
    using k(1) fips_expand_0 fips_expand_1 fips_expand_2 fips_expand_3 fips_expand_4 fips_expand_5 fips_expand_6
      fips_expand_7 fips_expand_8 fips_expand_9 take_whole by simp
qed

definition fips_rounds :: "u32 list \<Rightarrow> aes_state \<Rightarrow> aes_state" where
  "fips_rounds ek s = fold (\<lambda>r. enc_round (drop (4 * (r + 1)) ek)) [0..<9] s"

lemma fips_rounds_run: "fips_rounds fips_words (load_state fips_plain fips_words) = (0xbd6e7c3d, 0xf2b5779e, 0x0b61216e, 0x8b10b689)"
proof -
  have u: "[0..<9] = [0, 1, 2, 3, 4, 5, 6, 7, 8 :: nat]" by (simp add: upt_rec_numeral upt_conv_Cons)
  show ?thesis unfolding fips_rounds_def u fips_load
    using fips_round_0 fips_round_1 fips_round_2 fips_round_3 fips_round_4 fips_round_5 fips_round_6 fips_round_7 fips_round_8
    by simp
qed

text \<open>The words behind the expanded key are not used.\<close>

lemma state_prefix:
  "4 \<le> length ek \<Longrightarrow> load_state b (ek @ r) = load_state b ek"
  "4 * n + 4 \<le> length ek \<Longrightarrow> enc_round (drop (4 * n) (ek @ r)) s = enc_round (drop (4 * n) ek) s"
  "4 * n + 4 \<le> length ek \<Longrightarrow> enc_last (drop (4 * n) (ek @ r)) s = enc_last (drop (4 * n) ek) s"
  unfolding round_steps
  by (auto simp: load_state_def nth_append intro!: add_key_cong arg_cong [where f = store_state])

lemma fips_initialised: "\<exists>dk. psAesInitKey fips_key = Some \<lparr>eK = fips_words @ replicate 20 0, dK = dk, Nr = 10\<rparr>"
proof -
  have "length fips_key = 16" "length fips_words = 44" by (simp_all add: fips_key_def fips_words_def)
  then show ?thesis by (simp add: psAesInitKey_def fips_forward_key Let_def)
qed

lemma fips_encrypts:
  assumes "eK sk = fips_words @ replicate 20 0" "Nr sk = 10"
  shows "psAesEncryptBlock sk fips_plain = fips_cipher"
proof -
  have l: "length fips_words = 44" by (simp add: fips_words_def)
  have "fold (\<lambda>r. enc_round (drop (4 * (r + 1)) (fips_words @ replicate 20 0))) [0..<9] s = fips_rounds fips_words s" for s
    unfolding fips_rounds_def
  proof (rule fold_cong)
    fix r assume "r \<in> set [0..<9 :: nat]"
    then show "enc_round (drop (4 * (r + 1)) (fips_words @ replicate 20 0)) = enc_round (drop (4 * (r + 1)) fips_words)"
      using l by (intro ext state_prefix(2)) simp
  qed simp_all
  then show ?thesis
    using fips_last state_prefix(1) [of fips_words] state_prefix(3) [of 10 fips_words] l
    by (simp add: psAesEncryptBlock_def assms fips_rounds_run)
qed

end
