(* ===== verification/Bano_Creds.thy ===== *)
theory Bano_Creds
  imports Bano_Tools Bano_Config Aes_Vector
begin

text \<open>
  The credentials of the text messages under the block cipher the program is built with: the
  \<open>matrixssl\<close> AES of \<open>Matrix_Aes\<close> is a block cipher, so a library that has it keeps the contract
  \<open>aes_ok\<close>, whatever its sockets and sessions do.
\<close>

interpretation matrix_cipher: block_cipher psAesInitKey psAesEncryptBlock psAesDecryptBlock
  by unfold_locales (use psAes_round_trip in auto)

text \<open>Any library, with the AES of the code.\<close>

definition matrix_aes :: "('s, psAesKey) ssl_lib \<Rightarrow> ('s, psAesKey) ssl_lib" where
  "matrix_aes lib = lib\<lparr>sl_aes_init := psAesInitKey, sl_aes_enc := psAesEncryptBlock, sl_aes_dec := psAesDecryptBlock\<rparr>"

lemma matrix_aes_simps [simp]:
  "sl_aes_init (matrix_aes lib) = psAesInitKey"
  "sl_aes_enc (matrix_aes lib) = psAesEncryptBlock"
  "sl_aes_dec (matrix_aes lib) = psAesDecryptBlock"
  "sl_getenv (matrix_aes lib) = sl_getenv lib"
  "sl_open (matrix_aes lib) = sl_open lib"
  "sl_close (matrix_aes lib) = sl_close lib"
  "sl_inet_addr (matrix_aes lib) = sl_inet_addr lib"
  by (simp_all add: matrix_aes_def)

lemma matrix_aes_ok: "aes_ok (matrix_aes lib)"
  unfolding aes_ok_def matrix_aes_simps by (rule matrix_cipher.block_cipher_axioms)

text \<open>A key buffer of 32 bytes is always accepted: opening never fails on the key.\<close>

lemma matrix_key_accepted:
  assumes "sms_key k = Some buf"
  shows "\<exists>key. psAesInitKey buf = Some key"
  using sms_key_length [OF assms] by (simp add: psAesInitKey_def Let_def)

text \<open>What the tool prints logs in.\<close>

lemma printed_login:
  assumes "aes_ok lib" "8 \<le> ce_W env" "CHR 0x00 \<notin> set l" "CHR 0x00 \<notin> set p"
    and "sms_creds_main lib (ce_W env) h0 i0 [''-e'', l, p] s = Some (Ok, printed, s')"
    and "ce_after env (butlast printed) = [] \<or> 16 \<le> digit_val (hd (ce_after env (butlast printed)))"
    and "apply_sms_pair env \<lparr>pp_key = ''https_creds'', pp_val = butlast printed\<rparr> (si, ms) = (stop, si', ms')"
    and "bano_sms_open lib (ce_W env) g si' t = Some (Ok, h, t')"
  shows "\<not> stop \<and> bytes_str (sms_login h) = l \<and> bytes_str (sms_pass h) = p
    \<and> creds_command lib (ce_W env) h [''-d'', butlast printed] = Some (Ok, ''l='' @ l @ '', p='' @ p @ [newline])"
proof -
  obtain c where c: "bano_string_to_array (ce_W env) (butlast printed) (ce_after env (butlast printed)) BANO_SMS_CREDS_SIZE = Some c"
      "bano_sms_decrypt_creds lib (aes_key h) c = (str_bytes l @ [0], str_bytes p @ [0])"
    by (rule printed_credentials [OF assms(1,2,5,6)]) (blast intro: assms(8))
  obtain d where d: "bano_string_to_array (ce_W env) (butlast printed) [] BANO_SMS_CREDS_SIZE = Some d"
      "bano_sms_decrypt_creds lib (aes_key h) d = (str_bytes l @ [0], str_bytes p @ [0])"
    by (rule printed_credentials [OF assms(1,2,5) disjI1 [OF refl]]) (blast intro: assms(8))
  have "\<not> stop \<and> sms_creds si' = c"
    using assms(7) c(1) by (auto simp: apply_sms_pair_def)
  then show ?thesis
    using bano_sms_open_key(2) [OF assms(8)] c(2) d assms(3,4)
    by (simp add: creds_command_def bano_string_init_with_data_def bytes_str_bytes)
qed

end
