(* ===== verification/Mongoose_Request.thy ===== *)
theory Mongoose_Request
  imports Bano_String
begin

text \<open>
  The requests of the web server, \<open>mongoose\<close>: when a request is complete in the receive buffer, how
  its first line and headers are taken apart, and how a variable of its query or of its body is
  found and decoded (\<open>mongoose.c\<close>). A text stands for its characters up to the terminator; a buffer
  of \<open>recv_iobuf\<close> for its \<open>len\<close> bytes. A result of a C function keeps its code: -1, -2, 0 or a length.
\<close>

section \<open>Characters\<close>

definition c_CR :: char where "c_CR = CHR 0x0D"
definition c_LF :: char where "c_LF = CHR 0x0A"

definition lowercase :: "char \<Rightarrow> int" where
  "lowercase c = (let n = of_char c in int (if 65 \<le> n \<and> n \<le> 90 then n + 32 else n))"

definition c_isxdigit :: "char \<Rightarrow> bool" where
  "c_isxdigit c = (digit_val c < 16)"

definition c_isalnum :: "char \<Rightarrow> bool" where
  "c_isalnum c = (digit_val c < 36)"

definition c_isprint :: "char \<Rightarrow> bool" where
  "c_isprint c = (let n = of_char c :: nat in 32 \<le> n \<and> n \<le> 126)"

definition HEXTOI :: "int \<Rightarrow> int" where
  "HEXTOI x = (if 48 \<le> x \<and> x \<le> 57 then x - 48 else x - 87)"

text \<open>The comparisons that ignore the case: a missing character is the terminator.\<close>

fun mg_strcasecmp :: "string \<Rightarrow> string \<Rightarrow> int" where
  "mg_strcasecmp [] [] = 0"
| "mg_strcasecmp [] (d # ds) = - lowercase d"
| "mg_strcasecmp (c # cs) [] = lowercase c"
| "mg_strcasecmp (c # cs) (d # ds) =
     (let diff = lowercase c - lowercase d in if diff = 0 \<and> c \<noteq> CHR 0x00 then mg_strcasecmp cs ds else diff)"

fun mg_strncasecmp :: "string \<Rightarrow> string \<Rightarrow> nat \<Rightarrow> int" where
  "mg_strncasecmp s t 0 = 0"
| "mg_strncasecmp [] [] (Suc n) = 0"
| "mg_strncasecmp [] (d # ds) (Suc n) = - lowercase d"
| "mg_strncasecmp (c # cs) [] (Suc n) = lowercase c"
| "mg_strncasecmp (c # cs) (d # ds) (Suc n) =
     (let diff = lowercase c - lowercase d in if diff = 0 \<and> c \<noteq> CHR 0x00 then mg_strncasecmp cs ds n else diff)"

section \<open>URL encoding\<close>

text \<open>
  The loop of \<open>mg_url_decode\<close>, with \<open>room\<close> characters left before the terminator: what it writes,
  and what it has not read.
\<close>

fun url_loop :: "bool \<Rightarrow> nat \<Rightarrow> string \<Rightarrow> string \<times> string" where
  "url_loop form 0 s = ([], s)"
| "url_loop form (Suc room) [] = ([], [])"
| "url_loop form (Suc room) (c # s) =
     (if c = CHR ''%'' \<and> 2 \<le> length s \<and> c_isxdigit (s ! 0) \<and> c_isxdigit (s ! 1) then
        let a = lowercase (s ! 0); b = lowercase (s ! 1) in
        apfst ((#) (char_of (or (push_bit 4 (HEXTOI a)) (HEXTOI b)))) (url_loop form room (drop 2 s))
      else if form \<and> c = CHR ''+'' then apfst ((#) (CHR '' '')) (url_loop form room s)
      else apfst ((#) c) (url_loop form room s))"

text \<open>The length, or -1 when the destination of \<open>dst_len\<close> bytes (at least 1) was too small, and what it holds.\<close>

definition mg_url_decode :: "string \<Rightarrow> nat \<Rightarrow> bool \<Rightarrow> int \<times> string" where
  "mg_url_decode src dst_len form =
     (case url_loop form (dst_len - 1) src of (dst, rest) \<Rightarrow> (if rest = [] then int (length dst) else -1, dst))"

text \<open>
  \<open>mg_url_encode\<close> on a destination: its bytes up to the terminator's last place. Where an escape
  does not fit, the byte there is skipped and keeps its old value.
\<close>

fun url_escape :: "string \<Rightarrow> string \<Rightarrow> string" where
  "url_escape (c # s) (d # ds) =
     (if c_isalnum c \<or> c \<in> set ''._-$,;~()'' then c # url_escape s ds
      else if 2 \<le> length ds then
        CHR ''%'' # hexdigit (of_char c div 16) # hexdigit (of_char c mod 16) # url_escape s (drop 2 ds)
      else d # url_escape s ds)"
| "url_escape _ _ = []"

definition mg_url_encode :: "string \<Rightarrow> string \<Rightarrow> nat \<Rightarrow> string" where
  "mg_url_encode src dst dst_len = url_escape src (take (dst_len - 1) dst)"

section \<open>Variables\<close>

text \<open>\<open>start\<close> holds at the beginning and after an ampersand.\<close>

fun find_var :: "string \<Rightarrow> bool \<Rightarrow> string \<Rightarrow> string option" where
  "find_var name start [] = None"
| "find_var name start (c # s) =
     (if length (c # s) \<le> length name then None
      else if start \<and> (c # s) ! length name = CHR ''='' \<and> mg_strncasecmp name (c # s) (length name) = 0
      then Some (drop (length name + 1) (c # s))
      else find_var name (c = CHR ''&'') s)"

text \<open>\<open>dst\<close> is the text of the destination before, which is not \<open>NULL\<close>; \<open>None\<close> is \<open>NULL\<close> data.\<close>

definition get_var :: "string option \<Rightarrow> string \<Rightarrow> string \<Rightarrow> nat \<Rightarrow> int \<times> string" where
  "get_var data name dst dst_len =
     (if dst_len = 0 then (-2, dst)
      else if data = None \<or> data = Some [] then (-1, [])
      else case find_var name True (the data) of
        None \<Rightarrow> (-1, [])
      | Some p \<Rightarrow>
        (case mg_url_decode (takeWhile (\<lambda>c. c \<noteq> CHR ''&'') p) dst_len True of
           (len, d) \<Rightarrow> (if len = -1 then -2 else len, d)))"

text \<open>\<open>http_headers\<close> holds the \<open>num_headers\<close> first ones. \<open>content\<close> is the receive buffer the pointer is set to.\<close>

record mg_connection =
  request_method :: string
  uri :: string
  http_version :: string
  query_string :: "string option"
  http_headers :: "(string \<times> string) list"
  content :: string
  content_len :: nat
  is_websocket :: bool
  status_code :: int

definition mg_get_var :: "mg_connection \<Rightarrow> string \<Rightarrow> string \<Rightarrow> nat \<Rightarrow> int \<times> string" where
  "mg_get_var conn name dst dst_len =
     (case get_var (query_string conn) name dst dst_len of (len, dst1) \<Rightarrow>
       if len < 0 then get_var (Some (take (content_len conn) (content conn))) name dst1 dst_len
       else (len, dst1))"

section \<open>The head of a request\<close>

fun request_len_from :: "int \<Rightarrow> string \<Rightarrow> int" where
  "request_len_from i [] = 0"
| "request_len_from i (c # s) =
     (if \<not> c_isprint c \<and> c \<noteq> c_CR \<and> c \<noteq> c_LF \<and> of_char c < (128 :: nat) then -1
      else if c = c_LF \<and> 1 \<le> length s \<and> s ! 0 = c_LF then i + 2
      else if c = c_LF \<and> 2 \<le> length s \<and> s ! 0 = c_CR \<and> s ! 1 = c_LF then i + 3
      else request_len_from (i + 1) s)"

definition get_request_len :: "string \<Rightarrow> int" where
  "get_request_len s = request_len_from 0 s"

text \<open>The word before the delimiters, and the text after them.\<close>

definition skip :: "string \<Rightarrow> string \<Rightarrow> string \<times> string" where
  "skip buf delimiters =
     (takeWhile (\<lambda>c. c \<notin> set delimiters) buf,
      dropWhile (\<lambda>c. c \<in> set delimiters) (dropWhile (\<lambda>c. c \<notin> set delimiters) buf))"

fun parse_http_headers :: "nat \<Rightarrow> string \<Rightarrow> (string \<times> string) list" where
  "parse_http_headers 0 buf = []"
| "parse_http_headers (Suc n) buf =
     (case skip buf '': '' of (name, buf1) \<Rightarrow>
      case skip buf1 [c_CR, c_LF] of (val, buf2) \<Rightarrow>
        if name = [] then [] else (name, val) # parse_http_headers n buf2)"

definition is_valid_http_method :: "string \<Rightarrow> bool" where
  "is_valid_http_method s =
     (s \<in> set [''GET'', ''POST'', ''HEAD'', ''CONNECT'', ''PUT'', ''DELETE'', ''OPTIONS'', ''PROPFIND'', ''MKCOL''])"

text \<open>The slashes, backslashes and double dots that follow a slash or a backslash are removed.\<close>

fun skip_dots :: "string \<Rightarrow> string" where
  "skip_dots [] = []"
| "skip_dots [c] = (if c = CHR ''/'' \<or> c = CHR 0x5C then [] else [c])"
| "skip_dots (c # d # s) =
     (if c = CHR ''/'' \<or> c = CHR 0x5C then skip_dots (d # s)
      else if c = CHR ''.'' \<and> d = CHR ''.'' then skip_dots s
      else c # d # s)"

lemma length_skip_dots: "length (skip_dots s) \<le> length s"
  by (induction s rule: skip_dots.induct) (force simp del: One_nat_def)+

function remove_double_dots_and_double_slashes :: "string \<Rightarrow> string" where
  "remove_double_dots_and_double_slashes [] = []"
| "remove_double_dots_and_double_slashes (c # s) =
     c # remove_double_dots_and_double_slashes (if c = CHR ''/'' \<or> c = CHR 0x5C then skip_dots s else s)"
  by pat_completeness auto
termination
  by (relation "measure length") (auto simp: le_imp_less_Suc length_skip_dots)

text \<open>
  \<open>buf\<close> has \<open>len\<close> bytes, the last one is overwritten by a terminator. The 30 places of the array of
  headers are the bound of the loop of \<open>parse_http_headers\<close>. \<open>memcmp\<close> with the five characters of
  \<open>HTTP/\<close> is decided at the terminator at the latest, so it is the comparison of a prefix.
\<close>

definition parse_http_message :: "string \<Rightarrow> int \<Rightarrow> mg_connection \<Rightarrow> int \<times> mg_connection" where
  "parse_http_message buf len ri =
     (let buf0 = dropWhile c_isspace (c_str (take (nat len - 1) buf)) in
      case skip buf0 '' '' of (meth, buf1) \<Rightarrow>
      case skip buf1 '' '' of (u, buf2) \<Rightarrow>
      case skip buf2 [c_CR, c_LF] of (version, buf3) \<Rightarrow>
      let is_request = is_valid_http_method meth;
          ri0 = ri\<lparr>request_method := meth, uri := u, http_version := version, query_string := None,
                   http_headers := [], status_code := 0, is_websocket := False, content_len := 0\<rparr> in
      if is_request \<and> take 5 version \<noteq> ''HTTP/'' \<or> \<not> is_request \<and> take 5 meth \<noteq> ''HTTP/'' then (-1, ri0)
      else
        let u1 = takeWhile (\<lambda>c. c \<noteq> CHR ''?'') u;
            decoded = c_str (snd (mg_url_decode u1 (length u1 + 1) False)) in
        (len, ri0\<lparr>http_version := (if is_request then drop 5 version else version),
                  http_headers := parse_http_headers 30 buf3,
                  query_string := (if CHR ''?'' \<in> set u then Some (drop (length u1 + 1) u) else None),
                  uri := remove_double_dots_and_double_slashes decoded\<rparr>))"

fun find_header :: "(string \<times> string) list \<Rightarrow> string \<Rightarrow> string option" where
  "find_header [] s = None"
| "find_header ((name, val) # hs) s = (if mg_strcasecmp s name = 0 then Some val else find_header hs s)"

definition mg_get_header :: "mg_connection \<Rightarrow> string \<Rightarrow> string option" where
  "mg_get_header ri s = find_header (http_headers ri) s"

text \<open>\<open>strtoll\<close> in base 10: a value that does not fit is the nearest one that does.\<close>

definition to64 :: "string \<Rightarrow> int" where
  "to64 s =
     (case strtoul_sign (dropWhile c_isspace s) of (neg, s1) \<Rightarrow>
       let v = int (digits_val 10 0 s1) in
       if neg then max (- (2 ^ 63)) (- v) else min (2 ^ 63 - 1) v)"

definition is_valid_uri :: "string \<Rightarrow> bool" where
  "is_valid_uri u = (take 1 u = ''/'' \<or> u = ''*'')"

section \<open>A connection\<close>

datatype endpoint_type = EP_NONE | EP_FILE | EP_CGI | EP_USER | EP_PUT | EP_CLIENT

record connection =
  endpoint :: endpoint_type
  request_len :: int
  conn_cl :: int
  recv_iobuf :: string
  mg_conn :: mg_connection

text \<open>\<open>W\<close> is the width of \<open>size_t\<close>. There is memory for the copy of the head.\<close>

definition try_parse :: "nat \<Rightarrow> connection \<Rightarrow> connection" where
  "try_parse W conn =
     (if request_len conn \<noteq> 0 then conn
      else
        let n = get_request_len (recv_iobuf conn) in
        if n \<le> 0 then conn\<lparr>request_len := n\<rparr>
        else
          let io = recv_iobuf conn in
          case parse_http_message (take (nat n) io) n (mg_conn conn) of (len, ri) \<Rightarrow>
            let conn1 = conn\<lparr>recv_iobuf := drop (nat n) io, request_len := len, mg_conn := ri\<rparr> in
            if len > 0 then
              let conn_cl' = (case mg_get_header ri ''Content-Length'' of None \<Rightarrow> 0 | Some h \<Rightarrow> to64 h) in
              conn1\<lparr>conn_cl := conn_cl', mg_conn := ri\<lparr>content_len := nat (conn_cl' mod 2 ^ W)\<rparr>\<rparr>
            else conn1)"

text \<open>The handler is called when the body is in the buffer, with the buffer as its content.\<close>

definition data_is_buffered :: "connection \<Rightarrow> bool" where
  "data_is_buffered conn = (length (recv_iobuf conn) \<ge> content_len (mg_conn conn))"

definition request_handler_conn :: "connection \<Rightarrow> mg_connection" where
  "request_handler_conn conn = (mg_conn conn)\<lparr>content := recv_iobuf conn\<rparr>"

text \<open>Which branch \<open>process_request\<close> takes for what \<open>try_parse\<close> has left.\<close>

definition MAX_REQUEST_SIZE :: nat where "MAX_REQUEST_SIZE = 16384"

datatype verdict = Send_http_error nat | Open_local_endpoint | No_new_request

definition process_verdict :: "connection \<Rightarrow> verdict" where
  "process_verdict conn =
     (if request_len conn < 0 \<or> request_len conn > 0 \<and> \<not> is_valid_uri (uri (mg_conn conn)) then Send_http_error 400
      else if request_len conn = 0 \<and> length (recv_iobuf conn) > MAX_REQUEST_SIZE then Send_http_error 413
      else if request_len conn > 0 \<and> http_version (mg_conn conn) \<noteq> ''1.0'' \<and> http_version (mg_conn conn) \<noteq> ''1.1''
      then Send_http_error 505
      else if request_len conn > 0 \<and> endpoint conn = EP_NONE then Open_local_endpoint
      else No_new_request)"

section \<open>Decoding undoes encoding\<close>

lemma of_char_inj: "of_char c = (of_char d :: nat) \<longleftrightarrow> c = d"
  by (rule of_char_eq_iff)

lemma lowercase_0: "lowercase c = 0 \<longleftrightarrow> c = CHR 0x00"
  using of_char_inj [of c "CHR 0x00"] by (auto simp: lowercase_def Let_def)

lemma lowercase_nonneg: "0 \<le> lowercase c"
  by (simp add: lowercase_def Let_def)

lemma lowercase_other:
  assumes "lowercase c = lowercase d" "\<not> c_isalnum d"
  shows "c = d"
proof -
  define m n :: nat where "m = of_char c" and "n = of_char d"
  have "\<not> (65 \<le> n \<and> n \<le> 90)" "\<not> (97 \<le> n \<and> n \<le> 122)"
    using assms(2) unfolding c_isalnum_def digit_val_def Let_def n_def by (auto split: if_splits)
  moreover have "(if 65 \<le> m \<and> m \<le> 90 then m + 32 else m) = (if 65 \<le> n \<and> n \<le> 90 then n + 32 else n)"
    using assms(1) unfolding lowercase_def Let_def m_def n_def by (simp only: of_nat_eq_iff)
  ultimately have "m = n" by (auto split: if_splits)
  then show ?thesis by (simp add: m_def n_def of_char_inj)
qed

lemma of_char_small: "n < 256 \<Longrightarrow> of_char (char_of n) = n" for n :: nat
  by simp

lemma HEXTOI_hexdigit:
  assumes "d < 16"
  shows "HEXTOI (lowercase (hexdigit d)) = int d"
proof -
  have "of_char (hexdigit d) = (if d < 10 then 48 + d else 87 + d)"
    using assms unfolding hexdigit_def by simp
  then show ?thesis using assms by (simp add: HEXTOI_def lowercase_def Let_def)
qed

lemma or_nibbles:
  assumes "l < 16"
  shows "or (push_bit 4 (int h)) (int l) = int (16 * h + l)"
proof -
  have l: "take_bit 4 (int l) = int l" using assms by (simp add: take_bit_eq_mod)
  have "and (push_bit 4 (int h)) (take_bit 4 (int l)) = 0"
    by (rule bit_eqI) (auto simp: bit_and_iff bit_push_bit_iff bit_take_bit_iff)
  then have "push_bit 4 (int h) + int l = or (push_bit 4 (int h)) (int l)"
    unfolding l by (rule disjunctive_add_eq_or)
  then show ?thesis by (simp add: push_bit_eq_mult)
qed

lemma alnum_or_not:
  "c_isalnum (hexdigit d)" "c_isxdigit (hexdigit d)" if "d < 16"
  using of_char_hexdigit [OF that] that by (simp_all add: c_isalnum_def c_isxdigit_def)

lemma url_loop_Nil [simp]: "url_loop form room [] = ([], [])"
  by (cases room) simp_all

lemma url_escape_decode:
  assumes "3 * length s \<le> length ds"
  shows "length s \<le> room \<Longrightarrow> url_loop form room (url_escape s ds) = (s, [])"
  using assms
proof (induction s ds arbitrary: room rule: url_escape.induct)
  case (1 c s d ds)
  then obtain r where r: "room = Suc r" by (cases room) auto
  show ?case
  proof (cases "c_isalnum c \<or> c \<in> set ''._-$,;~()''")
    case True
    then have n: "c \<noteq> CHR ''%''" "c \<noteq> CHR ''+''" by (auto simp: c_isalnum_def digit_val_def)
    have "3 * length s \<le> length ds" "length s \<le> r" using 1 r by auto
    from "1.IH"(1) [OF True this(2,1)] True n show ?thesis by (simp add: r)
  next
    case False
    have l: "2 \<le> length ds" "3 * length s \<le> length (drop 2 ds)" "length s \<le> r" using 1 r by auto
    have c: "(of_char c :: nat) < 256" by simp
    then have h: "of_char c div 16 < (16 :: nat)" "of_char c mod 16 < (16 :: nat)"
      by (auto intro: div_less_iff_less_mult [THEN iffD2])
    have e: "char_of (or (push_bit 4 (int (of_char c div 16))) (int (of_char c mod 16))) = c"
      unfolding or_nibbles [OF h(2)] by simp
    from "1.IH"(2) [OF False l(1,3,2)] False l(1) alnum_or_not(2) [OF h(1)] alnum_or_not(2) [OF h(2)]
    show ?thesis by (simp add: r Let_def HEXTOI_hexdigit [OF h(1)] HEXTOI_hexdigit [OF h(2)] e numeral_2_eq_2)
  qed
qed simp_all

lemma mg_url_round_trip:
  assumes "3 * length s < elen" "elen \<le> length dst" "length s < dlen"
  shows "mg_url_decode (mg_url_encode s dst elen) dlen form = (int (length s), s)"
proof -
  have "url_loop form (dlen - 1) (url_escape s (take (elen - 1) dst)) = (s, [])"
    by (rule url_escape_decode) (use assms in auto)
  then show ?thesis by (simp add: mg_url_decode_def mg_url_encode_def)
qed
section \<open>Variables\<close>

lemma strcase_0:
  assumes "CHR 0x00 \<notin> set s" "CHR 0x00 \<notin> set t"
  shows "mg_strcasecmp s t = 0 \<longleftrightarrow> map lowercase s = map lowercase t"
  using assms by (induction s t rule: mg_strcasecmp.induct) (auto simp: Let_def lowercase_0)

lemma strncase_0:
  assumes "CHR 0x00 \<notin> set s"
  shows "mg_strncasecmp s t (length s) = 0 \<longleftrightarrow> map lowercase s = map lowercase (take (length s) t)"
  using assms
proof (induction s arbitrary: t)
  case (Cons c s)
  then show ?case by (cases t) (auto simp: Let_def lowercase_0)
qed simp

text \<open>The text of a form: pairs joined by ampersands.\<close>

fun form_data :: "(string \<times> string) list \<Rightarrow> string" where
  "form_data [] = []"
| "form_data [(k, v)] = k @ CHR ''='' # v"
| "form_data ((k, v) # kvs) = k @ CHR ''='' # v @ CHR ''&'' # form_data kvs"

definition form_name :: "string \<Rightarrow> bool" where
  "form_name k \<longleftrightarrow> list_all (\<lambda>c. c \<noteq> CHR ''='' \<and> c \<noteq> CHR ''&'' \<and> c \<noteq> CHR 0x00) k"

lemma form_name_nul: "form_name k \<Longrightarrow> CHR 0x00 \<notin> set k"
  by (auto simp: form_name_def list_all_iff)

lemma find_var_at_name:
  assumes "form_name name" "form_name k"
  shows "(length name < length (k @ CHR ''='' # r) \<and> (k @ CHR ''='' # r) ! length name = CHR ''=''
      \<and> mg_strncasecmp name (k @ CHR ''='' # r) (length name) = 0) \<longleftrightarrow> mg_strcasecmp name k = 0"
proof -
  let ?p = "k @ CHR ''='' # r"
  note [simp] = strncase_0 [OF form_name_nul [OF assms(1)]] strcase_0 [OF assms [THEN form_name_nul]]
  have eq: "CHR ''='' \<notin> set name" "CHR ''='' \<notin> set k" using assms by (auto simp: form_name_def list_all_iff)
  consider "length name < length k" | "length name = length k" | "length k < length name" by linarith
  then show ?thesis
  proof cases
    case 1
    then have "?p ! length name \<in> set k" by (simp add: nth_append)
    with eq(2) have "?p ! length name \<noteq> CHR ''=''" by metis
    moreover have "map lowercase name \<noteq> map lowercase k" using 1 by (metis length_map less_irrefl)
    ultimately show ?thesis by simp
  next
    case 3
    have "map lowercase name \<noteq> map lowercase (take (length name) ?p)"
    proof
      assume "map lowercase name = map lowercase (take (length name) ?p)"
      then have "map lowercase name ! length k = map lowercase (take (length name) ?p) ! length k" by (rule arg_cong)
      moreover have "length k < length (take (length name) ?p)" using 3 by simp
      ultimately have "lowercase (name ! length k) = lowercase (CHR ''='')" using 3 by (simp add: nth_append)
      then have "name ! length k = CHR ''=''" by (rule lowercase_other) (simp add: c_isalnum_def digit_val_def)
      with 3 eq(1) show False by (metis nth_mem)
    qed
    moreover have "map lowercase name \<noteq> map lowercase k" using 3 by (metis length_map less_irrefl)
    ultimately show ?thesis by simp
  next
    case 2
    then show ?thesis using strncase_0 [OF form_name_nul [OF assms(1)], of ?p] by simp
  qed
qed

lemma find_var_short: "length s \<le> length name \<Longrightarrow> find_var name b s = None"
  by (cases s) simp_all

lemma find_var_skip:
  assumes "CHR ''&'' \<notin> set s"
  shows "find_var name False (s @ CHR ''&'' # r) = find_var name True r"
  using assms by (induction s) (auto simp: find_var_short)

lemma find_var_none: "CHR ''&'' \<notin> set s \<Longrightarrow> find_var name False s = None"
  by (induction s) auto

lemma find_var_cases:
  "find_var name b p =
    (if length name < length p \<and> p ! length name = CHR ''='' \<and> mg_strncasecmp name p (length name) = 0 \<and> b
     then Some (drop (length name + 1) p) else find_var name False p)"
  by (cases p) auto

lemma strcase_length: "form_name s \<Longrightarrow> form_name t \<Longrightarrow> mg_strcasecmp s t = 0 \<Longrightarrow> length s = length t"
  using strcase_0 [OF form_name_nul form_name_nul] by (metis length_map)

lemma find_var_pair:
  assumes "form_name name" "form_name k"
  shows "find_var name True (k @ CHR ''='' # r) =
    (if mg_strcasecmp name k = 0 then Some r else find_var name False (k @ CHR ''='' # r))"
  unfolding find_var_cases [of name True] using find_var_at_name [OF assms, of r] strcase_length [OF assms] by auto

lemma form_data_Cons: "kvs \<noteq> [] \<Longrightarrow> form_data ((k, v) # kvs) = (k @ CHR ''='' # v) @ CHR ''&'' # form_data kvs"
  by (cases kvs) simp_all

lemma find_var_form:
  assumes "form_name name" "list_all (\<lambda>(k, v). form_name k \<and> CHR ''&'' \<notin> set v) kvs"
  shows "map_option (takeWhile (\<lambda>c. c \<noteq> CHR ''&'')) (find_var name True (form_data kvs)) = find_header kvs name"
  using assms(2)
proof (induction kvs)
  case (Cons kv kvs)
  obtain k v where kv: "kv = (k, v)" by (cases kv)
  have k: "form_name k" "CHR ''&'' \<notin> set v" using Cons.prems kv by auto
  then have amp: "CHR ''&'' \<notin> set (k @ CHR ''='' # v)" by (auto simp: form_name_def list_all_iff)
  have t: "takeWhile (\<lambda>c. c \<noteq> CHR ''&'') v = v" using k(2) by (auto simp: takeWhile_eq_all_conv)
  have t': "takeWhile (\<lambda>c. c \<noteq> CHR ''&'') (v @ CHR ''&'' # r) = v" for r using k(2) by (subst takeWhile_append2) auto
  show ?case
  proof (cases "kvs = []")
    case True
    then show ?thesis using find_var_pair [OF assms(1) k(1), of v] find_var_none [OF amp] t by (simp add: kv)
  next
    case False
    have "find_var name False ((k @ CHR ''='' # v) @ CHR ''&'' # form_data kvs) = find_var name True (form_data kvs)"
      by (rule find_var_skip [OF amp])
    then show ?thesis using find_var_pair [OF assms(1) k(1), of "v @ CHR ''&'' # form_data kvs"] Cons t'
      by (simp add: kv form_data_Cons [OF False])
  qed
qed simp

text \<open>A variable of a form is the first pair of its name, decoded.\<close>

definition form_var :: "(string \<times> string) list \<Rightarrow> string \<Rightarrow> nat \<Rightarrow> int \<times> string" where
  "form_var kvs name dst_len =
     (case find_header kvs name of
        None \<Rightarrow> (-1, [])
      | Some v \<Rightarrow> (case mg_url_decode v dst_len True of (len, d) \<Rightarrow> (if len = -1 then -2 else len, d)))"

lemma get_var_form:
  assumes "form_name name" "list_all (\<lambda>(k, v). form_name k \<and> CHR ''&'' \<notin> set v) kvs" "0 < dst_len"
  shows "get_var (Some (form_data kvs)) name dst dst_len = form_var kvs name dst_len"
proof (cases "form_data kvs = []")
  case True
  then have "kvs = []" by (cases kvs rule: form_data.cases) auto
  with assms(3) show ?thesis by (simp add: get_var_def form_var_def)
next
  case False
  then show ?thesis using find_var_form [OF assms(1,2)] assms(3)
    by (auto simp: get_var_def form_var_def split: option.splits)
qed

section \<open>A request as a text\<close>

definition crlf :: string where "crlf = [c_CR, c_LF]"

text \<open>The lines of a head, and the empty line that ends it.\<close>

definition head_text :: "string list \<Rightarrow> string" where
  "head_text ls = concat (map (\<lambda>l. l @ crlf) ls) @ crlf"

definition plain_text :: "string \<Rightarrow> bool" where
  "plain_text s \<longleftrightarrow> list_all c_isprint s"

lemma c_isprint_not: "c_isprint c \<Longrightarrow> c \<noteq> c_CR \<and> c \<noteq> c_LF \<and> c \<noteq> CHR 0x00"
  by (auto simp: c_isprint_def c_CR_def c_LF_def Let_def)

lemma c_CR_LF: "c_CR \<noteq> c_LF" "c_LF \<noteq> c_CR" "c_CR \<noteq> CHR 0x00" "c_LF \<noteq> CHR 0x00"
  by (simp_all add: c_CR_def c_LF_def)

lemma request_len_plain:
  assumes "plain_text s"
  shows "request_len_from i (s @ t) = request_len_from (i + int (length s)) t"
  using assms
proof (induction s arbitrary: i)
  case (Cons c s)
  then show ?case using c_isprint_not [of c] by (simp add: plain_text_def ac_simps)
qed simp

lemma request_len_crlf:
  assumes "t = c_CR # c_LF # b \<or> (\<exists>c t'. t = c # t' \<and> c_isprint c)"
  shows "request_len_from i (c_CR # c_LF # t) = (if \<exists>c t'. t = c # t' \<and> c_isprint c then request_len_from (i + 2) t else i + 4)"
  using assms c_isprint_not c_CR_LF by (auto simp: numeral_2_eq_2 [symmetric])

lemma request_len_head:
  assumes "ls \<noteq> []" "list_all (\<lambda>l. l \<noteq> [] \<and> plain_text l) ls"
  shows "request_len_from i (head_text ls @ body) = i + int (length (head_text ls))"
  using assms
proof (induction ls arbitrary: i)
  case (Cons l ls)
  have l: "plain_text l" "l \<noteq> []" using Cons.prems by auto
  have "request_len_from i (head_text (l # ls) @ body) = request_len_from (i + int (length l)) (c_CR # c_LF # head_text ls @ body)"
    using request_len_plain [OF l(1), of i] by (simp add: head_text_def crlf_def)
  moreover have "request_len_from j (c_CR # c_LF # head_text ls @ body) = j + 2 + int (length (head_text ls))" for j
  proof (cases ls)
    case Nil
    then show ?thesis using c_isprint_not c_CR_LF by (auto simp: head_text_def crlf_def)
  next
    case (Cons m ms)
    then have "\<exists>c t'. head_text ls @ body = c # t' \<and> c_isprint c"
      using Cons.prems by (cases m) (auto simp: head_text_def plain_text_def)
    then show ?thesis using request_len_crlf [of "head_text ls @ body" body j] Cons.IH [of "j + 2"] Cons.prems Cons by auto
  qed
  ultimately show ?case by (simp add: head_text_def crlf_def)
qed simp

lemma skip_word:
  assumes "list_all (\<lambda>c. c \<notin> set d) w" "list_all (\<lambda>c. c \<in> set d) ds" "ds \<noteq> []" "r = [] \<or> hd r \<notin> set d"
  shows "skip (w @ ds @ r) d = (w, r)"
proof -
  have "takeWhile (\<lambda>c. c \<notin> set d) (w @ ds @ r) = w" "dropWhile (\<lambda>c. c \<notin> set d) (w @ ds @ r) = ds @ r"
    using assms by (cases ds; auto simp: list_all_iff takeWhile_append2 dropWhile_append2)+
  moreover have "dropWhile (\<lambda>c. c \<in> set d) (ds @ r) = r"
    using assms(2,4) by (subst dropWhile_append2) (auto simp: list_all_iff dropWhile_eq_self_iff)
  ultimately show ?thesis by (simp add: skip_def)
qed

definition header_ok :: "string \<times> string \<Rightarrow> bool" where
  "header_ok h \<longleftrightarrow> fst h \<noteq> [] \<and> plain_text (fst h) \<and> CHR '':'' \<notin> set (fst h) \<and> CHR '' '' \<notin> set (fst h)
     \<and> plain_text (snd h) \<and> (snd h = [] \<or> hd (snd h) \<noteq> CHR '':'' \<and> hd (snd h) \<noteq> CHR '' '')"

definition header_line :: "string \<times> string \<Rightarrow> string" where
  "header_line h = fst h @ '': '' @ snd h"

lemma plain_no_crlf: "plain_text s \<Longrightarrow> list_all (\<lambda>c. c \<notin> set [c_CR, c_LF]) s"
  using c_isprint_not by (auto simp: plain_text_def list_all_iff)

lemma hd_plain: "plain_text s \<Longrightarrow> s \<noteq> [] \<Longrightarrow> hd s \<noteq> c_CR \<and> hd s \<noteq> c_LF"
  using c_isprint_not by (cases s) (auto simp: plain_text_def)

lemma parse_header_line:
  assumes "header_ok h" "list_all (\<lambda>c. c \<in> set [c_CR, c_LF]) ds" "ds \<noteq> []" "r = [] \<or> hd r \<noteq> c_CR \<and> hd r \<noteq> c_LF"
  shows "parse_http_headers (Suc n) (header_line h @ ds @ r) = h # parse_http_headers n r"
proof -
  have h: "fst h \<noteq> []" "CHR '':'' \<notin> set (fst h)" "CHR '' '' \<notin> set (fst h)" using assms(1) by (auto simp: header_ok_def)
  have "\<not> c_isprint c_CR" "\<not> c_isprint c_LF" by (simp_all add: c_isprint_def c_CR_def c_LF_def Let_def)
  then have sep: "CHR '':'' \<noteq> c_CR" "CHR '':'' \<noteq> c_LF" "CHR '' '' \<noteq> c_CR" "CHR '' '' \<noteq> c_LF" by (simp_all add: c_CR_def c_LF_def)
  have "hd (snd h @ ds @ r) \<notin> set '': ''"
    using assms(1,2,3) sep by (cases "snd h"; cases ds) (auto simp: header_ok_def)
  with h have s1: "skip (header_line h @ ds @ r) '': '' = (fst h, snd h @ ds @ r)"
    using skip_word [of "'': ''" "fst h" "'': ''" "snd h @ ds @ r"] by (auto simp: header_line_def list_all_iff)
  have s2: "skip (snd h @ ds @ r) [c_CR, c_LF] = (snd h, r)"
    using plain_no_crlf [of "snd h"] assms by (intro skip_word) (auto simp: header_ok_def)
  show ?thesis using h(1) by (simp add: s1 s2)
qed

lemma header_line_plain:
  assumes "header_ok h"
  shows "header_line h \<noteq> []" "plain_text (header_line h)"
  using assms by (auto simp: header_ok_def header_line_def plain_text_def c_isprint_def)

lemma parse_http_headers_Nil [simp]: "parse_http_headers n [] = []"
  by (cases n) (simp_all add: skip_def)

lemma parse_header_lines:
  assumes "list_all header_ok hs" "length hs \<le> n" "hs \<noteq> []"
  shows "parse_http_headers n (concat (map (\<lambda>l. l @ crlf) (map header_line hs)) @ [c_CR]) = hs"
  using assms
proof (induction hs arbitrary: n)
  case (Cons h hs)
  then obtain m where m: "n = Suc m" by (cases n) auto
  have h: "header_ok h" using Cons.prems by simp
  show ?case
  proof (cases hs)
    case Nil
    then show ?thesis using parse_header_line [OF h, of "[c_CR, c_LF, c_CR]" "[]" m] by (simp add: m crlf_def)
  next
    case (Cons h' hs')
    let ?r = "concat (map (\<lambda>l. l @ crlf) (map header_line hs)) @ [c_CR]"
    have "header_ok h'" using Cons.prems Cons by simp
    from header_line_plain [OF this] have "hd ?r \<noteq> c_CR \<and> hd ?r \<noteq> c_LF"
      using hd_plain [of "header_line h'"] Cons by simp
    then show ?thesis using parse_header_line [OF h, of crlf ?r m] Cons.IH [of m] Cons.prems Cons
      by (simp add: m crlf_def)
  qed
qed simp

definition request_line :: "string \<Rightarrow> string \<Rightarrow> string \<Rightarrow> string" where
  "request_line meth u ver = meth @ '' '' @ u @ '' '' @ ''HTTP/'' @ ver"

text \<open>The target of a request: the path and the query.\<close>

definition target_text :: "string \<Rightarrow> string option \<Rightarrow> string" where
  "target_text path query = path @ (case query of None \<Rightarrow> [] | Some q \<Rightarrow> CHR ''?'' # q)"

definition decoded_uri :: "string \<Rightarrow> string" where
  "decoded_uri path = remove_double_dots_and_double_slashes (c_str (snd (mg_url_decode path (length path + 1) False)))"

definition request_ok :: "string \<Rightarrow> string \<Rightarrow> string option \<Rightarrow> string \<Rightarrow> (string \<times> string) list \<Rightarrow> bool" where
  "request_ok meth path query ver hs \<longleftrightarrow>
     is_valid_http_method meth \<and> path \<noteq> [] \<and> plain_text path \<and> CHR '' '' \<notin> set path \<and> CHR ''?'' \<notin> set path
     \<and> (case query of None \<Rightarrow> True | Some q \<Rightarrow> plain_text q \<and> CHR '' '' \<notin> set q)
     \<and> plain_text ver \<and> hs \<noteq> [] \<and> length hs \<le> 30 \<and> list_all header_ok hs"

lemma plain_text_simps [simp]:
  "plain_text []" "plain_text (c # s) \<longleftrightarrow> c_isprint c \<and> plain_text s" "plain_text (s @ t) \<longleftrightarrow> plain_text s \<and> plain_text t"
  by (auto simp: plain_text_def)

lemma method_text:
  assumes "is_valid_http_method m"
  shows "m \<noteq> []" "plain_text m" "CHR '' '' \<notin> set m" "\<not> c_isspace (hd m)"
  using assms by (auto simp: is_valid_http_method_def c_isprint_def c_isspace_def)

lemma plain_no_nul: "plain_text s \<Longrightarrow> CHR 0x00 \<notin> set s"
  using c_isprint_not by (auto simp: plain_text_def list_all_iff)

lemma request_lines_ok:
  assumes "request_ok meth path query ver hs"
  shows "list_all (\<lambda>l. l \<noteq> [] \<and> plain_text l) (request_line meth (target_text path query) ver # map header_line hs)"
proof -
  have "list_all (\<lambda>l. l \<noteq> [] \<and> plain_text l) (map header_line hs)"
    using assms header_line_plain by (auto simp: request_ok_def list_all_iff)
  moreover have "plain_text (request_line meth (target_text path query) ver)"
    using assms method_text(2) [of meth]
    by (auto simp: request_ok_def request_line_def target_text_def c_isprint_def split: option.splits)
  ultimately show ?thesis by (simp add: request_line_def)
qed

lemma no_nul_lines:
  "list_all (\<lambda>l. l \<noteq> [] \<and> plain_text l) ls \<Longrightarrow> CHR 0x00 \<notin> set (concat (map (\<lambda>l. l @ crlf) ls) @ [c_CR])"
  by (induction ls) (auto dest: plain_no_nul simp: crlf_def c_CR_LF [symmetric])

lemma parse_request:
  assumes "request_ok meth path query ver hs"
    and "ls = request_line meth (target_text path query) ver # map header_line hs"
  shows "parse_http_message (head_text ls) (int (length (head_text ls))) ri = (int (length (head_text ls)),
    ri\<lparr>request_method := meth, uri := decoded_uri path, http_version := ver, query_string := query, http_headers := hs,
       content_len := 0, is_websocket := False, status_code := 0\<rparr>)"
proof -
  let ?u = "target_text path query" and ?r = "concat (map (\<lambda>l. l @ crlf) (map header_line hs)) @ [c_CR]"
  note ok = assms(1) [unfolded request_ok_def]
  have m: "is_valid_http_method meth" using ok by simp
  note mt = method_text [OF m]
  have u: "?u \<noteq> []" "CHR '' '' \<notin> set ?u" "hd ?u \<noteq> CHR '' ''" "plain_text ?u"
    using ok by (cases path; auto simp: target_text_def c_isprint_def split: option.splits)+
  have "take (nat (int (length (head_text ls))) - 1) (head_text ls) = concat (map (\<lambda>l. l @ crlf) ls) @ [c_CR]"
    unfolding nat_int by (simp add: head_text_def crlf_def)
  moreover have "c_str (concat (map (\<lambda>l. l @ crlf) ls) @ [c_CR]) = concat (map (\<lambda>l. l @ crlf) ls) @ [c_CR]"
    using no_nul_lines [OF request_lines_ok [OF assms(1)]] unfolding c_str_def assms(2)
    by (auto simp: takeWhile_eq_all_conv)
  moreover have "concat (map (\<lambda>l. l @ crlf) ls) @ [c_CR] = meth @ '' '' @ ?u @ '' '' @ ''HTTP/'' @ ver @ crlf @ ?r"
    by (simp add: assms(2) request_line_def)
  moreover have "dropWhile c_isspace (meth @ t) = meth @ t" for t using mt by (cases meth) auto
  ultimately have buf: "dropWhile c_isspace (c_str (take (nat (int (length (head_text ls))) - 1) (head_text ls)))
      = meth @ '' '' @ ?u @ '' '' @ ''HTTP/'' @ ver @ crlf @ ?r" by simp
  have s1: "skip (meth @ '' '' @ ?u @ '' '' @ t) '' '' = (meth, ?u @ '' '' @ t)" for t
    using mt u by (intro skip_word) (auto simp: list_all_iff)
  have s2: "skip (?u @ '' '' @ ''HTTP/'' @ t) '' '' = (?u, ''HTTP/'' @ t)" for t
    using u by (intro skip_word) (auto simp: list_all_iff)
  obtain h hs' where hs: "hs = h # hs'" using ok by (cases hs) auto
  have "header_ok h" using ok hs by simp
  from header_line_plain [OF this] have "hd ?r \<noteq> c_CR \<and> hd ?r \<noteq> c_LF"
    using hd_plain [of "header_line h"] hs by simp
  moreover have "plain_text (''HTTP/'' @ ver)" using ok by (simp add: c_isprint_def)
  ultimately have s3: "skip (''HTTP/'' @ ver @ crlf @ ?r) [c_CR, c_LF] = (''HTTP/'' @ ver, ?r)"
    using skip_word [of "[c_CR, c_LF]" "''HTTP/'' @ ver" crlf ?r] plain_no_crlf [of "''HTTP/'' @ ver"] by (simp add: crlf_def)
  have hp: "parse_http_headers 30 ?r = hs" using ok by (intro parse_header_lines) auto
  have "takeWhile (\<lambda>c. c \<noteq> CHR ''?'') (path @ CHR ''?'' # r) = path" for r using ok by (subst takeWhile_append2) auto
  then have q: "takeWhile (\<lambda>c. c \<noteq> CHR ''?'') ?u = path" "(if CHR ''?'' \<in> set ?u then Some (drop (length path + 1) ?u) else None) = query"
    using ok by (auto simp: target_text_def takeWhile_eq_all_conv split: option.splits)
  show ?thesis
    unfolding parse_http_message_def buf Let_def s1 s2 s3 prod.case q hp using m
    by (simp add: decoded_uri_def)
qed

definition body_len :: "(string \<times> string) list \<Rightarrow> int" where
  "body_len hs = (case find_header hs ''Content-Length'' of None \<Rightarrow> 0 | Some h \<Rightarrow> to64 h)"

definition request_text :: "string \<Rightarrow> string \<Rightarrow> string option \<Rightarrow> string \<Rightarrow> (string \<times> string) list \<Rightarrow> string" where
  "request_text meth path query ver hs = head_text (request_line meth (target_text path query) ver # map header_line hs)"

lemma try_parse_request:
  assumes "request_ok meth path query ver hs"
    and "request_len conn = 0" "recv_iobuf conn = request_text meth path query ver hs @ body"
  shows "try_parse W conn = conn\<lparr>request_len := int (length (request_text meth path query ver hs)), conn_cl := body_len hs,
    recv_iobuf := body,
    mg_conn := (mg_conn conn)\<lparr>request_method := meth, uri := decoded_uri path, http_version := ver, query_string := query,
      http_headers := hs, content_len := nat (body_len hs mod 2 ^ W), is_websocket := False, status_code := 0\<rparr>\<rparr>"
proof -
  let ?h = "request_text meth path query ver hs"
  have l: "get_request_len (?h @ body) = int (length ?h)"
    unfolding get_request_len_def request_text_def
    using request_len_head [OF _ request_lines_ok [OF assms(1)], of 0 body] by simp
  have pos: "0 < length ?h" by (simp add: request_text_def head_text_def crlf_def)
  have p: "parse_http_message ?h (int (length ?h)) (mg_conn conn) = (int (length ?h),
    (mg_conn conn)\<lparr>request_method := meth, uri := decoded_uri path, http_version := ver, query_string := query, http_headers := hs,
       content_len := 0, is_websocket := False, status_code := 0\<rparr>)"
    unfolding request_text_def by (rule parse_request [OF assms(1) refl])
  have io: "take (nat (int (length ?h))) (?h @ body) = ?h" "drop (nat (int (length ?h))) (?h @ body) = body" by simp_all
  have n: "\<not> int (length ?h) \<le> 0" using pos by simp
  show ?thesis
    unfolding try_parse_def assms(2,3) Let_def l io p prod.case using n
    by (simp add: mg_get_header_def body_len_def)
qed

text \<open>No slash or backslash of the path is followed by another one, or by two dots.\<close>

definition is_slash :: "char \<Rightarrow> bool" where
  "is_slash c \<longleftrightarrow> c = CHR ''/'' \<or> c = CHR 0x5C"

lemma skip_dots_start: "\<not> (skip_dots s \<noteq> [] \<and> is_slash (hd (skip_dots s))) \<and> take 2 (skip_dots s) \<noteq> ''..''"
  by (induction s rule: skip_dots.induct) (auto simp: is_slash_def)

lemma take2_remove:
  "t \<noteq> [] \<Longrightarrow> \<not> is_slash (hd t) \<Longrightarrow> take 2 (remove_double_dots_and_double_slashes t) = take 2 t"
  by (cases t; cases "tl t") (auto simp: is_slash_def numeral_2_eq_2)

lemma remove_dots_safe:
  assumes "remove_double_dots_and_double_slashes s = xs @ c # ys" "is_slash c"
  shows "\<not> (ys \<noteq> [] \<and> is_slash (hd ys)) \<and> take 2 ys \<noteq> ''..''"
  using assms
proof (induction s arbitrary: xs rule: remove_double_dots_and_double_slashes.induct)
  case (2 d s)
  show ?case
  proof (cases xs)
    case Nil
    let ?t = "skip_dots s"
    have d: "is_slash d" "ys = remove_double_dots_and_double_slashes ?t" using 2 Nil by (auto simp: is_slash_def)
    show ?thesis
    proof (cases "?t = []")
      case False
      then have "hd ys = hd ?t" "take 2 ys = take 2 ?t"
        using skip_dots_start [of s] take2_remove [of ?t] d(2) by (cases ?t; auto)+
      then show ?thesis using skip_dots_start [of s] False by auto
    qed (simp add: d(2))
  next
    case (Cons x xs')
    then have "remove_double_dots_and_double_slashes (if d = CHR ''/'' \<or> d = CHR 0x5C then skip_dots s else s) = xs' @ c # ys"
      using "2.prems"(1) unfolding Cons append_Cons remove_double_dots_and_double_slashes.simps list.inject by blast
    from "2.IH" [OF this "2.prems"(2)] show ?thesis .
  qed
qed simp

lemma parsed_uri:
  assumes "parse_http_message buf len ri = (n, ri')" "0 < n"
  shows "\<exists>u. uri ri' = remove_double_dots_and_double_slashes u"
  using assms by (auto simp: parse_http_message_def Let_def split: prod.splits if_splits)

lemma parsed_uri_safe:
  assumes "parse_http_message buf len ri = (n, ri')" "0 < n" "uri ri' = xs @ c # ys" "is_slash c"
  shows "\<not> (ys \<noteq> [] \<and> is_slash (hd ys)) \<and> take 2 ys \<noteq> ''..''"
  using parsed_uri [OF assms(1,2)] remove_dots_safe [OF _ assms(4)] assms(3) by metis

lemma request_served:
  assumes "request_ok meth path query ver hs" "ver = ''1.0'' \<or> ver = ''1.1''" "is_valid_uri (decoded_uri path)"
    and "endpoint conn = EP_NONE" "request_len conn = 0" "recv_iobuf conn = request_text meth path query ver hs @ body"
  shows "process_verdict (try_parse W conn) = Open_local_endpoint"
proof -
  have "0 < length (request_text meth path query ver hs)" by (simp add: request_text_def head_text_def crlf_def)
  then show ?thesis using assms(2-4) by (auto simp: try_parse_request [OF assms(1,5,6)] process_verdict_def)
qed

lemma served_uri:
  assumes "request_len conn = 0" "process_verdict (try_parse W conn) = Open_local_endpoint"
  shows "is_valid_uri (uri (mg_conn (try_parse W conn)))"
    and "uri (mg_conn (try_parse W conn)) = xs @ c # ys \<Longrightarrow> is_slash c \<Longrightarrow> \<not> (ys \<noteq> [] \<and> is_slash (hd ys)) \<and> take 2 ys \<noteq> ''..''"
proof -
  show "is_valid_uri (uri (mg_conn (try_parse W conn)))" using assms(2) by (auto simp: process_verdict_def split: if_splits)
  obtain n ri where p: "parse_http_message (take (nat (get_request_len (recv_iobuf conn))) (recv_iobuf conn))
      (get_request_len (recv_iobuf conn)) (mg_conn conn) = (n, ri)" by force
  have "0 < request_len (try_parse W conn)" using assms(2) by (auto simp: process_verdict_def split: if_splits)
  then have "0 < n" "uri (mg_conn (try_parse W conn)) = uri ri"
    using assms(1) p by (auto simp: try_parse_def Let_def split: if_splits)
  then show "uri (mg_conn (try_parse W conn)) = xs @ c # ys \<Longrightarrow> is_slash c \<Longrightarrow> \<not> (ys \<noteq> [] \<and> is_slash (hd ys)) \<and> take 2 ys \<noteq> ''..''"
    using parsed_uri_safe [OF p] by simp
qed

end
