(* ===== verification/Bano_Form.thy ===== *)
theory Bano_Form
  imports Mongoose_Request Bano_Httpd
begin

text \<open>
  A form of the page, from the text the station prints to the message its web thread writes in the
  pipe: the browser posts to the path of the form, the server takes the request apart and the
  callback reads its variables. Nothing of the sources but the buffer of the variables is translated
  in this theory.
\<close>

section \<open>The variables of a request\<close>

text \<open>The callback's buffer has 32 characters; what it holds is compared and read as a C text.\<close>

definition request_var :: "mg_connection \<Rightarrow> string \<Rightarrow> string" where
  "request_var conn name = c_str (snd (mg_get_var conn name [] 32))"

text \<open>The buffer's text before plays no part: one buffer serves for all the variables.\<close>

lemma mg_get_var_buffer: "0 < n \<Longrightarrow> mg_get_var conn name dst n = mg_get_var conn name dst' n"
  by (simp add: mg_get_var_def get_var_def)

lemma url_loop_plain:
  assumes "CHR ''%'' \<notin> set v" "CHR ''+'' \<notin> set v" "length v \<le> room"
  shows "url_loop form room v = (v, [])"
  using assms
proof (induction v arbitrary: room)
  case (Cons c v)
  then show ?case by (cases room) auto
qed simp

lemma mg_url_decode_plain:
  "CHR ''%'' \<notin> set v \<Longrightarrow> CHR ''+'' \<notin> set v \<Longrightarrow> length v < n \<Longrightarrow> mg_url_decode v n form = (int (length v), v)"
  by (simp add: mg_url_decode_def url_loop_plain)

text \<open>A value of a form that stands for itself.\<close>

definition plain_value :: "string \<Rightarrow> bool" where
  "plain_value v \<longleftrightarrow> length v < 32 \<and> list_all (\<lambda>c. digit_val c < 36) v"

lemma plain_value_chars:
  assumes "plain_value v"
  shows "CHR ''%'' \<notin> set v" "CHR ''+'' \<notin> set v" "CHR ''&'' \<notin> set v" "CHR 0x00 \<notin> set v" "length v < 32"
  using assms by (auto simp: plain_value_def list_all_iff digit_val_def)

lemma plain_value_hex: "k < 30 \<Longrightarrow> plain_value (''0x'' @ hex_fixed k n)"
  using hex_fixed_digits [of _ k n] by (force simp: plain_value_def list_all_iff digit_val_def)

lemma plain_value_dec: "plain_value (dec (unat (x :: u32)))"
proof -
  have "unat x < 10 ^ Suc 9" by (rule order_less_le_trans [OF unat_u32_less]) simp
  then have "length (dec (unat x)) \<le> Suc 9" by (rule length_dec_le)
  then show ?thesis using dec_digits [of _ "unat x"] by (fastforce simp: plain_value_def list_all_iff)
qed

lemma form_var_plain:
  assumes "list_all (\<lambda>(k, v). plain_value v) kvs"
  shows "form_var kvs name 32 = (case find_header kvs name of None \<Rightarrow> (-1, []) | Some v \<Rightarrow> (int (length v), v))"
proof (cases "find_header kvs name")
  case (Some v)
  then have "plain_value v" using assms by (induction kvs name rule: find_header.induct) (auto split: if_splits)
  from plain_value_chars [OF this] show ?thesis
    by (simp add: form_var_def Some mg_url_decode_plain)
qed (simp add: form_var_def)

lemma request_var_forms:
  assumes "list_all (\<lambda>(k, v). form_name k \<and> plain_value v) qs" "list_all (\<lambda>(k, v). form_name k \<and> plain_value v) bs"
    and "query_string conn = Some (form_data qs)" "take (content_len conn) (content conn) = form_data bs" "form_name name"
  shows "request_var conn name = (case find_header (qs @ bs) name of None \<Rightarrow> [] | Some v \<Rightarrow> v)"
proof -
  have amp: "list_all (\<lambda>(k, v). form_name k \<and> CHR ''&'' \<notin> set v) kvs" "list_all (\<lambda>(k, v). plain_value v) kvs"
    if "list_all (\<lambda>(k, v). form_name k \<and> plain_value v) kvs" for kvs
    using that plain_value_chars(3) by (auto simp: list_all_iff)
  have v: "CHR 0x00 \<notin> set v" if "find_header kvs name = Some v" "list_all (\<lambda>(k, v). plain_value v) kvs" for kvs v
    using that plain_value_chars(4) by (induction kvs name rule: find_header.induct) (auto split: if_splits)
  have app: "find_header (qs @ bs) name = (case find_header qs name of None \<Rightarrow> find_header bs name | Some v \<Rightarrow> Some v)"
    by (induction qs name rule: find_header.induct) auto
  note g = get_var_form [OF assms(5) amp(1) [OF assms(1)], of 32] get_var_form [OF assms(5) amp(1) [OF assms(2)], of 32]
    form_var_plain [OF amp(2) [OF assms(1)]] form_var_plain [OF amp(2) [OF assms(2)]]
  have c: "c_str v = v" if "CHR 0x00 \<notin> set v" for v using that by (auto simp: c_str_def takeWhile_eq_all_conv)
  show ?thesis
    using v [OF _ amp(2) [OF assms(1)]] v [OF _ amp(2) [OF assms(2)]] c
    by (auto simp: request_var_def mg_get_var_def assms(3,4) g app split: option.splits)
qed

section \<open>Numbers\<close>

lemma str_to_uint32_dec:
  assumes "32 \<le> W"
  shows "str_to_uint32 W (dec (unat (x :: u32))) = x"
proof -
  have x: "\<not> digit_val (CHR ''x'') < 10" by (simp add: digit_val_def)
  have "b \<noteq> CHR ''x''" if "dec v = a # b # cs" for a b cs v
    using dec_digits [of b v] that x by auto
  then have b: "httpd_get_base (dec (unat x)) = 10" by (auto simp: httpd_get_base_def split: list.splits)
  have "unat x < 2 ^ W" using assms by (rule unat_u32_less_pow)
  then have "strtoul W (dec (unat x)) 10 = unat x"
    using strtoul_digits [of "dec (unat x)" 10 W] dec_digits by (simp add: digits_val_dec)
  with b show ?thesis by (simp add: str_to_uint32_def)
qed

section \<open>The form of a page\<close>

definition form_query :: "u32 \<Rightarrow> u16 \<Rightarrow> bool \<Rightarrow> (string \<times> string) list" where
  "form_query naddr k is_ack =
     [(''naddr'', hex8 naddr), (''key'', hex4 k), (''is_ack'', if is_ack then ''1'' else ''0'')]"

text \<open>What a browser sends of it: the text field, and the button that was pressed.\<close>

definition form_body :: "string \<Rightarrow> string \<Rightarrow> (string \<times> string) list" where
  "form_body v opn = [(''val'', v), (''op'', opn)]"

lemmas request_eval = mg_strcasecmp.simps find_header.simps lowercase_def Let_def

lemma decode_form:
  assumes "32 \<le> W" "plain_value v"
    and "opn = ''set'' \<and> m = BANO_HTTPD_MSG_OP_SET \<or> opn = ''get'' \<and> m = BANO_HTTPD_MSG_OP_GET \<or> opn = ''rst'' \<and> m = BANO_HTTPD_MSG_OP_RST"
    and "query_string conn = Some (form_data (form_query naddr k is_ack))"
    and "take (content_len conn) (content conn) = form_data (form_body v opn)"
  shows "decode_request W (request_var conn) n = \<lparr>hm_op = m, hm_fmt = BANO_HTTPD_MSG_FMT_HTML, hm_naddr = naddr,
    hm_key = k, hm_val = str_to_uint32 W v, hm_is_ack = (if is_ack then 1 else 0), hm_conn = n\<rparr>"
proof -
  have "list_all (\<lambda>(k, v). form_name k \<and> plain_value v) (form_query naddr k is_ack)"
    using plain_value_hex [of 8] plain_value_hex [of 4]
    by (auto simp: form_query_def form_name_def hex8_def hex4_def) (auto simp: plain_value_def digit_val_def)
  moreover have "list_all (\<lambda>(k, v). form_name k \<and> plain_value v) (form_body v opn)"
    using assms(2,3) by (auto simp: form_body_def form_name_def) (auto simp: plain_value_def digit_val_def)
  ultimately have r: "request_var conn name = (case find_header (form_query naddr k is_ack @ form_body v opn) name of None \<Rightarrow> [] | Some v \<Rightarrow> v)"
    if "form_name name" for name
    using request_var_forms [OF _ _ assms(4,5) that] by blast
  have vars: "request_var conn ''op'' = opn" "request_var conn ''fmt'' = []" "request_var conn ''naddr'' = hex8 naddr"
    "request_var conn ''key'' = hex4 k" "request_var conn ''val'' = v" "request_var conn ''is_ack'' = (if is_ack then ''1'' else ''0'')"
    by (subst r; simp add: form_name_def form_query_def form_body_def request_eval)+
  have "dec 1 = ''1''" "dec 0 = ''0''" by code_simp+
  then have "str_to_uint32 W (if is_ack then ''1'' else ''0'') = (if is_ack then 1 else 0)"
    using str_to_uint32_dec [OF assms(1), of 1] str_to_uint32_dec [OF assms(1), of 0] by simp
  moreover have "16 \<le> W" using assms(1) by simp
  ultimately show ?thesis
    using assms(3) str_to_uint32_hex8 [OF assms(1)] str_to_uint16_hex4 [of W]
    by (auto simp: decode_request_def vars)
qed

text \<open>The page's form posts to the path \<open>/\<close> with that query.\<close>

definition form_text :: "string \<Rightarrow> string" where
  "form_text q = ''<form action='' @ quote @ target_text ''/'' (Some q) @ quote @ attr ''method'' ''post'' @ ''>'' @ nl"

lemma pair_form:
  assumes "pair_html tm nd p = Some (form_text q # ts)"
  shows "q = form_data (form_query (bano_node_get_addr nd) (kv_key (snd p)) (has_flag (kv_flags (snd p)) BANO_NODL_FLAG_ACK))"
proof -
  let ?q = "form_data (form_query (bano_node_get_addr nd) (kv_key (snd p)) (has_flag (kv_flags (snd p)) BANO_NODL_FLAG_ACK))"
  have "div_box c v @ r \<noteq> ''<form'' @ t" for c v r t by (simp add: div_box_def)
  with assms have "form_text q = form_text ?q"
    by (auto simp: pair_html_def Let_def form_query_def form_text_def target_text_def split: bind_splits if_splits)
  then show ?thesis by (simp add: form_text_def target_text_def)
qed

lemma form_submission:
  assumes "32 \<le> W" "plain_value v"
    and "opn = ''set'' \<and> m = BANO_HTTPD_MSG_OP_SET \<or> opn = ''get'' \<and> m = BANO_HTTPD_MSG_OP_GET \<or> opn = ''rst'' \<and> m = BANO_HTTPD_MSG_OP_RST"
    and "pair_html tm nd p = Some (form_text q # ts)"
    and "request_ok ''POST'' ''/'' (Some q) ver hs" "body_len hs = int (length (form_data (form_body v opn)))"
    and "request_len conn = 0" "recv_iobuf conn = request_text ''POST'' ''/'' (Some q) ver hs @ form_data (form_body v opn)"
  shows "data_is_buffered (try_parse W conn) \<and> uri (mg_conn (try_parse W conn)) = ''/''
    \<and> decode_request W (request_var (request_handler_conn (try_parse W conn))) n
      = \<lparr>hm_op = m, hm_fmt = BANO_HTTPD_MSG_FMT_HTML, hm_naddr = bano_node_get_addr nd, hm_key = kv_key (snd p),
         hm_val = str_to_uint32 W v, hm_is_ack = (if has_flag (kv_flags (snd p)) BANO_NODL_FLAG_ACK then 1 else 0), hm_conn = n\<rparr>"
proof -
  let ?b = "form_data (form_body v opn)"
  have "length ?b < 64" using plain_value_chars(5) [OF assms(2)] assms(3) by (auto simp: form_body_def)
  moreover have "(64 :: int) \<le> 2 ^ W" using power_increasing [of 6 W "2 :: int"] assms(1) by simp
  ultimately have l: "int (length ?b) < 2 ^ W" by linarith
  have n: "nat (body_len hs mod 2 ^ W) = length ?b"
    by (simp only: assms(6) mod_pos_pos_trivial [OF of_nat_0_le_iff l] nat_int)
  have u: "decoded_uri ''/'' = ''/''" by (simp add: decoded_uri_def mg_url_decode_def c_str_def)
  note t = try_parse_request [OF assms(5,7,8), of W]
  show ?thesis
  proof (intro conjI)
    show "data_is_buffered (try_parse W conn)" "uri (mg_conn (try_parse W conn)) = ''/''"
      by (simp_all add: t n u data_is_buffered_def)
    show "decode_request W (request_var (request_handler_conn (try_parse W conn))) n
      = \<lparr>hm_op = m, hm_fmt = BANO_HTTPD_MSG_FMT_HTML, hm_naddr = bano_node_get_addr nd, hm_key = kv_key (snd p),
         hm_val = str_to_uint32 W v, hm_is_ack = (if has_flag (kv_flags (snd p)) BANO_NODL_FLAG_ACK then 1 else 0), hm_conn = n\<rparr>"
      by (rule decode_form [OF assms(1-3)]) (simp_all add: t n request_handler_conn_def pair_form [OF assms(4)])
  qed
qed

section \<open>From the page to the node\<close>

text \<open>A set request posts one operation to its node; its completion holds the request.\<close>

lemma set_request_posts:
  assumes "hm_op msg = BANO_HTTPD_MSG_OP_SET" "bano_find_node_by_addr b (hm_naddr msg) = Some (Ok, na)" "node_at b na = Some nd"
    and "b_mls b = h # a # it # ms" "h \<noteq> 0" "a \<noteq> 0" "it \<noteq> 0" "msg_wf (io_msg (io_junk lib))"
  shows "\<exists>b' nd' io. handle_httpd_msg lib msg b = Some b' \<and> node_at b' na = Some nd' \<and> posted_ios nd' = posted_ios nd @ [(it, a)]
    \<and> io_at b' a = Some io \<and> op (io_msg io) = BANO_MSG_OP_SET \<and> set_key (io_msg io) = hm_key msg
    \<and> set_val (io_msg io) = hm_val msg \<and> has_flag (io_flags io) BANO_IO_FLAG_REPLY = (hm_is_ack msg \<noteq> 0)
    \<and> io_compl_fn io = ON_HTTPD_IO_COMPL \<and> hod_at b' (io_compl_data io) = Some msg"
  using assms
  by (simp add: handle_httpd_msg_def post_httpd_io_def bano_alloc_set_io_def bano_post_io_def seq_add_tail_def Let_def
      set_io_def set_node_def bano_init_common_io_def has_flag_def BANO_IO_FLAG_REPLY_def)

text \<open>The set button of the page.\<close>

lemma form_set_posts:
  assumes "32 \<le> W" "plain_value v" "pair_html tm nd p = Some (form_text q # ts)"
    and "request_ok ''POST'' ''/'' (Some q) ver hs" "ver = ''1.0'' \<or> ver = ''1.1''" "endpoint conn = EP_NONE" "body_len hs = int (length (form_data (form_body v ''set'')))"
    and "request_len conn = 0" "recv_iobuf conn = request_text ''POST'' ''/'' (Some q) ver hs @ form_data (form_body v ''set'')"
    and "bano_find_node_by_addr b (bano_node_get_addr nd) = Some (Ok, na)" "node_at b na = Some nd'"
    and "b_mls b = h # a # it # ms" "h \<noteq> 0" "a \<noteq> 0" "it \<noteq> 0" "msg_wf (io_msg (io_junk lib))"
  shows "process_verdict (try_parse W conn) = Open_local_endpoint \<and> data_is_buffered (try_parse W conn)
    \<and> (\<exists>b' nd'' io. handle_httpd_msg lib (decode_request W (request_var (request_handler_conn (try_parse W conn))) n) b = Some b'
    \<and> node_at b' na = Some nd'' \<and> posted_ios nd'' = posted_ios nd' @ [(it, a)]
    \<and> io_at b' a = Some io \<and> op (io_msg io) = BANO_MSG_OP_SET \<and> set_key (io_msg io) = kv_key (snd p)
    \<and> set_val (io_msg io) = str_to_uint32 W v
    \<and> has_flag (io_flags io) BANO_IO_FLAG_REPLY = has_flag (kv_flags (snd p)) BANO_NODL_FLAG_ACK)"
proof -
  have m: "''set'' = ''set'' \<and> BANO_HTTPD_MSG_OP_SET = BANO_HTTPD_MSG_OP_SET \<or> ''set'' = ''get'' \<and> BANO_HTTPD_MSG_OP_SET = BANO_HTTPD_MSG_OP_GET
    \<or> ''set'' = ''rst'' \<and> BANO_HTTPD_MSG_OP_SET = BANO_HTTPD_MSG_OP_RST" by simp
  let ?msg = "decode_request W (request_var (request_handler_conn (try_parse W conn))) n"
  have d: "?msg = \<lparr>hm_op = BANO_HTTPD_MSG_OP_SET, hm_fmt = BANO_HTTPD_MSG_FMT_HTML, hm_naddr = bano_node_get_addr nd, hm_key = kv_key (snd p),
         hm_val = str_to_uint32 W v, hm_is_ack = (if has_flag (kv_flags (snd p)) BANO_NODL_FLAG_ACK then 1 else 0), hm_conn = n\<rparr>"
    using form_submission [OF assms(1,2) m assms(3,4,7-9)] by blast
  have f: "hm_op ?msg = BANO_HTTPD_MSG_OP_SET" "bano_find_node_by_addr b (hm_naddr ?msg) = Some (Ok, na)"
    using assms(10) by (simp_all add: d)
  have "is_valid_uri (decoded_uri ''/'')" by (simp add: decoded_uri_def mg_url_decode_def c_str_def is_valid_uri_def)
  from request_served [OF assms(4,5) this assms(6,8,9)] form_submission [OF assms(1,2) m assms(3,4,7-9)]
    set_request_posts [OF f assms(11-16)] show ?thesis by (auto simp: d)
qed

end
