(* ===== verification/Matrix_Cbc.thy ===== *)
theory Matrix_Cbc
  imports Matrix_Aes
begin

text \<open>
  The chaining of blocks around the AES of \<open>Matrix_Aes\<close> (\<open>psAesInit\<close>, \<open>psAesEncrypt\<close> and
  \<open>psAesDecrypt\<close> in \<open>crypto/symmetric/aes.c\<close>), which the TLS records are sent with. The buffers are
  lists: an access past the end of one is \<open>None\<close>. Pointers are not \<open>NULL\<close>.
\<close>

record aes_cbc =
  cbc_IV :: "u8 list"
  cbc_key :: psAesKey
  blocklen :: int

definition PS_ARG_FAIL :: int where "PS_ARG_FAIL = - 6"
definition PS_LIMIT_FAIL :: int where "PS_LIMIT_FAIL = - 9"

text \<open>The first 16 bytes of the buffer \<open>IV\<close> are copied; \<open>Inl\<close> is an error.\<close>

definition psAesInit :: "u8 list \<Rightarrow> u8 list \<Rightarrow> aes_cbc option" where
  "psAesInit IV k =
     (case psAesInitKey k of
        None \<Rightarrow> None
      | Some sk \<Rightarrow> Some \<lparr>cbc_IV = take 16 IV, cbc_key = sk, blocklen = 16\<rparr>)"

text \<open>
  The loops, for the block length 16 that \<open>psAesInit\<close> sets: the number of bytes left, what is left
  of the input buffer, and the bytes written with the last vector.
\<close>

fun cbc_encrypt :: "psAesKey \<Rightarrow> u8 list \<Rightarrow> nat \<Rightarrow> u8 list \<Rightarrow> (u8 list \<times> u8 list) option" where
  "cbc_encrypt k iv 0 pt = Some ([], iv)"
| "cbc_encrypt k iv (Suc n) pt =
     (if length pt < 16 then None
      else
        let ct = psAesEncryptBlock k (map2 (XOR) (take 16 pt) iv) in
        map_option (apfst ((@) ct)) (cbc_encrypt k ct (Suc n - 16) (drop 16 pt)))"

fun cbc_decrypt :: "psAesKey \<Rightarrow> u8 list \<Rightarrow> nat \<Rightarrow> u8 list \<Rightarrow> (u8 list \<times> u8 list) option" where
  "cbc_decrypt k iv 0 ct = Some ([], iv)"
| "cbc_decrypt k iv (Suc n) ct =
     (if length ct < 16 then None
      else
        let pt = map2 (XOR) (psAesDecryptBlock k (take 16 ct)) iv in
        map_option (apfst ((@) pt)) (cbc_decrypt k (take 16 ct) (Suc n - 16) (drop 16 ct)))"

definition cbc_checked ::
  "(psAesKey \<Rightarrow> u8 list \<Rightarrow> nat \<Rightarrow> u8 list \<Rightarrow> (u8 list \<times> u8 list) option) \<Rightarrow> aes_cbc \<Rightarrow> u8 list \<Rightarrow> nat \<Rightarrow> (int \<times> u8 list \<times> aes_cbc) option" where
  "cbc_checked f ctx x len =
     (if len AND 7 \<noteq> 0 then Some (PS_ARG_FAIL, [], ctx)
      else if blocklen ctx < 0 \<or> blocklen ctx > 16 then Some (PS_LIMIT_FAIL, [], ctx)
      else map_option (\<lambda>(y, iv). (int len, y, ctx\<lparr>cbc_IV := iv\<rparr>)) (f (cbc_key ctx) (cbc_IV ctx) len x))"

definition psAesEncrypt :: "aes_cbc \<Rightarrow> u8 list \<Rightarrow> nat \<Rightarrow> (int \<times> u8 list \<times> aes_cbc) option" where
  "psAesEncrypt = cbc_checked cbc_encrypt"

definition psAesDecrypt :: "aes_cbc \<Rightarrow> u8 list \<Rightarrow> nat \<Rightarrow> (int \<times> u8 list \<times> aes_cbc) option" where
  "psAesDecrypt = cbc_checked cbc_decrypt"

section \<open>Decryption undoes encryption\<close>

lemma map2_xor_twice: "length x = length y \<Longrightarrow> map2 (XOR) (map2 (XOR) x y) y = (x :: u8 list)"
  by (rule nth_equalityI) (simp_all add: xor.assoc)

lemma cbc_block:
  "0 < n \<Longrightarrow> 16 \<le> length x \<Longrightarrow> cbc_encrypt k iv n x =
    (let ct = psAesEncryptBlock k (map2 (XOR) (take 16 x) iv) in map_option (apfst ((@) ct)) (cbc_encrypt k ct (n - 16) (drop 16 x)))"
  "0 < n \<Longrightarrow> 16 \<le> length x \<Longrightarrow> cbc_decrypt k iv n x =
    (let pt = map2 (XOR) (psAesDecryptBlock k (take 16 x)) iv in map_option (apfst ((@) pt)) (cbc_decrypt k (take 16 x) (n - 16) (drop 16 x)))"
  by (cases n; simp)+

lemma cbc_blocks:
  assumes "psAesInitKey kb = Some k" "length iv = 16" "length pt = 16 * b"
  shows "\<exists>ct iv'. cbc_encrypt k iv (16 * b) pt = Some (ct, iv') \<and> length ct = 16 * b \<and> length iv' = 16
    \<and> cbc_decrypt k iv (16 * b) ct = Some (pt, iv')"
  using assms(2,3)
proof (induction b arbitrary: iv pt)
  case (Suc b)
  define x where "x = map2 (XOR) (take 16 pt) iv"
  define c where "c = psAesEncryptBlock k x"
  have x: "length x = 16" using Suc.prems by (simp add: x_def)
  then have c: "length c = 16" "psAesDecryptBlock k c = x" using psAes_round_trip [OF assms(1)] by (auto simp: c_def)
  obtain ct iv' where r: "cbc_encrypt k c (16 * b) (drop 16 pt) = Some (ct, iv')" "length ct = 16 * b" "length iv' = 16"
      "cbc_decrypt k c (16 * b) ct = Some (drop 16 pt, iv')"
    using Suc.IH [OF c(1), of "drop 16 pt"] Suc.prems(2) by auto
  have e: "cbc_encrypt k iv (16 * Suc b) pt = Some (c @ ct, iv')"
    using Suc.prems(2) r(1) by (simp add: cbc_block(1) Let_def flip: x_def c_def)
  have "map2 (XOR) x iv = take 16 pt" using Suc.prems unfolding x_def by (intro map2_xor_twice) simp
  then have "cbc_decrypt k iv (16 * Suc b) (c @ ct) = Some (take 16 pt @ drop 16 pt, iv')"
    using c r(2,4) by (simp add: cbc_block(2))
  with e c(1) r(2,3) show ?case by (intro exI [of _ "c @ ct"] exI [of _ iv']) simp
qed simp

lemma cbc_append:
  assumes "length pt1 = 16 * b"
  shows "cbc_encrypt k iv (16 * b + n) (pt1 @ pt2) =
    Option.bind (cbc_encrypt k iv (16 * b) pt1) (\<lambda>(c1, iv1). map_option (apfst ((@) c1)) (cbc_encrypt k iv1 n pt2))"
  using assms
proof (induction b arbitrary: iv pt1)
  case 0
  then show ?case by (cases "cbc_encrypt k iv n pt2") auto
next
  case (Suc b)
  have "take 16 (pt1 @ pt2) = take 16 pt1" "drop 16 (pt1 @ pt2) = drop 16 pt1 @ pt2" using Suc.prems by simp_all
  with Suc.IH [of "drop 16 pt1"] Suc.prems show ?case
    by (simp add: cbc_block(1) Let_def option.map_comp split: option.splits)
       (auto simp: map_option_case split: option.splits)
qed

lemma and_7_mult_16: "16 * b AND 7 = (0 :: nat)"
proof -
  have "16 * b AND mask 3 = (16 * b) mod 2 ^ 3" by (simp only: take_bit_eq_mask [symmetric] take_bit_eq_mod)
  then show ?thesis by (simp add: mask_eq_exp_minus_1 mod_mult_left_eq [symmetric])
qed

lemma psAes_cbc_round_trip:
  assumes "psAesInit IV kb = Some ctx" "16 \<le> length IV" "length pt = len" "16 dvd len"
  shows "\<exists>ct ctx'. psAesEncrypt ctx pt len = Some (int len, ct, ctx') \<and> length ct = len
    \<and> psAesDecrypt ctx ct len = Some (int len, pt, ctx')"
proof -
  obtain k where k: "psAesInitKey kb = Some k" and ctx: "ctx = \<lparr>cbc_IV = take 16 IV, cbc_key = k, blocklen = 16\<rparr>"
    using assms(1) by (auto simp: psAesInit_def split: option.splits)
  obtain b where b: "len = 16 * b" using assms(4) by (elim dvdE)
  from cbc_blocks [OF k, of "take 16 IV" pt b] assms(2,3) b show ?thesis
    by (auto simp: psAesEncrypt_def psAesDecrypt_def cbc_checked_def ctx and_7_mult_16)
qed

text \<open>The check of the length lets half a block through: the last block is read past the buffer.\<close>

lemma psAesEncrypt_half_block:
  assumes "length pt = 8" "0 \<le> blocklen ctx" "blocklen ctx \<le> 16"
  shows "psAesEncrypt ctx pt 8 = None"
proof -
  have "(8 :: nat) AND 7 = 0" by simp
  with assms show ?thesis by (simp add: psAesEncrypt_def cbc_checked_def cbc_block(1) numeral_eq_Suc)
qed

end
