(* ===== verification/Lode_Sums.thy ===== *)
theory Lode_Sums
  imports Bano_Prelude
begin

text \<open>
  The check sums of \<open>lodepng.c\<close>, which the images of the camera are packed with: Adler-32 over the
  data of a zlib stream and CRC-32 over a chunk, each with the definition it is measured against.
\<close>

section \<open>Adler-32\<close>

text \<open>The inner loop: the sums, with the wrap-around of \<open>unsigned\<close>.\<close>

fun adler_sums :: "u8 list \<Rightarrow> u32 \<Rightarrow> u32 \<Rightarrow> u32 \<times> u32" where
  "adler_sums [] s1 s2 = (s1, s2)"
| "adler_sums (d # ds) s1 s2 = (let t1 = s1 + ucast d in adler_sums ds t1 (s2 + t1))"

function adler_loop :: "u8 list \<Rightarrow> u32 \<Rightarrow> u32 \<Rightarrow> u32 \<times> u32" where
  "adler_loop ds s1 s2 =
     (if ds = [] then (s1, s2)
      else case adler_sums (take 5550 ds) s1 s2 of (t1, t2) \<Rightarrow> adler_loop (drop 5550 ds) (t1 mod 65521) (t2 mod 65521))"
  by pat_completeness auto
termination
  by (relation "measure (length \<circ> fst)") auto

declare adler_loop.simps [simp del]

definition update_adler32 :: "u32 \<Rightarrow> u8 list \<Rightarrow> u32" where
  "update_adler32 adler ds =
     (case adler_loop ds (adler AND 0xffff) (drop_bit 16 adler AND 0xffff) of (s1, s2) \<Rightarrow> push_bit 16 s2 OR s1)"

definition adler32 :: "u8 list \<Rightarrow> u32" where
  "adler32 ds = update_adler32 1 ds"

section \<open>CRC-32\<close>

definition lodepng_crc32_table :: "u32 list" where
  "lodepng_crc32_table = [
     0, 1996959894, 3993919788, 2567524794, 124634137, 1886057615, 3915621685, 2657392035,
     249268274, 2044508324, 3772115230, 2547177864, 162941995, 2125561021, 3887607047, 2428444049,
     498536548, 1789927666, 4089016648, 2227061214, 450548861, 1843258603, 4107580753, 2211677639,
     325883990, 1684777152, 4251122042, 2321926636, 335633487, 1661365465, 4195302755, 2366115317,
     997073096, 1281953886, 3579855332, 2724688242, 1006888145, 1258607687, 3524101629, 2768942443,
     901097722, 1119000684, 3686517206, 2898065728, 853044451, 1172266101, 3705015759, 2882616665,
     651767980, 1373503546, 3369554304, 3218104598, 565507253, 1454621731, 3485111705, 3099436303,
     671266974, 1594198024, 3322730930, 2970347812, 795835527, 1483230225, 3244367275, 3060149565,
     1994146192, 31158534, 2563907772, 4023717930, 1907459465, 112637215, 2680153253, 3904427059,
     2013776290, 251722036, 2517215374, 3775830040, 2137656763, 141376813, 2439277719, 3865271297,
     1802195444, 476864866, 2238001368, 4066508878, 1812370925, 453092731, 2181625025, 4111451223,
     1706088902, 314042704, 2344532202, 4240017532, 1658658271, 366619977, 2362670323, 4224994405,
     1303535960, 984961486, 2747007092, 3569037538, 1256170817, 1037604311, 2765210733, 3554079995,
     1131014506, 879679996, 2909243462, 3663771856, 1141124467, 855842277, 2852801631, 3708648649,
     1342533948, 654459306, 3188396048, 3373015174, 1466479909, 544179635, 3110523913, 3462522015,
     1591671054, 702138776, 2966460450, 3352799412, 1504918807, 783551873, 3082640443, 3233442989,
     3988292384, 2596254646, 62317068, 1957810842, 3939845945, 2647816111, 81470997, 1943803523,
     3814918930, 2489596804, 225274430, 2053790376, 3826175755, 2466906013, 167816743, 2097651377,
     4027552580, 2265490386, 503444072, 1762050814, 4150417245, 2154129355, 426522225, 1852507879,
     4275313526, 2312317920, 282753626, 1742555852, 4189708143, 2394877945, 397917763, 1622183637,
     3604390888, 2714866558, 953729732, 1340076626, 3518719985, 2797360999, 1068828381, 1219638859,
     3624741850, 2936675148, 906185462, 1090812512, 3747672003, 2825379669, 829329135, 1181335161,
     3412177804, 3160834842, 628085408, 1382605366, 3423369109, 3138078467, 570562233, 1426400815,
     3317316542, 2998733608, 733239954, 1555261956, 3268935591, 3050360625, 752459403, 1541320221,
     2607071920, 3965973030, 1969922972, 40735498, 2617837225, 3943577151, 1913087877, 83908371,
     2512341634, 3803740692, 2075208622, 213261112, 2463272603, 3855990285, 2094854071, 198958881,
     2262029012, 4057260610, 1759359992, 534414190, 2176718541, 4139329115, 1873836001, 414664567,
     2282248934, 4279200368, 1711684554, 285281116, 2405801727, 4167216745, 1634467795, 376229701,
     2685067896, 3608007406, 1308918612, 956543938, 2808555105, 3495958263, 1231636301, 1047427035,
     2932959818, 3654703836, 1088359270, 936918000, 2847714899, 3736837829, 1202900863, 817233897,
     3183342108, 3401237130, 1404277552, 615818150, 3134207493, 3453421203, 1423857449, 601450431,
     3009837614, 3294710456, 1567103746, 711928724, 3020668471, 3272380065, 1510334235, 755167117]"

definition lodepng_crc32 :: "u8 list \<Rightarrow> u32" where
  "lodepng_crc32 buf =
     foldl (\<lambda>c b. lodepng_crc32_table ! unat ((c XOR ucast b) AND 0xff) XOR drop_bit 8 c) 0xffffffff buf XOR 0xffffffff"

text \<open>The definition of the PNG standard: one bit of the shift register, and the eight of a byte.\<close>

definition crc_bit :: "u32 \<Rightarrow> u32" where
  "crc_bit c = (if bit c 0 then drop_bit 1 c XOR 0xedb88320 else drop_bit 1 c)"

definition crc_byte :: "u32 \<Rightarrow> u32" where
  "crc_byte c = crc_bit (crc_bit (crc_bit (crc_bit (crc_bit (crc_bit (crc_bit (crc_bit c)))))))"

definition crc_reference :: "u8 list \<Rightarrow> u32" where
  "crc_reference buf = foldl (\<lambda>c b. crc_byte (c XOR ucast b)) 0xffffffff buf XOR 0xffffffff"

text \<open>A step is linear, and the table follows from its entries at the powers of two.\<close>

lemma crc_bit_xor: "crc_bit (x XOR y) = crc_bit x XOR crc_bit y"
  by (cases "bit x 0"; cases "bit y 0") (simp_all add: crc_bit_def bit_xor_iff xor.assoc xor.left_commute xor.commute drop_bit_xor)

lemma crc_byte_xor: "crc_byte (x XOR y) = crc_byte x XOR crc_byte y"
  by (simp add: crc_byte_def crc_bit_xor)

lemma crc_powers:
  "map (\<lambda>a. crc_byte (of_nat (2 ^ a))) [0, 1, 2, 3, 4, 5, 6, 7] = map (\<lambda>a. lodepng_crc32_table ! (2 ^ a)) [0, 1, 2, 3, 4, 5, 6, 7]"
  by (simp add: crc_byte_def crc_bit_def lodepng_crc32_table_def)

lemma crc_doubles:
  "list_all (\<lambda>a. map ((XOR) (lodepng_crc32_table ! (2 ^ a))) (take (2 ^ a) lodepng_crc32_table)
     = take (2 ^ a) (drop (2 ^ a) lodepng_crc32_table)) [0, 1, 2, 3, 4, 5, 6, 7]"
  by (simp add: lodepng_crc32_table_def)

lemma length_crc_table [simp]: "length lodepng_crc32_table = 256"
  by (simp add: lodepng_crc32_table_def)

lemma power_xor:
  assumes "j < 2 ^ a"
  shows "(of_nat (2 ^ a + j) :: u32) = of_nat (2 ^ a) XOR of_nat j"
proof -
  have "take_bit a (of_nat j :: u32) = of_nat j" using assms by (simp add: take_bit_of_nat take_bit_nat_eq_self)
  moreover have "push_bit a 1 AND take_bit a x = 0" for x :: u32
    by (rule bit_eqI) (auto simp: bit_and_iff bit_push_bit_iff bit_take_bit_iff simp del: push_bit_of_1)
  ultimately have "2 ^ a AND (of_nat j :: u32) = 0" by (metis push_bit_of_1)
  then show ?thesis by (simp add: disjunctive_add_eq_xor)
qed

lemma crc_table_below: "a \<le> 8 \<Longrightarrow> i < 2 ^ a \<Longrightarrow> lodepng_crc32_table ! i = crc_byte (of_nat i)"
proof (induction a arbitrary: i)
  case 0
  then show ?case by (simp add: crc_byte_def crc_bit_def lodepng_crc32_table_def)
next
  case (Suc a)
  show ?case
  proof (cases "i < 2 ^ a")
    case False
    define j where "j = i - 2 ^ a"
    have j: "i = 2 ^ a + j" "j < 2 ^ a" using Suc.prems False by (auto simp: j_def)
    have a: "a \<in> set [0, 1, 2, 3, 4, 5, 6, 7]" using Suc.prems(1) by (simp; presburger)
    have p: "crc_byte (of_nat (2 ^ a)) = lodepng_crc32_table ! (2 ^ a)"
      by (rule map_eq_conv [THEN iffD1, OF crc_powers, THEN bspec, OF a])
    have "(2 :: nat) ^ a \<le> 2 ^ 7" using Suc.prems(1) by (intro power_increasing) simp_all
    then have l: "(2 :: nat) ^ a \<le> 128" by simp
    have "map ((XOR) (lodepng_crc32_table ! (2 ^ a))) (take (2 ^ a) lodepng_crc32_table) ! j = take (2 ^ a) (drop (2 ^ a) lodepng_crc32_table) ! j"
      using crc_doubles a unfolding list_all_iff by (intro arg_cong [where f = "\<lambda>xs. xs ! j"]) blast
    then have "lodepng_crc32_table ! i = lodepng_crc32_table ! (2 ^ a) XOR lodepng_crc32_table ! j"
      using j l by simp
    also have "lodepng_crc32_table ! j = crc_byte (of_nat j)" using Suc j(2) by simp
    finally show ?thesis unfolding j(1) power_xor [OF j(2)] crc_byte_xor p .
  qed (use Suc in simp)
qed

lemma crc_shift:
  assumes "c AND 0xff = 0"
  shows "crc_byte c = drop_bit 8 c"
proof -
  have "\<not> bit c n" if "n < 8" for n
  proof -
    have "take_bit 8 c = 0" using assms by (simp add: take_bit_eq_mask mask_eq_exp_minus_1)
    then have "\<not> bit (take_bit 8 c) n" by simp
    with that show ?thesis by (simp add: bit_take_bit_iff)
  qed
  then show ?thesis by (simp add: crc_byte_def crc_bit_def bit_drop_bit_eq numeral_eq_Suc)
qed

lemma crc_byte_table: "lodepng_crc32_table ! unat (c AND 0xff) XOR drop_bit 8 c = crc_byte c"
proof -
  define h where "h = push_bit 8 (drop_bit 8 c)"
  have s: "c = (c AND 0xff) XOR h"
  proof -
    have "c = take_bit 8 c XOR h" unfolding h_def
      by (rule bit_eqI) (auto simp: bit_xor_iff bit_take_bit_iff bit_push_bit_iff bit_drop_bit_eq)
    then show ?thesis by (simp add: take_bit_eq_mask mask_eq_exp_minus_1)
  qed
  have m: "h AND 0xff = 0"
  proof -
    have "take_bit 8 h = 0" unfolding h_def by (rule bit_eqI) (auto simp: bit_take_bit_iff bit_push_bit_iff)
    then show ?thesis by (simp add: take_bit_eq_mask mask_eq_exp_minus_1)
  qed
  have h: "drop_bit 8 h = drop_bit 8 c" unfolding h_def
    by (rule bit_eqI) (auto simp: bit_push_bit_iff bit_drop_bit_eq dest: bit_imp_le_length)
  have "unat (c AND 0xff) < 2 ^ 8"
  proof -
    have "c AND 0xff = take_bit 8 c" by (simp add: take_bit_eq_mask mask_eq_exp_minus_1)
    then show ?thesis by (simp add: unsigned_take_bit_eq take_bit_nat_less_exp [of 8, simplified])
  qed
  from crc_table_below [OF order_refl this] have "lodepng_crc32_table ! unat (c AND 0xff) = crc_byte (c AND 0xff)" by simp
  moreover have "crc_byte c = crc_byte (c AND 0xff) XOR crc_byte h" using s crc_byte_xor by metis
  ultimately show ?thesis using crc_shift [OF m] h by simp
qed

lemma crc32_correct: "lodepng_crc32 buf = crc_reference buf"
proof -
  have d: "drop_bit 8 (c XOR ucast b) = drop_bit 8 c" for c :: u32 and b :: u8
    by (rule bit_eqI) (auto simp: bit_drop_bit_eq bit_xor_iff bit_ucast_iff dest: bit_imp_le_length)
  have "lodepng_crc32_table ! unat ((c XOR ucast b) AND 0xff) XOR drop_bit 8 c = crc_byte (c XOR ucast b)" for c :: u32 and b :: u8
    using crc_byte_table [of "c XOR ucast b"] by (simp only: d)
  then show ?thesis by (simp add: lodepng_crc32_def crc_reference_def)
qed

section \<open>Adler-32 without the bounds\<close>

text \<open>The two sums of the definition, as numbers: one more than the sum of the bytes, and the sum of those.\<close>

fun adler_ref :: "u8 list \<Rightarrow> nat \<Rightarrow> nat \<Rightarrow> nat \<times> nat" where
  "adler_ref [] a b = (a, b)"
| "adler_ref (d # ds) a b = adler_ref ds (a + unat d) (b + (a + unat d))"

lemma adler_ref_append:
  "adler_ref (xs @ ys) a b = (case adler_ref xs a b of (a', b') \<Rightarrow> adler_ref ys a' b')"
  by (induction xs arbitrary: a b) simp_all

text \<open>The sums at most grow by so much, so that 5550 of them fit.\<close>

lemma unat_ucast_up: "unat (ucast (d :: u8) :: u32) = unat d"
  by (simp add: unsigned_ucast_eq take_bit_nat_eq_self_iff unsigned_less [of d, THEN order_less_le_trans])

lemma adler_sums_fit:
  assumes "unat s1 + 255 * length ds < 2 ^ 32"
    and "unat s2 + length ds * unat s1 + 255 * (length ds * (length ds + 1) div 2) < 2 ^ 32"
  shows "adler_sums ds s1 s2 = (t1, t2) \<Longrightarrow> adler_ref ds (unat s1) (unat s2) = (unat t1, unat t2)"
  using assms
proof (induction ds arbitrary: s1 s2)
  case (Cons d ds)
  define n where "n = length ds"
  have "unat d < 256" by simp
  then have d: "unat d \<le> 255" by linarith
  have tri: "(n + 1) * (n + 2) div 2 = n * (n + 1) div 2 + (n + 1)"
  proof -
    have "(n + 1) * (n + 2) = n * (n + 1) + (n + 1) * 2" by (simp add: algebra_simps)
    moreover have "(x + y * 2) div 2 = x div 2 + y" for x y :: nat by simp
    ultimately show ?thesis by (simp only:)
  qed
  have b: "unat s1 + 255 * (n + 1) < 2 ^ 32" "unat s2 + (n + 1) * unat s1 + 255 * (n * (n + 1) div 2 + (n + 1)) < 2 ^ 32"
    using Cons.prems(2,3) tri by (simp_all add: n_def)
  have u: "unat (ucast d :: u32) = unat d" by (rule unat_ucast_up)
  have s1: "unat (s1 + ucast d) = unat s1 + unat d"
    using b(1) d u by (subst unat_add_lem [THEN iffD1]) auto
  have s2: "unat (s2 + (s1 + ucast d)) = unat s2 + (unat s1 + unat d)"
  proof -
    have "unat s2 + (unat s1 + unat d) < 2 ^ 32" using b(2) d by (simp add: algebra_simps)
    then show ?thesis using s1 by (subst unat_add_lem [THEN iffD1]) simp_all
  qed
  have p: "n * (unat s1 + unat d) \<le> n * unat s1 + 255 * n" using d by (simp add: algebra_simps)
  have q: "n * unat (s1 + ucast d) \<le> n * unat s1 + 255 * n" unfolding s1 by (rule p)
  have "unat (s1 + ucast d) + 255 * length ds < 2 ^ 32" using b(1) d unfolding s1 n_def by simp
  moreover have "unat (s2 + (s1 + ucast d)) + length ds * unat (s1 + ucast d) + 255 * (length ds * (length ds + 1) div 2) < 2 ^ 32"
    using b(2) d q unfolding s2 n_def [symmetric] by (simp add: algebra_simps)
  ultimately show ?case
    using Cons.IH [of "s1 + ucast d" "s2 + (s1 + ucast d)"] Cons.prems(1) by (simp add: Let_def s1 s2)
qed simp

lemma adler_ref_mod:
  assumes "a mod m = a' mod m" "b mod m = b' mod m"
  shows "fst (adler_ref ds a b) mod m = fst (adler_ref ds a' b') mod m \<and> snd (adler_ref ds a b) mod m = snd (adler_ref ds a' b') mod m"
  using assms
proof (induction ds arbitrary: a b a' b')
  case (Cons d ds)
  have "(a + unat d) mod m = (a' + unat d) mod m" using Cons.prems(1) by (rule mod_add_cong) (rule refl)
  moreover from Cons.prems(2) this have "(b + (a + unat d)) mod m = (b' + (a' + unat d)) mod m" by (rule mod_add_cong)
  ultimately show ?case using Cons.IH [of "a + unat d" "a' + unat d"] by (simp only: adler_ref.simps)
qed simp

lemma adler_loop_ref:
  assumes "unat s1 < 65536" "unat s2 < 65536" "ds \<noteq> [] \<or> unat s1 < 65521 \<and> unat s2 < 65521"
    and "adler_loop ds s1 s2 = (t1, t2)"
  shows "unat t1 = fst (adler_ref ds (unat s1) (unat s2)) mod 65521 \<and> unat t2 = snd (adler_ref ds (unat s1) (unat s2)) mod 65521"
  using assms
proof (induction ds s1 s2 rule: adler_loop.induct)
  case (1 ds s1 s2)
  show ?case
  proof (cases "ds = []")
    case True
    then show ?thesis using "1.prems" by (simp add: adler_loop.simps [of "[]"])
  next
    case False
    let ?c = "take 5550 ds"
    obtain u1 u2 where u: "adler_sums ?c s1 s2 = (u1, u2)" by fastforce
    have l: "length ?c \<le> 5550" by simp
    have "length ?c * unat s1 \<le> 5550 * 65535" using "1.prems"(1) by (intro mult_mono) auto
    moreover have "length ?c * (length ?c + 1) div 2 \<le> 5550 * 5551 div 2" using l by (intro div_le_mono mult_mono) auto
    ultimately have f: "unat s1 + 255 * length ?c < 2 ^ 32"
        "unat s2 + length ?c * unat s1 + 255 * (length ?c * (length ?c + 1) div 2) < 2 ^ 32"
      using "1.prems"(1,2) l by simp_all
    note r = adler_sums_fit [OF f u]
    have m: "unat (u1 mod 65521) = unat u1 mod 65521" "unat (u2 mod 65521) = unat u2 mod 65521" by (simp_all add: unat_mod)
    have b: "unat (u1 mod 65521) < 65521" "unat (u2 mod 65521) < 65521" unfolding m by simp_all
    have "adler_loop (drop 5550 ds) (u1 mod 65521) (u2 mod 65521) = (t1, t2)"
      using "1.prems"(4) False u by (simp add: adler_loop.simps [of ds])
    from "1.IH" [OF False u [symmetric] _ _ _ this] b
    have t: "unat t1 = fst (adler_ref (drop 5550 ds) (unat u1 mod 65521) (unat u2 mod 65521)) mod 65521"
      "unat t2 = snd (adler_ref (drop 5550 ds) (unat u1 mod 65521) (unat u2 mod 65521)) mod 65521" by (simp_all add: m)
    have "adler_ref ds (unat s1) (unat s2) = adler_ref (drop 5550 ds) (unat u1) (unat u2)"
      using adler_ref_append [of ?c "drop 5550 ds"] r by simp
    then show ?thesis
      using t adler_ref_mod [of "unat u1 mod 65521" 65521 "unat u1" "unat u2 mod 65521" "unat u2" "drop 5550 ds"] by simp
  qed
qed

text \<open>The sum of a data: the two sums modulo the largest prime below \<open>2 ^ 16\<close>, next to each other.\<close>

lemma adler32_correct:
  "unat (adler32 ds) = (snd (adler_ref ds 1 0) mod 65521) * 65536 + fst (adler_ref ds 1 0) mod 65521"
proof -
  have 1: "(1 :: u32) AND 0xffff = 1" "drop_bit 16 (1 :: u32) AND 0xffff = 0" by simp_all
  obtain t1 t2 where t: "adler_loop ds 1 0 = (t1, t2)" by fastforce
  have v: "unat t1 = fst (adler_ref ds 1 0) mod 65521" "unat t2 = snd (adler_ref ds 1 0) mod 65521"
    using adler_loop_ref [OF _ _ _ t] by simp_all
  have b: "unat t1 < 2 ^ 16" "unat t2 < 2 ^ 16" unfolding v by (simp_all add: order_less_trans [OF mod_less_divisor])
  have "take_bit 16 (unat t1) = unat t1" using b(1) by (rule take_bit_nat_eq_self)
  moreover have "push_bit 16 x AND take_bit 16 y = 0" for x y :: nat
    by (rule bit_eqI) (auto simp: bit_and_iff bit_push_bit_iff bit_take_bit_iff)
  ultimately have "push_bit 16 (unat t2) AND unat t1 = 0" by metis
  then have "push_bit 16 (unat t2) OR unat t1 = unat t2 * 65536 + unat t1"
    by (simp add: disjunctive_add_eq_or [symmetric] push_bit_eq_mult)
  moreover have "unat (push_bit 16 t2) = push_bit 16 (unat t2)"
    using b(2) unfolding unsigned_push_bit_eq by (intro take_bit_nat_eq_self) (simp add: push_bit_eq_mult)
  ultimately have "unat (push_bit 16 t2 OR t1) = unat t2 * 65536 + unat t1" by (simp add: unsigned_or_eq)
  then show ?thesis by (simp add: adler32_def update_adler32_def 1 t v)
qed

section \<open>A corrupted byte is detected\<close>

lemma xor_same: "c XOR b = d XOR b \<longleftrightarrow> c = (d :: u32)"
  by (metis xor.assoc xor.right_neutral xor_self_eq)

lemma crc_bit_inj: "crc_bit c = crc_bit d \<longleftrightarrow> c = d"
proof
  assume e: "crc_bit c = crc_bit d"
  have top: "bit (crc_bit x) 31 = bit x 0" for x
    by (auto simp: crc_bit_def bit_xor_iff bit_drop_bit_eq dest: bit_imp_le_length)
  have 0: "bit c 0 = bit d 0" using top [of c] top [of d] e by simp
  then have "drop_bit 1 c = drop_bit 1 d" using e by (simp add: crc_bit_def xor_same split: if_splits)
  then have s: "bit c (Suc n) = bit d (Suc n)" for n by (metis bit_drop_bit_eq comp_apply plus_1_eq_Suc)
  show "c = d" by (rule bit_eqI) (metis 0 s not0_implies_Suc)
qed simp

lemma crc_byte_inj: "crc_byte c = crc_byte d \<longleftrightarrow> c = d"
  by (simp add: crc_byte_def crc_bit_inj)

lemma crc_fold_inj: "foldl (\<lambda>c b. crc_byte (c XOR ucast b)) c buf = foldl (\<lambda>c b. crc_byte (c XOR ucast b)) d buf \<longleftrightarrow> c = d"
  for buf :: "u8 list"
  by (induction buf arbitrary: c d) (simp_all add: crc_byte_inj xor_same)

lemma ucast_inj: "(ucast b :: u32) = ucast b' \<longleftrightarrow> b = (b' :: u8)"
  by (metis unat_ucast_up word_unat_eq_iff)

lemma crc32_byte_detected:
  assumes "b \<noteq> b'"
  shows "lodepng_crc32 (x @ b # y) \<noteq> lodepng_crc32 (x @ b' # y)"
proof -
  define c where "c = foldl (\<lambda>c b. crc_byte (c XOR ucast b)) 0xffffffff x"
  have "c XOR ucast b \<noteq> c XOR ucast b'" using assms xor_same [of "ucast b" c "ucast b'"] ucast_inj by (simp add: xor.commute)
  then have "foldl (\<lambda>c b. crc_byte (c XOR ucast b)) (crc_byte (c XOR ucast b)) y
      \<noteq> foldl (\<lambda>c b. crc_byte (c XOR ucast b)) (crc_byte (c XOR ucast b')) y"
    by (simp only: crc_fold_inj crc_byte_inj) simp
  then show ?thesis by (simp only: crc32_correct crc_reference_def foldl_append foldl.simps xor_same flip: c_def) simp
qed

end
