(* ===== verification/Lode_Chunk.thy ===== *)
theory Lode_Chunk
  imports Lode_Sums
begin

text \<open>
  The chunks of a PNG file (\<open>lodepng_chunk_*\<close> in \<open>lodepng.c\<close>): the length, four letters, the data
  and the check sum of letters and data. A pointer to a chunk is the list of bytes from there on; a
  list that is too short is read past its end, \<open>None\<close>.
\<close>

definition lodepng_read32bitInt :: "u8 list \<Rightarrow> u32" where
  "lodepng_read32bitInt b =
     push_bit 24 (ucast (b ! 0)) OR push_bit 16 (ucast (b ! 1)) OR push_bit 8 (ucast (b ! 2)) OR ucast (b ! 3)"

definition lodepng_set32bitInt :: "u32 \<Rightarrow> u8 list" where
  "lodepng_set32bitInt v =
     [ucast (drop_bit 24 v AND 0xff), ucast (drop_bit 16 v AND 0xff), ucast (drop_bit 8 v AND 0xff), ucast (v AND 0xff)]"

definition lodepng_chunk_length :: "u8 list \<Rightarrow> u32" where
  "lodepng_chunk_length chunk = lodepng_read32bitInt chunk"

definition lodepng_chunk_type :: "u8 list \<Rightarrow> u8 list" where
  "lodepng_chunk_type chunk = map (\<lambda>i. chunk ! (4 + i)) [0..<4]"

definition lodepng_chunk_type_equals :: "u8 list \<Rightarrow> u8 list \<Rightarrow> bool" where
  "lodepng_chunk_type_equals chunk type =
     (if length type \<noteq> 4 then False
      else chunk ! 4 = type ! 0 \<and> chunk ! 5 = type ! 1 \<and> chunk ! 6 = type ! 2 \<and> chunk ! 7 = type ! 3)"

definition lodepng_chunk_data :: "u8 list \<Rightarrow> u8 list" where
  "lodepng_chunk_data chunk = drop 8 chunk"

text \<open>The sum is taken over \<open>length + 4\<close> bytes from the letters on, in \<open>unsigned\<close>; 0 is a good chunk.\<close>

definition lodepng_chunk_check_crc :: "u8 list \<Rightarrow> nat option" where
  "lodepng_chunk_check_crc chunk =
     (let len = lodepng_chunk_length chunk in
      if length chunk < 8 \<or> length chunk < unat (len + 8) + 4 \<or> length chunk < 4 + unat (len + 4) then None
      else if lodepng_read32bitInt (drop (unat (len + 8)) chunk) \<noteq> lodepng_crc32 (take (unat (len + 4)) (drop 4 chunk))
      then Some 1 else Some 0)"

definition lodepng_chunk_generate_crc :: "u8 list \<Rightarrow> u8 list option" where
  "lodepng_chunk_generate_crc chunk =
     (let len = lodepng_chunk_length chunk in
      if length chunk < 8 \<or> length chunk < 8 + unat len + 4 \<or> length chunk < 4 + unat (len + 4) then None
      else Some (take (8 + unat len) chunk @ lodepng_set32bitInt (lodepng_crc32 (take (unat (len + 4)) (drop 4 chunk)))
        @ drop (8 + unat len + 4) chunk))"

definition lodepng_chunk_next :: "u8 list \<Rightarrow> u8 list" where
  "lodepng_chunk_next chunk = drop (unat (lodepng_chunk_length chunk + 12)) chunk"

text \<open>
  Creating a chunk at the end of \<open>out\<close>: the error and the new buffer. \<open>W\<close> is the width of \<open>size_t\<close>,
  \<open>grows\<close> says that the reallocation succeeds. \<open>None\<close> is a read past the data or the letters.
\<close>

definition lodepng_chunk_create :: "nat \<Rightarrow> bool \<Rightarrow> u8 list \<Rightarrow> u32 \<Rightarrow> u8 list \<Rightarrow> u8 list \<Rightarrow> (nat \<times> u8 list) option" where
  "lodepng_chunk_create W grows out len type data =
     (let new_length = (length out + unat len + 12) mod 2 ^ W in
      if new_length < unat (len + 12) \<or> new_length < length out then Some (77, out)
      else if \<not> grows then Some (83, out)
      else if length type < 4 \<or> length data < unat len then None
      else map_option (\<lambda>chunk. (0, out @ chunk))
        (lodepng_chunk_generate_crc (lodepng_set32bitInt len @ take 4 type @ take (unat len) data @ [0, 0, 0, 0])))"

section \<open>A chunk that was created is read back\<close>

lemma and_ff: "x AND 0xff = take_bit 8 x" for x :: u32
  by (simp add: take_bit_eq_mask mask_eq_exp_minus_1)

lemma read_set_32: "lodepng_read32bitInt (lodepng_set32bitInt v @ r) = v"
proof -
  have n: "(lodepng_set32bitInt v @ r) ! 0 = ucast (take_bit 8 (drop_bit 24 v))" "(lodepng_set32bitInt v @ r) ! 1 = ucast (take_bit 8 (drop_bit 16 v))"
    "(lodepng_set32bitInt v @ r) ! 2 = ucast (take_bit 8 (drop_bit 8 v))" "(lodepng_set32bitInt v @ r) ! 3 = ucast (take_bit 8 v)"
    by (simp_all add: lodepng_set32bitInt_def and_ff)
  show ?thesis
  proof (rule bit_word_eqI)
    fix m assume m: "m < LENGTH(32)"
    consider "m < 8" | "8 \<le> m" "m < 16" | "16 \<le> m" "m < 24" | "24 \<le> m" "m < 32" using m by (force simp: not_less)
    then show "bit (lodepng_read32bitInt (lodepng_set32bitInt v @ r)) m = bit v m"
      unfolding lodepng_read32bitInt_def n
      by cases (simp_all only: bit_or_iff bit_push_bit_iff bit_ucast_iff bit_take_bit_iff bit_drop_bit_eq, auto)
  qed
qed

lemma length_set_32 [simp]: "length (lodepng_set32bitInt v) = 4"
  by (simp add: lodepng_set32bitInt_def)

text \<open>The bytes of a chunk that was created.\<close>

lemma chunk_bytes:
  assumes "lodepng_chunk_create W True out len type data = Some (0, out')" "unat len + 12 < 2 ^ 32"
  obtains p where "p = take 4 type @ take (unat len) data" "length p = unat len + 4"
    "out' = out @ lodepng_set32bitInt len @ p @ lodepng_set32bitInt (lodepng_crc32 p)" "4 \<le> length type" "unat len \<le> length data"
proof -
  let ?b = "lodepng_set32bitInt len @ take 4 type @ take (unat len) data @ [0, 0, 0, 0]"
  have k: "unat (len + 4) = unat len + 4" using assms(2) by (simp add: unat_word_ariths)
  from assms(1) obtain chunk where c: "lodepng_chunk_generate_crc ?b = Some chunk" "out' = out @ chunk"
    and l: "4 \<le> length type" "unat len \<le> length data"
    by (auto simp: lodepng_chunk_create_def Let_def split: if_splits)
  define p where "p = take 4 type @ take (unat len) data"
  have p: "length p = unat len + 4" using l by (simp add: p_def)
  have "chunk = lodepng_set32bitInt len @ p @ lodepng_set32bitInt (lodepng_crc32 p)"
    using c(1) p by (simp add: lodepng_chunk_generate_crc_def Let_def lodepng_chunk_length_def read_set_32 k p_def split: if_splits)
  with that [OF p_def p] c(2) l show ?thesis by simp
qed

text \<open>The check of such bytes, whatever follows them.\<close>

lemma check_crc_bytes:
  assumes "length p = unat len + 4" "unat len + 12 < 2 ^ 32"
  shows "lodepng_chunk_check_crc (lodepng_set32bitInt len @ p @ lodepng_set32bitInt crc @ r) = Some (if crc = lodepng_crc32 p then 0 else 1)"
proof -
  have k: "unat (len + 4) = unat len + 4" "unat (len + 8) = unat len + 8"
    using assms(2) by (simp_all add: unat_word_ariths)
  show ?thesis using assms(1)
    by (simp add: lodepng_chunk_check_crc_def Let_def lodepng_chunk_length_def k read_set_32)
qed

lemma chunk_created:
  assumes "lodepng_chunk_create W True out len type data = Some (0, out')" "unat len + 12 < 2 ^ 32"
  shows "\<exists>chunk. out' = out @ chunk \<and> length chunk = unat len + 12 \<and> lodepng_chunk_length (chunk @ r) = len
    \<and> lodepng_chunk_type (chunk @ r) = take 4 type \<and> take (unat len) (lodepng_chunk_data (chunk @ r)) = take (unat len) data
    \<and> lodepng_chunk_check_crc (chunk @ r) = Some 0 \<and> lodepng_chunk_next (chunk @ r) = r"
proof -
  from assms obtain p where p: "p = take 4 type @ take (unat len) data" "length p = unat len + 4"
    and o: "out' = out @ lodepng_set32bitInt len @ p @ lodepng_set32bitInt (lodepng_crc32 p)" and l: "4 \<le> length type" "unat len \<le> length data"
    by (rule chunk_bytes)
  let ?c = "lodepng_set32bitInt len @ p @ lodepng_set32bitInt (lodepng_crc32 p)"
  have k: "unat (len + 12) = unat len + 12" using assms(2) by (simp add: unat_word_ariths)
  have len: "lodepng_chunk_length (?c @ r) = len" by (simp add: lodepng_chunk_length_def read_set_32)
  have "map (\<lambda>i. (lodepng_set32bitInt len @ type' @ x) ! (4 + i)) [0..<4] = type'" if "length type' = 4" for type' x
    using that by (intro nth_equalityI) (simp_all add: nth_append)
  then have "lodepng_chunk_type (?c @ r) = take 4 type" using l(1) by (simp add: lodepng_chunk_type_def p(1))
  moreover have "lodepng_chunk_check_crc (?c @ r) = Some 0" using check_crc_bytes [OF p(2) assms(2)] by simp
  moreover have "lodepng_chunk_next (?c @ r) = r" using p(2) unfolding lodepng_chunk_next_def len k by simp
  moreover have "take (unat len) (lodepng_chunk_data (?c @ r)) = take (unat len) data"
    using l by (simp add: lodepng_chunk_data_def p(1))
  ultimately show ?thesis using o len p(2) by (intro exI [of _ ?c]) simp
qed

text \<open>One byte of the letters or the data changed, and the chunk does not pass.\<close>

lemma chunk_corrupted:
  assumes "lodepng_chunk_create W True out len type data = Some (0, out')" "unat len + 12 < 2 ^ 32"
    and "4 \<le> i" "i < unat len + 8" "b \<noteq> drop (length out) out' ! i"
  shows "lodepng_chunk_check_crc ((drop (length out) out')[i := b]) = Some 1"
proof -
  from assms(1,2) obtain p where p: "length p = unat len + 4"
    and o: "out' = out @ lodepng_set32bitInt len @ p @ lodepng_set32bitInt (lodepng_crc32 p)" by (rule chunk_bytes)
  define j where "j = i - 4"
  have j: "i = 4 + j" "j < length p" using assms(3,4) p by (simp_all add: j_def)
  have b: "b \<noteq> p ! j" using assms(5) j by (simp add: o nth_append)
  have "(drop (length out) out')[i := b] = lodepng_set32bitInt len @ p[j := b] @ lodepng_set32bitInt (lodepng_crc32 p)"
    using j by (simp add: o list_update_append)
  moreover have "lodepng_crc32 p \<noteq> lodepng_crc32 (p[j := b])"
    using crc32_byte_detected [OF b [symmetric], of "take j p" "drop (Suc j) p"] j(2)
    by (simp add: upd_conv_take_nth_drop flip: id_take_nth_drop)
  ultimately show ?thesis using check_crc_bytes [of "p[j := b]" len "lodepng_crc32 p" "[]"] p assms(2) by simp
qed

end
