(* ===== verification/Lode_Filter.thy ===== *)
theory Lode_Filter
  imports Bano_Prelude
begin

text \<open>
  The filters of PNG in \<open>lodepng.c\<close>: what the lines of an image are replaced with before they are
  compressed, and how a decoder gets them back. A line and a previous line are lists of bytes, the
  previous line of the first one is \<open>NULL\<close>, here \<open>None\<close>. An access past the end of a line is
  \<open>None\<close> for the function.
\<close>

section \<open>Colors\<close>

datatype LodePNGColorType = LCT_GREY | LCT_RGB | LCT_PALETTE | LCT_GREY_ALPHA | LCT_RGBA

fun getNumColorChannels :: "LodePNGColorType \<Rightarrow> nat" where
  "getNumColorChannels LCT_GREY = 1"
| "getNumColorChannels LCT_RGB = 3"
| "getNumColorChannels LCT_PALETTE = 1"
| "getNumColorChannels LCT_GREY_ALPHA = 2"
| "getNumColorChannels LCT_RGBA = 4"

definition lodepng_get_bpp_lct :: "LodePNGColorType \<Rightarrow> u32 \<Rightarrow> u32" where
  "lodepng_get_bpp_lct colortype bitdepth = of_nat (getNumColorChannels colortype) * bitdepth"

text \<open>The error code of a combination, 0 for one that is allowed.\<close>

definition checkColorValidity :: "LodePNGColorType \<Rightarrow> u32 \<Rightarrow> nat" where
  "checkColorValidity colortype bd =
     (case colortype of
        LCT_GREY \<Rightarrow> if bd \<notin> {1, 2, 4, 8, 16} then 37 else 0
      | LCT_RGB \<Rightarrow> if bd \<notin> {8, 16} then 37 else 0
      | LCT_PALETTE \<Rightarrow> if bd \<notin> {1, 2, 4, 8} then 37 else 0
      | LCT_GREY_ALPHA \<Rightarrow> if bd \<notin> {8, 16} then 37 else 0
      | LCT_RGBA \<Rightarrow> if bd \<notin> {8, 16} then 37 else 0)"

text \<open>The bytes of a line, in \<open>unsigned\<close>, and the distance to the byte of the pixel before.\<close>

definition linebytes :: "u32 \<Rightarrow> u32 \<Rightarrow> nat" where
  "linebytes w bpp = unat ((w * bpp + 7) div 8)"

definition bytewidth :: "u32 \<Rightarrow> nat" where
  "bytewidth bpp = unat ((bpp + 7) div 8)"

section \<open>A line\<close>

definition paethPredictor :: "u8 \<Rightarrow> u8 \<Rightarrow> u8 \<Rightarrow> u8" where
  "paethPredictor a b c =
     (let pa = \<bar>uint b - uint c\<bar>;
          pb = \<bar>uint a - uint c\<bar>;
          pc = \<bar>uint a + uint b - uint c - uint c\<bar>
      in if pc < pa \<and> pc < pb then c else if pb < pa then b else a)"

text \<open>
  The byte a filter subtracts at \<open>i\<close>, from the original line \<open>s\<close> and the one before it; the decoder
  adds the same byte, from what it has reconstructed. The case without a previous line is the code's
  own, not that of a line of zeros.
\<close>

definition average :: "u8 \<Rightarrow> u8 \<Rightarrow> u8" where
  "average a b = of_nat ((unat a + unat b) div 2)"

definition filter_byte :: "nat \<Rightarrow> nat \<Rightarrow> u8 list option \<Rightarrow> u8 list \<Rightarrow> nat \<Rightarrow> u8" where
  "filter_byte type bw prev s i =
     (if type = 1 then (if i < bw then 0 else s ! (i - bw))
      else if type = 2 then (case prev of None \<Rightarrow> 0 | Some p \<Rightarrow> p ! i)
      else if type = 3 then
        (case prev of
           None \<Rightarrow> if i < bw then 0 else s ! (i - bw) div 2
         | Some p \<Rightarrow> if i < bw then p ! i div 2 else average (s ! (i - bw)) (p ! i))
      else if type = 4 then
        (case prev of
           None \<Rightarrow> if i < bw then 0 else s ! (i - bw)
         | Some p \<Rightarrow> if i < bw then p ! i else paethPredictor (s ! (i - bw)) (p ! i) (p ! (i - bw)))
      else 0)"

text \<open>The loops up to \<open>bytewidth\<close> run past a line that is shorter than a pixel.\<close>

definition past_line :: "nat \<Rightarrow> nat \<Rightarrow> u8 list option \<Rightarrow> nat \<Rightarrow> bool" where
  "past_line type bw prev len =
     (type \<in> {1, 3, 4} \<and> len < bw \<or> type \<in> {2, 3, 4} \<and> (case prev of None \<Rightarrow> False | Some p \<Rightarrow> length p < len))"

text \<open>An unknown type writes nothing.\<close>

definition filterScanline :: "u8 list \<Rightarrow> u8 list \<Rightarrow> u8 list option \<Rightarrow> nat \<Rightarrow> nat \<Rightarrow> nat \<Rightarrow> u8 list option" where
  "filterScanline out scanline prev len bw type =
     (if 4 < type then Some out
      else if length scanline < len \<or> past_line type bw prev len then None
      else Some (map (\<lambda>i. scanline ! i - filter_byte type bw prev scanline i) [0..<len]))"

text \<open>36 is the error of an unknown type.\<close>

definition unfilterScanline :: "u8 list \<Rightarrow> u8 list option \<Rightarrow> nat \<Rightarrow> nat \<Rightarrow> nat \<Rightarrow> (nat \<times> u8 list) option" where
  "unfilterScanline scanline precon bw type len =
     (if 4 < type then Some (36, [])
      else if length scanline < len \<or> past_line type bw precon len then None
      else Some (0, fold (\<lambda>i recon. recon @ [scanline ! i + filter_byte type bw precon recon i]) [0..<len] []))"

section \<open>An image\<close>

text \<open>
  The choice of the filter of a line: always the first, the one of smallest sum, a table, or one of
  the two other heuristics, whose choice among the five attempts is \<open>pick\<close>.
\<close>

datatype LodePNGFilterStrategy = LFS_ZERO | LFS_MINSUM | LFS_ENTROPY | LFS_BRUTE_FORCE | LFS_PREDEFINED

definition attempt_sum :: "nat \<Rightarrow> u8 list \<Rightarrow> nat" where
  "attempt_sum type xs =
     (if type = 0 then sum_list (map unat xs) else sum_list (map (\<lambda>x. nat \<bar>sint x\<bar>) xs))"

fun best_type :: "nat list \<Rightarrow> nat \<Rightarrow> nat \<times> nat \<Rightarrow> nat" where
  "best_type [] type (best, smallest) = best"
| "best_type (s # sums) type (best, smallest) =
     best_type sums (type + 1) (if type = 0 \<or> s < smallest then (type, s) else (best, smallest))"

definition minsum :: "u8 list list \<Rightarrow> nat" where
  "minsum attempts = best_type (map (\<lambda>t. attempt_sum t (attempts ! t)) [0..<5]) 0 (0, 0)"

text \<open>
  The filter of the line \<open>y\<close> and the filtered bytes; \<open>im\<close> is the image from the line on. \<open>None\<close> is
  an access past the image or the table, or an entry of the table that is not a filter, which leaves
  bytes unwritten. There is memory for the attempts.
\<close>

record LodePNGEncoderSettings =
  filter_palette_zero :: bool
  filter_strategy :: LodePNGFilterStrategy
  predefined_filters :: "nat list"

type_synonym heuristic = "u8 list list \<Rightarrow> nat"

definition adaptive_line :: "heuristic \<Rightarrow> nat \<Rightarrow> nat \<Rightarrow> u8 list option \<Rightarrow> u8 list \<Rightarrow> (nat \<times> u8 list) option" where
  "adaptive_line select lb bw prev im =
     map_option (\<lambda>attempts. (select attempts, attempts ! select attempts))
       (those (map (filterScanline [] im prev lb bw) [0, 1, 2, 3, 4]))"

definition filter_line ::
  "LodePNGFilterStrategy \<Rightarrow> nat list \<Rightarrow> heuristic \<Rightarrow> nat \<Rightarrow> nat \<Rightarrow> nat \<Rightarrow> u8 list option \<Rightarrow> u8 list \<Rightarrow> (nat \<times> u8 list) option" where
  "filter_line strategy predefined pick lb bw y prev im =
     (case strategy of
        LFS_ZERO \<Rightarrow> map_option (Pair 0) (filterScanline [] im prev lb bw 0)
      | LFS_MINSUM \<Rightarrow> adaptive_line minsum lb bw prev im
      | LFS_PREDEFINED \<Rightarrow>
          if y < length predefined \<and> predefined ! y \<le> 4
          then map_option (Pair (predefined ! y)) (filterScanline [] im prev lb bw (predefined ! y)) else None
      | _ \<Rightarrow> adaptive_line pick lb bw prev im)"

text \<open>The lines from \<open>y\<close> on, each with its filter in front.\<close>

fun filter_lines :: "(nat \<Rightarrow> u8 list option \<Rightarrow> u8 list \<Rightarrow> (nat \<times> u8 list) option) \<Rightarrow> nat \<Rightarrow> nat \<Rightarrow> nat \<Rightarrow> u8 list option \<Rightarrow> u8 list \<Rightarrow> u8 list option" where
  "filter_lines f lb 0 y prev im = Some []"
| "filter_lines f lb (Suc h) y prev im =
     Option.bind (f y prev im) (\<lambda>(type, line).
       map_option (\<lambda>r. of_nat type # line @ r) (filter_lines f lb h (y + 1) (Some (take lb im)) (drop lb im)))"

text \<open>The error and what is written.\<close>

definition png_filter ::
  "heuristic \<Rightarrow> u8 list \<Rightarrow> u32 \<Rightarrow> u32 \<Rightarrow> LodePNGColorType \<Rightarrow> u32 \<Rightarrow> LodePNGEncoderSettings \<Rightarrow> (nat \<times> u8 list) option" where
  "png_filter pick im w h colortype bitdepth settings =
     (let bpp = lodepng_get_bpp_lct colortype bitdepth;
          strategy = (if filter_palette_zero settings \<and> (colortype = LCT_PALETTE \<or> bitdepth < 8) then LFS_ZERO
                      else filter_strategy settings) in
      if bpp = 0 then Some (31, [])
      else map_option (Pair 0)
        (filter_lines (filter_line strategy (predefined_filters settings) pick (linebytes w bpp) (bytewidth bpp))
           (linebytes w bpp) (unat h) 0 None im))"

fun unfilter_lines :: "nat \<Rightarrow> nat \<Rightarrow> nat \<Rightarrow> u8 list option \<Rightarrow> u8 list \<Rightarrow> (nat \<times> u8 list) option" where
  "unfilter_lines lb bw 0 prev inp = Some (0, [])"
| "unfilter_lines lb bw (Suc h) prev [] = None"
| "unfilter_lines lb bw (Suc h) prev (type # inp) =
     Option.bind (unfilterScanline inp prev bw (unat type) lb) (\<lambda>(err, recon).
       if err \<noteq> 0 then Some (err, recon)
       else map_option (apsnd ((@) recon)) (unfilter_lines lb bw h (Some recon) (drop lb inp)))"

definition unfilter :: "u8 list \<Rightarrow> u32 \<Rightarrow> u32 \<Rightarrow> u32 \<Rightarrow> (nat \<times> u8 list) option" where
  "unfilter inp w h bpp = unfilter_lines (linebytes w bpp) (bytewidth bpp) (unat h) None inp"

section \<open>Unfiltering undoes filtering\<close>

lemma filter_byte_prefix:
  assumes "0 < bw" "i \<le> length s"
  shows "filter_byte type bw prev (take i s) i = filter_byte type bw prev s i"
  using assms by (auto simp: filter_byte_def nth_take split: option.splits)

lemma unfilter_fold:
  assumes "0 < bw" "n \<le> length x" "n \<le> length s" "\<And>i. i < n \<Longrightarrow> s ! i = x ! i - filter_byte type bw prev x i"
  shows "fold (\<lambda>i recon. recon @ [s ! i + filter_byte type bw prev recon i]) [0..<n] [] = take n x"
  using assms(2-4)
proof (induction n)
  case (Suc n)
  then have "fold (\<lambda>i recon. recon @ [s ! i + filter_byte type bw prev recon i]) [0..<n] [] = take n x" by simp
  moreover have "s ! n + filter_byte type bw prev (take n x) n = x ! n"
    using Suc.prems filter_byte_prefix [OF assms(1), of n x type prev] by simp
  ultimately show ?case using Suc.prems(1) by (simp add: take_Suc_conv_app_nth)
qed simp

lemma unfilter_filter_line:
  assumes "filterScanline out x prev len bw type = Some s" "type \<le> 4" "0 < bw"
  shows "length s = len \<and> unfilterScanline (s @ r) prev bw type len = Some (0, take len x)"
proof -
  have x: "len \<le> length x" "\<not> past_line type bw prev len" "s = map (\<lambda>i. x ! i - filter_byte type bw prev x i) [0..<len]"
    using assms(1,2) by (auto simp: filterScanline_def split: if_splits)
  have "fold (\<lambda>i recon. recon @ [(s @ r) ! i + filter_byte type bw prev recon i]) [0..<len] [] = take len x"
    by (rule unfilter_fold [OF assms(3) x(1)]) (auto simp: x(3) nth_append)
  then show ?thesis using assms(2) x by (simp add: unfilterScanline_def)
qed

lemma best_type_less: "best < 5 \<Longrightarrow> type + length sums \<le> 5 \<Longrightarrow> best_type sums type (best, smallest) < 5"
  by (induction sums type "(best, smallest)" arbitrary: best smallest rule: best_type.induct) auto

lemma minsum_less: "minsum attempts \<le> 4"
  using best_type_less [of 0 0 "map (\<lambda>t. attempt_sum t (attempts ! t)) [0..<5]" 0] by (simp add: minsum_def)

lemma adaptive_line_type:
  assumes "adaptive_line select lb bw prev im = Some (type, s)" "\<And>x. select x \<le> 4"
  shows "type \<le> 4 \<and> filterScanline [] im prev lb bw type = Some s"
proof -
  from assms(1) [unfolded adaptive_line_def map_option_eq_Some]
  obtain xs where m: "those (map (filterScanline [] im prev lb bw) [0, 1, 2, 3, 4]) = Some xs"
    "(select xs, xs ! select xs) = (type, s)" by blast
  then have xs: "type = select xs" "s = xs ! type" by blast+
  have "type = 0 \<or> type = 1 \<or> type = 2 \<or> type = 3 \<or> type = 4" using assms(2) [of xs] xs(1) by linarith
  then show ?thesis using m(1) xs(2) by (auto split: option.splits)
qed

lemma filter_line_type:
  assumes "filter_line strategy predefined pick lb bw y prev im = Some (type, s)" "\<And>a. pick a \<le> 4"
  shows "type \<le> 4 \<and> filterScanline [] im prev lb bw type = Some s"
  using assms adaptive_line_type [of minsum] adaptive_line_type [of pick] minsum_less
  by (auto simp: filter_line_def split: LodePNGFilterStrategy.splits if_splits)

lemma unfilter_filter_lines:
  assumes "\<And>y prev im type s. f y prev im = Some (type, s) \<Longrightarrow> type \<le> 4 \<and> filterScanline [] im prev lb bw type = Some s"
    and "0 < bw" "filter_lines f lb h y prev im = Some out" "h * lb \<le> length im"
  shows "unfilter_lines lb bw h prev out = Some (0, take (h * lb) im)"
  using assms(3,4)
proof (induction h arbitrary: y prev im out)
  case (Suc h)
  from Suc.prems(1) obtain type s r where l: "f y prev im = Some (type, s)"
    and r: "filter_lines f lb h (y + 1) (Some (take lb im)) (drop lb im) = Some r" and out: "out = of_nat type # s @ r"
    by (auto split: bind_splits)
  have t: "type \<le> 4" "filterScanline [] im prev lb bw type = Some s" using assms(1) [OF l] by simp_all
  have u: "unat (of_nat type :: u8) = type" using t(1) by (simp add: unsigned_of_nat take_bit_nat_eq_self)
  note s = unfilter_filter_line [OF t(2,1) assms(2), of r]
  have "h * lb \<le> length (drop lb im)" using Suc.prems(2) by simp
  from Suc.IH [OF r this] s show ?case
    by (simp add: out u add.commute [of lb] take_add [of lb, symmetric] flip: take_add)
qed simp

text \<open>A line that is long enough is filtered, by every filter.\<close>

lemma filterScanline_total:
  assumes "lb \<le> length im" "bw \<le> lb" "case prev of None \<Rightarrow> True | Some p \<Rightarrow> length p = lb" "type \<le> 4"
  shows "\<exists>s. filterScanline [] im prev lb bw type = Some s"
  using assms by (auto simp: filterScanline_def past_line_def split: option.splits)

lemma adaptive_line_total:
  assumes "lb \<le> length im" "bw \<le> lb" "case prev of None \<Rightarrow> True | Some p \<Rightarrow> length p = lb"
  shows "\<exists>x. adaptive_line select lb bw prev im = Some x"
  using filterScanline_total [OF assms, of 0] filterScanline_total [OF assms, of 1] filterScanline_total [OF assms, of 2]
    filterScanline_total [OF assms, of 3] filterScanline_total [OF assms, of 4]
  by (auto simp: adaptive_line_def)

definition filters_given :: "LodePNGFilterStrategy \<Rightarrow> nat list \<Rightarrow> nat \<Rightarrow> bool" where
  "filters_given strategy predefined h \<longleftrightarrow> (strategy = LFS_PREDEFINED \<longrightarrow> h \<le> length predefined \<and> list_all (\<lambda>t. t \<le> 4) predefined)"

lemma filter_line_total:
  assumes "lb \<le> length im" "bw \<le> lb" "case prev of None \<Rightarrow> True | Some p \<Rightarrow> length p = lb"
    and "filters_given strategy predefined h" "y < h"
  shows "\<exists>x. filter_line strategy predefined pick lb bw y prev im = Some x"
proof (cases "strategy = LFS_PREDEFINED")
  case True
  then have "y < length predefined" "predefined ! y \<le> 4" using assms(4,5) by (auto simp: filters_given_def list_all_length)
  then show ?thesis using filterScanline_total [OF assms(1-3), of "predefined ! y"] True by (auto simp: filter_line_def)
next
  case False
  then show ?thesis
    using filterScanline_total [OF assms(1-3), of 0] adaptive_line_total [OF assms(1-3), of minsum]
      adaptive_line_total [OF assms(1-3), of pick]
    by (cases strategy) (auto simp: filter_line_def)
qed

lemma filter_lines_total:
  assumes "h * lb \<le> length im" "bw \<le> lb" "case prev of None \<Rightarrow> True | Some p \<Rightarrow> length p = lb"
    and "filters_given strategy predefined (y + h)" "\<And>a. pick a \<le> 4"
  shows "\<exists>out. filter_lines (filter_line strategy predefined pick lb bw) lb h y prev im = Some out \<and> length out = h * (lb + 1)"
  using assms(1,3,4)
proof (induction h arbitrary: y prev im)
  case (Suc h)
  have l: "lb \<le> length im" "h * lb \<le> length (drop lb im)" using Suc.prems(1) by auto
  obtain type s where f: "filter_line strategy predefined pick lb bw y prev im = Some (type, s)"
    using filter_line_total [OF l(1) assms(2) Suc.prems(2,3), of y pick] by auto
  have "type \<le> 4" "filterScanline [] im prev lb bw type = Some s" using filter_line_type [OF f assms(5)] by simp_all
  then have "length s = lb" by (auto simp: filterScanline_def split: if_splits)
  moreover obtain r where "filter_lines (filter_line strategy predefined pick lb bw) lb h (y + 1) (Some (take lb im)) (drop lb im) = Some r"
      "length r = h * (lb + 1)"
    using Suc.IH [OF l(2), of "Some (take lb im)" "y + 1"] l(1) Suc.prems(3) by auto
  ultimately show ?case by (simp add: f)
qed simp

lemma valid_bpp:
  assumes "checkColorValidity ct bd = 0"
  shows "lodepng_get_bpp_lct ct bd \<in> {1, 2, 4, 8, 16, 24, 32, 48, 64}"
  using assms by (cases ct) (auto simp: checkColorValidity_def lodepng_get_bpp_lct_def split: if_splits)

lemma line_sizes:
  assumes "bpp \<in> {1, 2, 4, 8, 16, 24, 32, 48, 64}" "0 < w" "unat w * unat bpp + 7 < 2 ^ 32"
  shows "0 < bytewidth bpp" "bytewidth bpp \<le> linebytes w bpp"
proof -
  show "0 < bytewidth bpp" using assms(1) by (auto simp: bytewidth_def unat_div)
  have "unat (w * bpp + 7) = unat w * unat bpp + 7"
    using assms(3) by (simp add: unat_word_ariths)
  moreover have "1 \<le> unat w" using assms(2) by (simp add: unat_gt_0 Suc_le_eq)
  then have "unat bpp \<le> unat w * unat bpp" by simp
  moreover have "unat (bpp + 7) = unat bpp + 7" using assms(1) by auto
  ultimately show "bytewidth bpp \<le> linebytes w bpp"
    by (simp add: bytewidth_def linebytes_def unat_div div_le_mono)
qed

lemma png_filter_round_trip:
  assumes "checkColorValidity ct bd = 0" "bpp = lodepng_get_bpp_lct ct bd" "0 < w" "unat w * unat bpp + 7 < 2 ^ 32"
    and "unat h * linebytes w bpp \<le> length im" "filters_given (filter_strategy settings) (predefined_filters settings) (unat h)"
    and "\<And>a. pick a \<le> 4"
  shows "\<exists>out. png_filter pick im w h ct bd settings = Some (0, out) \<and> length out = unat h * (linebytes w bpp + 1)
    \<and> unfilter out w h bpp = Some (0, take (unat h * linebytes w bpp) im)"
proof -
  have bpp: "bpp \<in> {1, 2, 4, 8, 16, 24, 32, 48, 64}" unfolding assms(2) by (rule valid_bpp [OF assms(1)])
  then have n: "bpp \<noteq> 0" by auto
  note s = line_sizes [OF bpp assms(3,4)]
  define strategy where "strategy = (if filter_palette_zero settings \<and> (ct = LCT_PALETTE \<or> bd < 8) then LFS_ZERO
                      else filter_strategy settings)"
  have g: "filters_given strategy (predefined_filters settings) (0 + unat h)"
    using assms(6) by (simp add: strategy_def filters_given_def)
  obtain out where o: "filter_lines (filter_line strategy (predefined_filters settings) pick (linebytes w bpp) (bytewidth bpp))
      (linebytes w bpp) (unat h) 0 None im = Some out" "length out = unat h * (linebytes w bpp + 1)"
    using filter_lines_total [where pick = pick and prev = None, OF assms(5) s(2) _ g assms(7)] by auto
  have "unfilter out w h bpp = Some (0, take (unat h * linebytes w bpp) im)"
    unfolding unfilter_def by (rule unfilter_filter_lines [OF filter_line_type [where pick = pick, OF _ assms(7)] s(1) o(1) assms(5)])
  with o show ?thesis using n by (simp add: png_filter_def Let_def strategy_def flip: assms(2))
qed

end
