(* ===== verification/Bano_Examples.thy ===== *)
theory Bano_Examples
  imports Bano_Exchange Bano_Example Bano_Server Bano_Creds Bano_Form Matrix_Cbc Lode_Chunk Lode_Filter
begin

text \<open>
  The parameters of the whole program at a concrete value, next to the station of
  \<open>Bano_Example\<close>: libraries that accept every call, a configuration file with a radio socket and
  a node, an application on a node, a camera and an SMS client.
\<close>

section \<open>Configuration\<close>

definition ex_httpd_lib :: "u32 list httpd_lib" where
  "ex_httpd_lib = base_lib.extend (ex_lib\<lparr>files := \<lambda>p. if p = ''c/b'' then
       Some ''socket { type = snrf dev_path = tty } base { new_nodes = true }'' else None\<rparr>)
     \<lparr>pipe_write = \<lambda>m w. (Ok, w), cam_get_image = \<lambda>w. ([], []), mg_authorize_digest = \<lambda>c f. True,
      os_pipe = \<lambda>w. (Some (7, 8), w), os_mutex_init = \<lambda>w. (Ok, w), os_mutex_destroy = \<lambda>w. w,
      os_cond_init = \<lambda>w. (Ok, w), os_cond_destroy = \<lambda>w. w, os_close = \<lambda>fd w. w,
      mg_create_server = \<lambda>w. (Ok, w), mg_set_option = \<lambda>k v w. w, mg_start_thread = \<lambda>w. w,
      mg_stop_thread = \<lambda>w. w, mg_destroy_server = \<lambda>w. w\<rparr>"

definition ex_env :: "u32 list conf_env" where
  "ex_env = \<lparr>ce_lib = ex_httpd_lib, ce_W = 64, ce_fuel = 9, ce_dir = (\<lambda>_. None), ce_after = (\<lambda>_. []),
     ce_socket_info = (\<lambda>_. \<lparr>si_type = BANO_SOCKET_TYPE_INVALID, si_snrf = \<lparr>dev_path = [], addr_width = 4, addr_val = 0\<rparr>, si_httpd = 0\<rparr>),
     ce_node_info = (\<lambda>_. \<lparr>ni_flags = 0, ni_addr = 0, ni_name = [], ni_seed = 0, ni_nodl_id = 0, ni_socket = 0\<rparr>),
     ce_httpd_info = (\<lambda>_. \<lparr>hi_flags = 0, hi_port = 0\<rparr>),
     ce_cam_info = (\<lambda>_. \<lparr>cam_info.ci_flags = 0, ci_id = 0, ci_fmt = BANO_CAM_FMT_INVALID\<rparr>),
     ce_sms_info = (\<lambda>_. \<lparr>sms_addr = None, sms_port = None, sms_creds = []\<rparr>),
     ce_cam_open = (\<lambda>i w. (Ok, w)), ce_cam_close = (\<lambda>w. w), ce_sms_open = (\<lambda>i w. (Ok, w)), ce_sms_close = (\<lambda>w. w)\<rparr>"

definition ex_base_info :: base_info where
  "ex_base_info = \<lparr>ba_flags = BANO_BASE_FLAG_CONF, ba_conf_path = ''c/b'', ba_addr = 0\<rparr>"

text \<open>The caller's memory: forty addresses for \<open>malloc\<close>, and nothing allocated.\<close>

definition ex_memory :: "u32 list base" where
  "ex_memory = ex_base\<lparr>node_at := (\<lambda>_. None), socket_at := (\<lambda>_. None), io_at := (\<lambda>_. None),
     b_nodes := [], b_sockets := [], b_timers := bano_timer_init (\<lambda>_. None) (\<lambda>_. None), b_mls := [60..<100]\<rparr>"

definition ex_station :: "u32 list station" where
  "ex_station = \<lparr>st_base = ex_memory, st_httpd = None, st_psr = \<lparr>psr = parser_init, mls = [], live = {}\<rparr>\<rparr>"

lemma ex_open:
  "\<exists>s. bano_open ex_env ex_base_info ex_station = Done (Ok, s) \<and> st_mls s \<noteq> []
     \<and> map (\<lambda>x. map_option s_type (socket_at (st_base s) (snd x))) (b_sockets (st_base s)) = [Some BANO_SOCKET_TYPE_SNRF]"
proof -
  have "case bano_open ex_env ex_base_info ex_station of
      Done (Ok, s) \<Rightarrow> st_mls s \<noteq> []
        \<and> map (\<lambda>x. map_option s_type (socket_at (st_base s) (snd x))) (b_sockets (st_base s)) = [Some BANO_SOCKET_TYPE_SNRF]
    | _ \<Rightarrow> False"
    by code_simp
  then show ?thesis by (simp split: outcome.splits prod.splits rc.splits)
qed

lemma ex_fresh_memory: "fresh_memory (st_base ex_station)"
  by (simp add: fresh_memory_def ex_station_def ex_memory_def ex_base_def)

section \<open>The exchange with a node\<close>

definition ex_crypto :: crypto_lib where
  "ex_crypto = \<lparr>av_xtea_enc = xtea_enc, av_xtea_dec = xtea_dec, aes128_dec = (\<lambda>d k. d)\<rparr>"

text \<open>An application that answers every read with 9 and acknowledges every write; its state is the last value written.\<close>

definition ex_handlers :: "u32 handlers" where
  "ex_handlers = \<lparr>bano_set_handler = (\<lambda>k v u. (1, v)), bano_get_handler = (\<lambda>k u. (0, 9, u)),
     bano_timer_handler = (\<lambda>u. (u, [])), bano_pcint_handler = (\<lambda>u. (u, []))\<rparr>"

definition ex_node_config :: node_config where
  "ex_node_config = \<lparr>cfg_addr = 0xa1, cfg_alg = BANO_CIPHER_ALG_XTEA, cfg_key = replicate 16 7, cfg_fcpu = 16000000\<rparr>"

text \<open>The station of \<open>ex_base\<close>, whose node now uses the cipher.\<close>

definition ex_secret_base :: "u32 list base" where
  "ex_secret_base = ex_base\<lparr>node_at := (\<lambda>a. if a = 2 then Some (ex_node\<lparr>n_flags := BANO_NODE_FLAG_CIPHER\<rparr>) else None)\<rparr>"

lemma ex_secret_base_inv: "base_inv ex_secret_base"
  by (simp add: base_inv_def base_wf_def mls_fresh_def nodes_of_def used_def node_items_def node_ios_def
      base_node_ok_def node_wf_def ex_dict_wf ex_secret_base_def ex_defs)

definition ex_full_base :: "u32 list base" where
  "ex_full_base = ex_base\<lparr>b_nodls := Some ex_dict\<rparr>"

lemma ex_nodls: "dict_all P ex_dict" "dict_pairs ex_dict = []"
  by (simp_all add: dict_all_def dict_pairs_def ex_dict_def)

lemma ex_opened_ok: "opened_ok ex_full_base"
proof -
  have "base_inv ex_full_base = base_inv ex_base" by (rule base_inv_cong) (simp_all add: ex_full_base_def)
  then show ?thesis using ex_base_inv(1) ex_nodls(1)
    by (simp add: opened_ok_def ex_full_base_def) (simp add: ex_base_def)
qed

definition ex_main_lib :: "u32 list main_lib" where
  "ex_main_lib = loop_lib.extend (base_lib.extend ex_lib \<lparr>select = \<lambda>n r w t v. (Select_Error, v)\<rparr>)
     \<lparr>printf = \<lambda>s w. w, seteuid_0 = \<lambda>w. w, signal_sigint = \<lambda>w. w\<rparr>"

section \<open>Camera and messages\<close>

text \<open>Fixed point numbers with five digits.\<close>

definition ex_fp :: "int fp" where
  "ex_fp = \<lparr>fp_int = (\<lambda>x. x * 100000), fp_lit = int, fp_add = (+), fp_sub = (-), fp_mul = (\<lambda>x y. x * y div 100000),
     fp_trunc = (\<lambda>x. x div 100000)\<rparr>"

text \<open>A device without streaming that is always ready; its state counts the reads.\<close>

definition ex_video :: "nat video" where
  "ex_video = \<lparr>v_open = (\<lambda>p s. (Some 3, s)), v_close = (\<lambda>fd s. s), v_querycap = (\<lambda>fd s. (Some V4L2_CAP_VIDEO_CAPTURE, s)),
     v_g_fmt = (\<lambda>fd s. (Ok, s)), v_s_fmt = (\<lambda>fd w h c s. (Ok, s)), v_reqbufs = (\<lambda>fd n s. (None, s)),
     v_querybuf = (\<lambda>fd b s. ((Err, b), s)), v_qbuf = (\<lambda>fd b s. (Err, s)), v_dqbuf = (\<lambda>fd s. (None, s)),
     v_streamon = (\<lambda>fd s. (Err, s)), v_streamoff = (\<lambda>fd s. (Err, s)), v_getfl = (\<lambda>fd s. 0), v_fcntl = (\<lambda>fd x s. s),
     v_select = (\<lambda>fd t s. (Sel_Ready, s)), v_read = (\<lambda>fd n s. (Some (replicate n (of_nat s)), s + 1)),
     v_mmap = (\<lambda>fd n x s. (None, s)), v_munmap = (\<lambda>a n s. s), v_mem = (\<lambda>s a. []), v_png = (\<lambda>d w h. Some (take 4 d))\<rparr>"

definition ex_cam :: cam where
  "ex_cam = \<lparr>cam_fd = 0, cam_fmt = BANO_CAM_FMT_INVALID, is_mmap_enabled = False, is_dummy = False,
     fb_data = [Map_Failed, Map_Failed], fb_size = [0, 0], fb_v4l2 = [], fb_count = 0,
     cam_bmp = \<lparr>bmp_bpp = 0, bmp_width = 0, bmp_height = 0, mem_buf = [], data_size = 0\<rparr>, png_buf = None, png_size = 0\<rparr>"

definition ex_cam_info :: cam_info where
  "ex_cam_info = \<lparr>cam_info.ci_flags = 0, ci_id = 0, ci_fmt = BANO_CAM_FMT_YUYV_160_120\<rparr>"

lemma ex_cam_open:
  "\<exists>ms c. bano_cam_open ex_video (replicate 921600 0) [60, 61] ex_cam ex_cam_info 0 = (Ok, ms, c, 0)
     \<and> \<not> is_dummy c \<and> \<not> is_mmap_enabled c \<and> cam_fmt c = BANO_CAM_FMT_YUYV_160_120"
  by (simp add: bano_cam_open_def ex_cam_info_def Let_def bano_bmp_open_def ex_video_def set_format_def
      start_mmap_disabled_def ex_cam_def V4L2_CAP_STREAMING_def V4L2_CAP_VIDEO_CAPTURE_def format_to_frame_size_def
      V4L2_PIX_FMT_YUV420_def V4L2_PIX_FMT_YUYV_def set_nonblock_def)

text \<open>A library that accepts every call, around a block cipher; the server answers one line.\<close>

definition ex_reply_data :: ssl_data where
  "ex_reply_data = \<lparr>sd_bytes = str_bytes ''HTTP/1.0 500 Error'' @ [13, 10, 13, 10], sd_prev = 0, sd_next = 0\<rparr>"

definition ex_ssl_lib :: "(u8 list \<Rightarrow> 'k option) \<Rightarrow> ('k \<Rightarrow> u8 list \<Rightarrow> u8 list) \<Rightarrow> ('k \<Rightarrow> u8 list \<Rightarrow> u8 list) \<Rightarrow> (nat, 'k) ssl_lib" where
  "ex_ssl_lib ini enc decr = \<lparr>sl_open = (\<lambda>s. (Ok, s)), sl_close = (\<lambda>s. s), sl_getenv = (\<lambda>n. Some ''k''), sl_aes_init = ini,
     sl_aes_enc = enc, sl_aes_dec = decr, sl_inet_addr = (\<lambda>a. 0),
     sl_socket = (\<lambda>s. (4, s)), sl_cloexec = (\<lambda>fd s. s), sl_connect = (\<lambda>fd p a s. (0, s)),
     sl_new_session = (\<lambda>fd a s. (MATRIXSSL_REQUEST_SEND, s)), sl_get_outdata = (\<lambda>s. ([], s)), sl_send = (\<lambda>fd f b s. (1, s)),
     sl_sent_data = (\<lambda>n s. (MATRIXSSL_SUCCESS, s)), sl_get_writebuf = (\<lambda>n s. (256, s)), sl_encode_writebuf = (\<lambda>b s. (Ok, s)),
     sl_get_readbuf = (\<lambda>s. (256, s)), sl_recv = (\<lambda>fd n s. (1, s)),
     sl_received_data = (\<lambda>n s. ((MATRIXSSL_APP_DATA, ex_reply_data), s)),
     sl_processed_data = (\<lambda>s. ((MATRIXSSL_SUCCESS, ex_reply_data), s)), sl_closure_alert = (\<lambda>s. (Ok, s)),
     sl_nonblock = (\<lambda>fd s. s), sl_delete_session = (\<lambda>s. s), sl_close_fd = (\<lambda>fd s. s + 1), sl_new_keys = (\<lambda>s. (Ok, s)),
     sl_load_keys = (\<lambda>s. (Ok, s)), sl_new_session_id = (\<lambda>s. s), sl_delete_keys = (\<lambda>s. s), sl_version = ''3.6.1''\<rparr>"

text \<open>The cipher is an exclusive or with the key's first byte, or the AES of the code.\<close>

definition ex_ssl :: "(nat, u8) ssl_lib" where
  "ex_ssl = ex_ssl_lib (\<lambda>b. Some (b ! 0)) (\<lambda>k. map (\<lambda>x. x XOR k)) (\<lambda>k. map (\<lambda>x. x XOR k))"

definition ex_aes_ssl :: "(nat, psAesKey) ssl_lib" where
  "ex_aes_ssl = matrix_aes (ex_ssl_lib (\<lambda>b. None) (\<lambda>k b. b) (\<lambda>k b. b))"

lemma ex_ssl_ok: "aes_ok ex_ssl" "alerts_ok ex_ssl"
  unfolding aes_ok_def
  by (unfold_locales, auto simp: alerts_ok_def ex_ssl_def ex_ssl_lib_def xor.assoc o_def)

lemma ex_aes_ssl_ok: "aes_ok ex_aes_ssl"
  unfolding ex_aes_ssl_def by (rule matrix_aes_ok)

definition ex_sms :: "u8 sms" where
  "ex_sms = \<lparr>aes_key = 0, sms_login = [], sms_pass = [], sms_sockaddr = (0, 0), addr_string = []\<rparr>"

definition ex_aes_sms :: "psAesKey sms" where
  "ex_aes_sms = \<lparr>aes_key = \<lparr>eK = [], dK = [], Nr = 0\<rparr>, sms_login = [], sms_pass = [], sms_sockaddr = (0, 0), addr_string = []\<rparr>"

section \<open>A node\<close>

definition ex_nrf :: "unit nrf_lib" where
  "ex_nrf = \<lparr>nrf_setup = (\<lambda>r. r), nrf_set_payload_width = (\<lambda>n r. r), nrf_set_addr_width = (\<lambda>n r. r), nrf_set_tx_addr = (\<lambda>a r. r),
     nrf_set_rx_addr = (\<lambda>a r. r), nrf_set_powerdown_mode = (\<lambda>r. r), nrf_set_rx_mode = (\<lambda>r. r), nrf_setup_rx_irq = (\<lambda>r. r),
     nrf_disable_rx_irq = (\<lambda>r. r), nrf_enable_rx_irq = (\<lambda>r. r), nrf_get_rx_irq = (\<lambda>r. (False, r)), nrf_peek_rx_irq = (\<lambda>r. (False, r)),
     nrf_send_payload_zero = (\<lambda>b r. r), nrf_read_payload_zero = (\<lambda>r. (replicate 17 0, r))\<rparr>"

definition ex_wait :: "(unit, u32) wait" where
  "ex_wait = \<lparr>w_pc = Wait_Start, w_ien = False, t_latch = False, p_latch = False,
     w_hw = \<lparr>TCCR1A = 0, TCCR1B = 0, TCCR1C = 0, OCR1A = 0, TCNT1 = 0, TIMSK1 = 0, PORTB = 0, PORTC = 0, PORTD = 0, DDRB = 0,
       DDRC = 0, DDRD = 0, PCICR = 0, PCMSK0 = 0, PCMSK1 = 0, PCMSK2 = 0, UCSR0B = 0, PRR = 0, MCUSR = 0, WDTCSR = 0, ACSR = 0,
       ADMUX = 0, ADCSRA = 0, ADCSRB = 0, DIDR0 = 0, CLKPR = 0, sleep_mode = SLEEP_MODE_IDLE, timer_irq = False, pcint_irq = False,
       bano_wake_mask = BANO_WAKE_MSG OR BANO_WAKE_PCINT, bano_timer_counter = 0, bano_timer_500ms = 0\<rparr>,
     w_radio = (), w_msg = io_msg ex_io, w_user = 3\<rparr>"

text \<open>Some steps of the program alone.\<close>

fun ex_steps :: "nat \<Rightarrow> (unit, u32) wait \<Rightarrow> (unit, u32) wait option" where
  "ex_steps 0 s = Some s"
| "ex_steps (Suc n) s = Option.bind (main_step ex_crypto ex_node_config ex_nrf s) (ex_steps n)"

lemma ex_steps_reach:
  "node_reach ex_crypto ex_node_config ex_nrf hs s \<Longrightarrow> ex_steps n s = Some s' \<Longrightarrow> node_reach ex_crypto ex_node_config ex_nrf hs s'"
proof (induction n arbitrary: s)
  case (Suc n)
  then show ?case by (auto split: bind_splits intro: node_reach.step node_step.program)
qed simp

lemma ex_asleep:
  "ex_steps 9 ex_wait = Some (ex_wait\<lparr>w_pc := Sleeping, w_ien := True\<rparr>)"
  by (simp add: numeral_eq_Suc main_step_def Let_def ex_wait_def wakes_def has_flag_def wake_defs ex_nrf_def)

lemma ex_asleep_reach: "node_reach ex_crypto ex_node_config ex_nrf ex_handlers (ex_wait\<lparr>w_pc := Sleeping, w_ien := True\<rparr>)"
  by (rule ex_steps_reach [OF node_reach.start ex_asleep]) (simp add: ex_wait_def)

definition ex_burst :: "(unit, tx_app) wait" where
  "ex_burst = \<lparr>w_pc = Wait_Start, w_ien = False, t_latch = False, p_latch = False, w_hw = w_hw ex_wait, w_radio = (),
     w_msg = io_msg ex_io, w_user = \<lparr>led_value = 0, magic_value = 0, led_port = 0\<rparr>\<rparr>"

section \<open>Credentials\<close>

definition ex_login_info :: sms_info where
  "ex_login_info = \<lparr>sms_addr = None, sms_port = None, sms_creds = replicate 32 65\<rparr>"

lemmas ex_ssl_defs = ex_ssl_def ex_aes_ssl_def ex_ssl_lib_def

lemma ex_sms_opens:
  assumes "length c = 32"
  shows "\<exists>h. bano_sms_open ex_aes_ssl W ex_aes_sms (ex_login_info\<lparr>sms_creds := c\<rparr>) 0 = Some (Ok, h, 0)"
proof -
  obtain buf where b: "sms_key ''k'' = Some buf" by (simp add: sms_key_def Let_def)
  with matrix_key_accepted [OF b] show ?thesis
    by (auto simp: bano_sms_open_def ex_ssl_defs ex_login_info_def sms_address_def bano_sms_decrypt_creds_def Let_def)
qed

lemma ex_tool_prints:
  "\<exists>t. sms_creds_main ex_aes_ssl W ex_aes_sms ex_login_info [''-e'', ''12345678'', ''abcdefghijklmn''] 0 = Some (Ok, t, 0)"
proof -
  have "bano_sms_init_info ex_login_info = ex_login_info\<lparr>sms_creds := sms_creds (bano_sms_init_info ex_login_info)\<rparr>"
    by (simp add: bano_sms_init_info_def ex_login_info_def)
  moreover have "length (sms_creds (bano_sms_init_info ex_login_info)) = 32"
    by (simp add: bano_sms_init_info_def ex_login_info_def)
  ultimately obtain h where "bano_sms_open ex_aes_ssl W ex_aes_sms (bano_sms_init_info ex_login_info) 0 = Some (Ok, h, 0)"
    using ex_sms_opens by metis
  then show ?thesis
    by (simp add: sms_creds_main_def creds_command_def bano_sms_close_def ex_ssl_defs BANO_SMS_LOGIN_SIZE_def BANO_SMS_PASS_SIZE_def)
qed

section \<open>A page and a browser\<close>

text \<open>The row of a key of the node that can be set, and what the browser sends for it.\<close>

definition ex_row :: "u32 \<times> nodl_keyval" where
  "ex_row = (5, \<lparr>kv_flags = BANO_NODL_FLAG_SET, kv_name = ''led'', kv_key = 5\<rparr>)"

definition ex_query :: string where
  "ex_query = form_data (form_query 0xa1 5 False)"

definition ex_headers :: "(string \<times> string) list" where
  "ex_headers = [(''Host'', ''bano''), (''Content-Length'', ''12'')]"

definition ex_conn :: connection where
  "ex_conn = \<lparr>endpoint = EP_NONE, request_len = 0, conn_cl = 0,
     recv_iobuf = request_text ''POST'' ''/'' (Some ex_query) ''1.1'' ex_headers @ ''val=7&op=set'',
     mg_conn = \<lparr>request_method = [], uri = [], http_version = [], query_string = None, http_headers = [], content = [],
       content_len = 0, is_websocket = False, status_code = 0\<rparr>\<rparr>"

lemma ex_row_page: "\<exists>ts. pair_html 0 ex_node ex_row = Some (form_text ex_query # ts)"
proof -
  have "bano_dict_get ex_dict (ucast (5 :: u16)) = None"
    using ex_dict_empty [of "ucast (5 :: u16)"] by (simp only: bano_dict_get_map find_pair_None)
  then show ?thesis
    by (simp add: pair_html_def ex_node_def ex_row_def form_text_def target_text_def ex_query_def form_query_def
        bano_node_get_addr_def has_flag_def nodl_flag_defs Let_def)
qed

lemma ex_request_ok: "request_ok ''POST'' ''/'' (Some ex_query) ''1.1'' ex_headers"
  by code_simp

lemma ex_body: "form_data (form_body ''7'' ''set'') = ''val=7&op=set''" "body_len ex_headers = 12" "plain_value ''7''"
  by code_simp+

section \<open>An image\<close>

definition ex_settings :: LodePNGEncoderSettings where
  "ex_settings = \<lparr>filter_palette_zero = True, filter_strategy = LFS_MINSUM, predefined_filters = []\<rparr>"

end
