(* ===== verification/Spec2Isabelle.thy ===== *)
theory Spec2Isabelle
  imports Bano_Examples
begin

text \<open>
  Bano is a home automation system: nodes, small battery powered devices on an ATmega328P with an
  nrf24l01p radio (\<open>src/src/node\<close>), and a base station, a C program on a Linux host
  (\<open>src/src/base\<close>). Node and base exchange packed messages of 17 bytes (\<open>src/src/common\<close>), in
  clear or encrypted. The base reads a configuration, keeps for each node the values it has
  sent, posts get and set operations with retries and timeouts, and serves a web page, a
  camera image and text messages.

  The development translates the C code into executable definitions, one theory for each source
  file, in the order in which the files use each other. A function of the code is a definition
  of the same name (a suffix where the name is taken); a structure is a record, an enumeration
  a datatype, an integer a word of its width. The memory of the base is explicit where sharing
  matters: nodes, sockets and operations live in maps from addresses, a list of pointers is a
  sequence of pairs of item and pointer (\<open>items\<close>) that \<open>Bano_List\<close> proves to be what the linked
  items implement, and \<open>malloc\<close> takes its answers from a list in which 0 is a failure. Return
  codes are \<open>Ok\<close> and \<open>Err\<close>. A result \<open>None\<close>, or \<open>Fault\<close> of the type \<open>outcome\<close>, is an access to
  memory that is not there; \<open>Running\<close> is a loop whose fuel is used up. Everything outside the
  program acts on a world, a type parameter, through records of functions.

  The theories and what they model (paths under \<open>src/src\<close>):

  \<^item> \<open>Bano_Prelude\<close>: the types and lemmas that all share (bytes of words, the option monad,
    memory answers).
  \<^item> \<open>Bano_List\<close> (\<open>base/bano_list\<close>): items on a heap, and the sequence they refine (locale
    \<open>item_seq\<close> and its interpretation \<open>heap_list\<close>).
  \<^item> \<open>Bano_Timer\<close> (\<open>base/bano_timer\<close>): the list of relative deadlines; insertion refines insertion
    of an absolute deadline into a sorted sequence.
  \<^item> \<open>Bano_String\<close>, \<open>Bano_Dict\<close>, \<open>Bano_Cipher\<close> (\<open>base/bano_string\<close>, \<open>bano_dict\<close>, \<open>bano_cipher\<close>):
    conversions at the width of \<open>unsigned long\<close>, hash buckets that refine a map (locale
    \<open>kv_store\<close>), XTEA on two blocks and its inverse (locale \<open>data_cipher\<close>).
  \<^item> \<open>Bano_Msg\<close> (\<open>common/bano_common.h\<close>): the packed message and its bytes.
  \<^item> \<open>Bano_Nodl\<close> (\<open>base/bano_nodl\<close>, \<open>base/bano_node\<close>): descriptions of nodes, and nodes.
  \<^item> \<open>Bano_Parser\<close> (\<open>base/bano_parser\<close>): tokens, pairs, structures, included files, buffers; the
    file system is a function from paths to contents.
  \<^item> \<open>Bano_Socket\<close> (\<open>base/bano_socket*\<close>): sockets as function tables over the radio library.
  \<^item> \<open>Bano_Base\<close> (\<open>base/bano_base\<close>): the station: nodes, operations posted and pending, replies,
    retries; the invariant \<open>base_inv\<close> and that every handler keeps it.
  \<^item> \<open>Bano_Html\<close>, \<open>Bano_Httpd\<close> (\<open>base/bano_html\<close>, \<open>base/bano_httpd\<close>, the page and the requests of
    \<open>bano_base.c\<close>): the generated page, the decoding and handling of a request, the server's
    set up and shutdown.
  \<^item> \<open>Bano_Server\<close> (\<open>base/bano_httpd.c\<close>): the thread of the server and the event loop as an interleaving
    over the mutex, the condition, the result on the stack of \<open>on_event\<close> and the flag of the shutdown.
  \<^item> \<open>Bano_Loop\<close> (\<open>bano_start_loop\<close>): one turn with \<open>select\<close> as a parameter, and the loop with fuel.
  \<^item> \<open>Bano_Bmp\<close>, \<open>Bano_Cam\<close>, \<open>Bano_Video\<close> (\<open>base/bano_bmp\<close>, \<open>base/bano_cam\<close>): the image, the
    conversions of frames, the device in both capture modes.
  \<^item> \<open>Bano_Sms\<close> (\<open>base/bano_sms\<close>): credentials, the request, the parser of the reply's header and
    the connection as a machine.
  \<^item> \<open>Bano_Tools\<close> (\<open>util/sms_creds\<close>, \<open>util/sms_send\<close>, \<open>util/rand\<close>): the tools that print credentials,
    keys and seeds for the configuration, and the one that sends messages.
  \<^item> \<open>Bano_Config\<close>, \<open>Bano_Opened\<close> (the configuration in \<open>bano_base.c\<close>): pairs, structures,
    description directories, \<open>bano_open\<close>, \<open>bano_close\<close>; an open base satisfies the invariant.
  \<^item> \<open>Bano_Main\<close> (\<open>base/main.c\<close>): the arguments, the handlers of the commands, \<open>main\<close>.
  \<^item> \<open>Node_Runtime\<close>, \<open>Node_Wait\<close> (\<open>node/bano_node.c\<close>): the node's message handling, its registers,
    and the wait for events as a step relation that interleaves program, interrupts and hardware.
  \<^item> \<open>Bano_Exchange\<close>: the base and a node together.
  \<^item> \<open>Aes_Tables\<close>, \<open>Matrix_Aes\<close>, \<open>Aes_Vector\<close>, \<open>Matrix_Cbc\<close> (\<open>crypto/symmetric/aes.c\<close> of \<open>matrixssl\<close>): the
    tables and the algebra of their entries, keys and blocks, the example of the standard, the
    chaining. \<open>Bano_Creds\<close> interprets the locale \<open>block_cipher\<close>, on which the lemmas about credentials
    rest, on this cipher, and follows the credentials from the tool to the station.
  \<^item> \<open>Mongoose_Request\<close> (\<open>mongoose.c\<close>): a request from the receive buffer to its variables, and URL
    encoding; the texts of requests that are taken apart again. \<open>Bano_Form\<close>: from the page and what a
    browser posts for its form to the operation on the node.
  \<^item> \<open>Lode_Sums\<close>, \<open>Lode_Chunk\<close>, \<open>Lode_Filter\<close> (\<open>lodepng.c\<close>): the two check sums against their definitions,
    the chunks of a file, the filters of the lines of an image and their inverse.
  \<^item> \<open>Node_Apps\<close> (\<open>doc/node_power\<close>): the two applications of a node, their handlers and their mains.
  \<^item> \<open>Bano_Example\<close>, \<open>Bano_Examples\<close>: the concrete station, libraries and node on which the
    theorems are evaluated.

  Parameters. The radio libraries (snrf on the base, nrf24l01p on the node), the node's AES and XTEA,
  the TLS of \<open>matrixssl\<close>, the sockets, answers and authentication of \<open>mongoose\<close>, the compression of
  \<open>lodepng\<close>, the video driver, floating point and the calls of the operating system are records of
  functions. What is relied on is a named hypothesis: \<open>xtea_lib_ok\<close> (the node's XTEA is XTEA), \<open>aes_ok\<close>
  (a block cipher, which the AES of the code is proved to be), \<open>alerts_ok\<close> (an alert has two
  bytes), \<open>peek_pure\<close> (looking at a pin does not move the radio), \<open>handlers_ok\<close>, \<open>compl_ok\<close> and
  \<open>compl_world\<close> (the user's functions keep the invariant, or act on the world alone). The
  theory of each user shows that the program's own handlers satisfy them (\<open>main_handlers_ok\<close>).

  Bounds. The parser, the loop and the connection take fuel: the parser needs no more than the
  length of the text when there are no directives, which a theorem states, and every other theorem
  on them holds for each amount of fuel. Every other loop is a recursion that ends, or a partial
  function that is proved to return.

  Not modelled: of the vendored libraries under \<open>base/third\<close>, the TLS protocol and the public key
  primitives of \<open>matrixssl\<close> (and the version of AES on processor instructions), the sockets, files, CGI
  and digests of \<open>mongoose\<close>, and deflate, inflate and the color conversions of \<open>lodepng\<close>, since the
  program only calls them; the printing of error lines; \<open>bano_cam_print_formats\<close>, which is compiled
  out as unused; the program under \<open>src/unit\<close>, which only puts the processor to sleep.
\<close>

section \<open>The message path of the base\<close>








text \<open>C4: a set message that reports no error, from a node whose description knows the key (or
  that has no description), is stored: the node's value of that key is the value of the message,
  stamped with the time of its arrival, every other value is unchanged, and so are the
  operations of the node, its address and the timers. Only a key seen for the first time can be
  lost, and only when one of the two allocations it needs fails.\<close>

theorem set_message_stores_value:
  assumes "base_inv b" "na \<in> nodes_of b" "node_at b na = Some nd"
    and "\<not> has_flag (flags msg) BANO_MSG_FLAG_ERR"
    and "\<And>dl. n_nodl nd = Some dl \<Longrightarrow> \<exists>kv. bano_nodl_find_key dl (set_key msg) = Some (Some kv)"
  shows "\<exists>b' nd'. handle_set_value lib msg na b = Some b' \<and> node_at b' = (node_at b)(na \<mapsto> nd')
    \<and> io_at b' = io_at b \<and> posted_ios nd' = posted_ios nd \<and> pending_ios nd' = pending_ios nd
    \<and> n_addr nd' = n_addr nd \<and> b_timers b' = b_timers b
    \<and> (node_values nd' = (node_values nd)(ucast (set_key msg) \<mapsto> \<lparr>nv_val = set_val msg, nv_mtime = gettime lib (world b)\<rparr>)
       \<or> node_values nd (ucast (set_key msg)) = None \<and> nd' = nd
         \<and> \<not> (\<exists>p i ms. b_mls b = p # i # ms \<and> p \<noteq> 0 \<and> i \<noteq> 0))"
  by (rule handle_set_value_stores [OF assms])

theorem set_message_stores_value_witness:
  "\<exists>b' nd'. handle_set_value ex_lib ex_reply 2 ex_base = Some b' \<and> node_at b' 2 = Some nd'
     \<and> node_values nd' 5 = Some \<lparr>nv_val = 9, nv_mtime = 1000\<rparr>"
proof -
  have 1: "2 \<in> nodes_of ex_base" "node_at ex_base 2 = Some ex_node" "\<not> has_flag (flags ex_reply) BANO_MSG_FLAG_ERR"
    "n_nodl ex_node = None" "b_mls ex_base = 50 # 51 # [52, 53, 54, 55]" "gettime ex_lib (world ex_base) = 1000"
    by (simp_all add: nodes_of_def ex_base_def ex_node_def ex_lib_def ex_msg_keys has_flag_def
        BANO_MSG_FLAG_REPLY_def BANO_MSG_FLAG_ERR_def)
  have "\<exists>p i ms. b_mls ex_base = p # i # ms \<and> p \<noteq> 0 \<and> i \<noteq> 0" using 1(5) by simp
  moreover have "\<And>dl. n_nodl ex_node = Some dl \<Longrightarrow> \<exists>kv. bano_nodl_find_key dl (set_key ex_reply) = Some (Some kv)"
    using 1(4) by simp
  ultimately show ?thesis
    using set_message_stores_value [OF ex_base_inv(1) 1(1-3), of ex_lib] 1(6) by (fastforce simp: ex_msg_keys)
qed

text \<open>C5: what the base encrypts for a node, put on the wire as the 17 bytes of the packed
  structure and read back, decrypts to the message that was posted: only the encryption flag is
  added. It holds for every cipher configuration and every key.\<close>

theorem encrypted_message_round_trip:
  assumes "msg_wf m"
  shows "decrypt_msg c (bytes_msg (msg_bytes (encrypt_msg c m))) = m\<lparr>flags := flags m OR BANO_MSG_FLAG_ENC\<rparr>"
  by (simp add: decrypt_encrypt_msg [OF assms])

theorem encrypted_message_round_trip_witness:
  "decrypt_msg (b_cipher ex_base) (bytes_msg (msg_bytes (encrypt_msg (b_cipher ex_base) ex_reply)))
     = ex_reply\<lparr>flags := BANO_MSG_FLAG_REPLY OR BANO_MSG_FLAG_ENC\<rparr>"
  using encrypted_message_round_trip [OF ex_msg_wf(1)] by (simp add: ex_msg_keys)


lemma ex_write_ok:
  "bano_socket_write (snrf_lib.truncate ex_lib) ex_socket a m w = (Ok, w)"
  "bano_socket_write (snrf_lib.truncate ex_lib_down) ex_socket a m w = (Err, w)"
  by (simp_all add: bano_socket_write_def ex_socket_def snrf_do_write_def snrf_lib.truncate_def ex_lib_down_def ex_lib_def)



text \<open>C7: when the write of a posted operation fails, the base frees its nodes and then unlinks
  the list item of the operation, which went with them: the station has no next state. The
  error path meant to drop a dead socket is itself a use after free.\<close>

theorem failed_write_uses_freed_item:
  assumes "io_at b ioa = Some io" "node_at b na = Some nd" "na \<in> nodes_of b"
    and "socket_at b (n_socket nd) = Some s"
    and "fst (bano_socket_write (snrf_lib.truncate lib) s (n_addr nd)
      (if has_flag (n_flags nd) BANO_NODE_FLAG_CIPHER then encrypt_msg (b_cipher b) (io_msg io) else io_msg io)
      (world b)) = Err"
  shows "post_io lib na it ioa b = None"
  by (rule post_io_write_fails [OF assms])

theorem failed_write_uses_freed_item_witness:
  "post_io ex_lib_down 2 10 20 ex_base_posted = None"
proof -
  have "io_at ex_base_posted 20 = Some ex_io" "node_at ex_base_posted 2 = Some ex_posted"
    "2 \<in> nodes_of ex_base_posted" "socket_at ex_base_posted (n_socket ex_posted) = Some ex_socket"
    by (simp_all add: ex_base_posted_def ex_base_def ex_posted_def ex_node_def nodes_of_def)
  then show ?thesis
    by (rule failed_write_uses_freed_item) (simp add: ex_write_ok)
qed

text \<open>C8: when the timer of an unanswered operation expires and attempts are left, the operation
  goes back, whole and with one attempt less, from the pending to the posted list of its node,
  to be written again.\<close>

theorem expired_operation_is_posted_again:
  assumes "base_inv b" "na \<in> nodes_of b" "node_at b na = Some nd"
    and "map_of (pending_ios nd) it = Some ioa" "io_at b ioa = Some io" "io_node io = na"
    and "io_retry_count io \<noteq> 0" "b_mls b = p # ms" "p \<noteq> 0"
  shows "\<exists>b'. io_timer_expired lib na it b = Some b'
    \<and> node_at b' = (node_at b)(na \<mapsto> nd\<lparr>posted_ios := posted_ios nd @ [(p, ioa)],
          pending_ios := seq_del it (pending_ios nd)\<rparr>)
    \<and> io_at b' = (io_at b)(ioa \<mapsto> io\<lparr>io_retry_count := io_retry_count io - 1\<rparr>)
    \<and> b_mls b' = ms \<and> world b' = world b \<and> b_timers b' = b_timers b"
  by (rule io_timer_expired_retry [OF assms])

theorem expired_operation_is_posted_again_witness:
  "\<exists>b'. io_timer_expired ex_lib 2 10 ex_base = Some b'
     \<and> node_at b' 2 = Some (ex_node\<lparr>posted_ios := [(50, 20)], pending_ios := []\<rparr>)
     \<and> io_at b' 20 = Some (ex_io\<lparr>io_retry_count := 2\<rparr>)"
proof -
  have 1: "2 \<in> nodes_of ex_base" "node_at ex_base 2 = Some ex_node" "map_of (pending_ios ex_node) 10 = Some 20"
    "io_at ex_base 20 = Some ex_io" "io_node ex_io = 2" "io_retry_count ex_io \<noteq> 0"
    "b_mls ex_base = 50 # [51, 52, 53, 54, 55]" "(50 :: nat) \<noteq> 0"
    by (simp_all add: ex_base_def ex_node_def ex_io_def nodes_of_def)
  have "io_retry_count ex_io - 1 = 2" "posted_ios ex_node = []" "seq_del 10 (pending_ios ex_node) = []"
    by (simp_all add: ex_io_def ex_node_def)
  then show ?thesis
    using expired_operation_is_posted_again [OF ex_base_inv(1) 1, of ex_lib] by auto
qed




text \<open>C10: when reading a socket fails, the base frees every node but keeps them in its list:
  the write phase of the same turn of the loop, which walks that list, meets a freed node and
  has no result.\<close>

theorem read_error_then_write_faults:
  assumes "socket_at b sa = Some s" "socket_fd lib sa b = Some fd" "fd \<in> rs"
    and "s_type s \<noteq> BANO_SOCKET_TYPE_INVALID"
    and "bano_socket_read (snrf_lib.truncate lib) (pipes b) s (world b) = (Inl err, w)" "err \<noteq> - 2"
    and "read_msg lib linfo rs it sa b = Some (stop, b')"
    and "b_nodes b = (nit, na) # xs" "nit \<noteq> 0"
  shows "walk (Some \<circ> b_nodes) (write_msg lib ws) b' = None"
proof -
  have "na \<in> nodes_of b" using assms(8) by (simp add: nodes_of_def)
  then have "node_at b' na = None \<and> b_nodes b' = b_nodes b"
    by (rule read_error_frees_nodes [OF assms(1-7)])
  with assms(8,9) show ?thesis by (auto intro: write_to_freed_node)
qed

theorem read_error_then_write_faults_witness:
  "\<exists>b'. read_msg ex_lib ex_linfo {6} 4 3 ex_base = Some (False, b')
     \<and> walk (Some \<circ> b_nodes) (write_msg ex_lib {}) b' = None"
proof -
  have 1: "socket_at ex_base 3 = Some ex_socket" "socket_fd ex_lib 3 ex_base = Some 6" "6 \<in> {6 :: int}"
    "s_type ex_socket \<noteq> BANO_SOCKET_TYPE_INVALID"
    "bano_socket_read (snrf_lib.truncate ex_lib) (pipes ex_base) ex_socket (world ex_base) = (Inl (- 1), [])"
    "(- 1 :: int) \<noteq> - 2" and n: "b_nodes ex_base = (1, 2) # []" "(1 :: nat) \<noteq> 0"
    by (simp_all add: ex_base_def ex_socket_def socket_fd_def bano_socket_get_fd_def snrf_lib.truncate_def
        ex_lib_def bano_socket_read_def snrf_do_read_def)
  have "\<exists>b'. read_msg ex_lib ex_linfo {6} 4 3 ex_base = Some (False, b')"
    using 1 by (simp add: read_msg_def bano_socket_free_def)
      (simp add: ex_base_def bano_node_free_def ex_node_def bano_free_io_def)
  then obtain b' where b': "read_msg ex_lib ex_linfo {6} 4 3 ex_base = Some (False, b')" ..
  with read_error_then_write_faults [OF 1 b' n] show ?thesis by blast
qed

section \<open>Timers\<close>




definition ex_two_timers :: timers where
  "ex_two_timers = \<lparr>tm_list = \<lparr>l_head = 40, l_tail = 41\<rparr>,
     tm_heap = (\<lambda>_. None)(40 \<mapsto> \<lparr>it_data = 30, it_next = 41, it_prev = 0\<rparr>, 41 \<mapsto> \<lparr>it_data = 31, it_next = 0, it_prev = 40\<rparr>),
     tm_store = (\<lambda>_. None)(30 \<mapsto> \<lparr>rel_ms = 1000, t_item = 40, t_data = (2, 10)\<rparr>,
       31 \<mapsto> \<lparr>rel_ms = 700, t_item = 41, t_data = (2, 11)\<rparr>)\<rparr>"


section \<open>Lists\<close>

text \<open>C13: any sequence of appends and deletions on a linked list does what it does on a plain
  sequence of items, memory failures included, and the list stays well linked: every call that
  makes sense on the sequence ends without a fault.\<close>

theorem list_calls_refine_sequence:
  assumes "list_repr s xs" "items_run ops ms xs = Some (ms', xs')"
    and "distinct (filter (\<lambda>a. a \<noteq> 0) ms)" "\<And>a. a \<in> set ms \<Longrightarrow> a \<noteq> 0 \<Longrightarrow> snd s a = None"
  shows "\<exists>s'. seq_run list_push list_drop ops ms s = Some (ms', s') \<and> list_repr s' xs'"
  by (rule heap_list.run_refines [OF assms])

theorem list_calls_refine_sequence_witness:
  "\<exists>s'. seq_run list_push list_drop [Push (1 :: nat), Push 2, Push 3, Drop 6] [5, 6, 0] (bano_list_init, \<lambda>_. None) = Some ([], s')
     \<and> list_repr s' [(5, 1)]"
proof -
  have "items_run [Push (1 :: nat), Push 2, Push 3, Drop 6] [5, 6, 0] [] = Some ([], [(5, 1)])"
    by (simp add: items_run_def seq_add_tail_def items_del_def seq_del_def)
  then show ?thesis
    by (rule list_calls_refine_sequence [OF list_repr_init]) simp_all
qed

text \<open>C14: an item that \<open>bano_list_add_before\<close> inserted anywhere but at the head has no back
  link, so deleting it makes its successor the head of the list: every item that stood before it
  is lost.\<close>

theorem add_before_then_del_loses_items:
  assumes "dll h l (ys @ x # zs)" "ys \<noteq> []" "malloc ms = (i, ms')" "i \<noteq> 0" "h i = None"
  shows "\<exists>h' l'' h''. bano_list_add_before ms l x p h = Some (Ok, ms', l, h')
    \<and> bano_list_del l i h' = Some (l'', h'') \<and> dll h'' l'' (x # zs)"
  by (rule add_before_mid_del_loses_prefix [OF assms, of p]) blast

theorem add_before_then_del_loses_items_witness:
  "\<exists>h' l'' h''. bano_list_add_before [42] (tm_list ex_two_timers) 41 7 (tm_heap ex_two_timers) = Some (Ok, [], tm_list ex_two_timers, h')
     \<and> bano_list_del (tm_list ex_two_timers) 42 h' = Some (l'', h'') \<and> dll h'' l'' [41]"
proof -
  have "dll (tm_heap ex_two_timers) (tm_list ex_two_timers) ([40] @ 41 # [])"
    by (simp add: dll_def last_or_def ex_two_timers_def)
  then show ?thesis
    by (rule add_before_then_del_loses_items) (simp_all add: ex_two_timers_def)
qed

section \<open>Dictionaries\<close>

text \<open>C15: \<open>bano_dict_set_or_add\<close> stores the value under its key and changes no other key, for
  every key, although keys share buckets through the hash; when it fails nothing changes.\<close>

theorem dict_set_or_add_get:
  assumes "dict_wf d" "bano_dict_set_or_add ms d k v = (r, ms', d')"
  shows "dict_wf d' \<and> (\<forall>k'. bano_dict_get d' k' = (if r = Ok \<and> k' = k then Some v else bano_dict_get d k'))"
  using bano_dict_set_or_add_map [OF assms] by (cases r) (auto simp: bano_dict_get_map)

theorem dict_set_or_add_get_witness:
  "bano_dict_get (snd (snd (bano_dict_set_or_add [50, 51] ex_dict 5 (9 :: u32)))) 5 = Some 9
   \<and> fst (bano_dict_set_or_add [50, 51] ex_dict 5 (9 :: u32)) = Ok"
proof -
  obtain r ms d' where p: "bano_dict_set_or_add [50, 51] ex_dict 5 (9 :: u32) = (r, ms, d')" by (cases "bano_dict_set_or_add [50, 51] ex_dict 5 (9 :: u32)") auto
  have "find_pair (ex_dict :: u32 dict) 5 = None" by (rule ex_dict_empty)
  then have "r = Ok" using p by (auto simp: bano_dict_set_or_add_def bano_dict_set_def bano_dict_add_def Let_def)
  with dict_set_or_add_get [OF ex_dict_wf p] p show ?thesis by simp
qed

text \<open>After any sequence of stores the dictionary holds, for a key stored successfully, the
  value of the last store of that key, whatever keys were stored after it.\<close>

theorem dict_last_store_wins:
  assumes "dict_wf (snd s)" "fst (dict_put s k v) = Ok" "k \<notin> fst ` set kvs"
  shows "bano_dict_get (snd (fold (\<lambda>(k, v) s. snd (dict_put s k v)) kvs (snd (dict_put s k v)))) k = Some v"
  using node_values.put_last [OF assms] by (simp add: node_values.put_all_def)

theorem dict_last_store_wins_witness:
  "bano_dict_get (snd (snd (dict_put (snd (dict_put ([50, 51, 52, 53], ex_dict) 5 (9 :: u32))) 6 7))) 5 = Some 9"
proof -
  have "find_pair (ex_dict :: u32 dict) 5 = None" by (rule ex_dict_empty)
  then have "fst (dict_put ([50, 51, 52, 53], ex_dict) 5 (9 :: u32)) = Ok"
    by (simp add: dict_put_def bano_dict_set_or_add_def bano_dict_set_def bano_dict_add_def Let_def)
  from dict_last_store_wins [OF _ this, of "[(6, 7)]"] show ?thesis by (simp add: ex_dict_wf)
qed

text \<open>\<open>bano_dict_del\<close> removes exactly its key and reports an error exactly when the key is
  not there.\<close>

theorem dict_del_get:
  assumes "dict_wf d" "bano_dict_del d k f s = (r, d', s')"
  shows "dict_wf d' \<and> (r = Err \<longleftrightarrow> bano_dict_get d k = None)
    \<and> (\<forall>k'. bano_dict_get d' k' = (if r = Ok \<and> k' = k then None else bano_dict_get d k'))"
proof -
  have "r = Err \<Longrightarrow> d' = d" using assms(2) by (auto simp: bano_dict_del_def Let_def split: option.splits)
  then show ?thesis using bano_dict_del_map [OF assms] by (cases r) (auto simp: bano_dict_get_map)
qed

theorem dict_del_get_witness:
  "\<exists>d' s'. bano_dict_del (snd (snd (dict_put ([50, 51], ex_dict) 5 (9 :: u32)))) 5 (\<lambda>_ _. ()) () = (Ok, d', s')
     \<and> bano_dict_get d' 5 = None"
proof -
  have "find_pair (ex_dict :: u32 dict) 5 = None" by (rule ex_dict_empty)
  then have "fst (dict_put ([50, 51], ex_dict) 5 (9 :: u32)) = Ok"
    by (simp add: dict_put_def bano_dict_set_or_add_def bano_dict_set_def bano_dict_add_def Let_def)
  moreover have wf: "dict_wf (snd (snd (dict_put ([50, 51], ex_dict) 5 (9 :: u32))))"
    using node_values.put_inv [of "([50, 51], ex_dict)" 5 "9 :: u32"] by (simp add: ex_dict_wf)
  ultimately have g: "bano_dict_get (snd (snd (dict_put ([50, 51], ex_dict) 5 (9 :: u32)))) 5 = Some 9"
    using node_values.put_lookup [of "([50, 51], ex_dict)" 5 "9 :: u32"] by (simp add: ex_dict_wf)
  obtain r d' s' where p: "bano_dict_del (snd (snd (dict_put ([50, 51], ex_dict) 5 (9 :: u32)))) 5 (\<lambda>_ _. ()) () = (r, d', s')"
    by (cases "bano_dict_del (snd (snd (dict_put ([50, 51], ex_dict) 5 (9 :: u32)))) 5 (\<lambda>_ _. ()) ()") auto
  from dict_del_get [OF wf p] g p show ?thesis by (cases r) auto
qed

section \<open>The cipher and the wire format\<close>

text \<open>C16: for every key and every configuration, decryption undoes encryption on any data of at
  least two blocks, and encryption undoes decryption: encryption is a permutation of the data of
  each length, so distinct messages never become equal on the air.\<close>

theorem cipher_permutes_data:
  assumes "16 \<le> n"
  shows "bij_betw (\<lambda>d. snd (bano_cipher_enc c d)) {d. length d = n} {d. length d = n}
    \<and> (\<forall>d. length d = n \<longrightarrow> snd (bano_cipher_dec c (snd (bano_cipher_enc c d))) = d)"
  using base_cipher.enc_bij [OF assms, of c] base_cipher.dec_enc [of _ c] assms by auto

theorem cipher_permutes_data_witness:
  "snd (bano_cipher_dec (b_cipher ex_base) (snd (bano_cipher_enc (b_cipher ex_base) (replicate 16 3)))) = replicate 16 3"
  using cipher_permutes_data [of 16 "b_cipher ex_base"] by simp

text \<open>The packed structure and its 17 bytes are in one to one correspondence: every message
  is read back from its bytes, and every sequence of 17 bytes is a message.\<close>

theorem message_bytes_round_trip:
  assumes "msg_wf m" "length bs = BANO_MSG_SIZE"
  shows "length (msg_bytes m) = BANO_MSG_SIZE \<and> bytes_msg (msg_bytes m) = m
    \<and> msg_wf (bytes_msg bs) \<and> msg_bytes (bytes_msg bs) = bs"
  using assms by (simp add: msg_bytes_bytes_msg BANO_MSG_SIZE_def bytes_msg_wf)

theorem message_bytes_round_trip_witness:
  "bytes_msg (msg_bytes ex_reply) = ex_reply \<and> msg_bytes (bytes_msg (replicate 17 200)) = replicate 17 200"
  using message_bytes_round_trip [OF ex_msg_wf(1), of "replicate 17 200"] by (simp add: BANO_MSG_SIZE_def)

section \<open>The configuration parser\<close>

text \<open>C17: a printed configuration, after any white space and comments, is read back: with memory
  for its items and fuel for its structures the parser stops at the end of the text and appends
  to the parser exactly the structures that were printed, with their pairs in order.\<close>

theorem printed_configuration_is_read_back:
  assumes "is_gap g" "\<forall>x \<in> set xs. struct_ok x" "length xs + 2 \<le> fuel"
    and "(\<Sum>x\<leftarrow>xs. 2 + struct_mallocs x) \<le> length (mls st)" "0 \<notin> set (mls st)"
  shows "\<exists>st'. parse_buf fuel fs st (g @ print_structs xs) =
      Done (st', Some (length (g @ print_structs xs)))
    \<and> map (struct_data \<circ> snd) (structs (psr st')) =
        map (struct_data \<circ> snd) (structs (psr st)) @ map struct_data xs"
  by (rule parse_buf_print [OF assms])

definition ex_struct :: parser_struct where
  "ex_struct = \<lparr>ps_name = ''base'', ps_pairs = [(1, \<lparr>pp_key = ''addr'', pp_val = ''0x5a''\<rparr>)]\<rparr>"

definition ex_pstate :: pstate where
  "ex_pstate = \<lparr>psr = parser_init, mls = [60, 61, 62, 63], live = {}\<rparr>"

theorem printed_configuration_is_read_back_witness:
  "\<exists>st'. parse_buf 3 (\<lambda>_. None) ex_pstate (print_structs [ex_struct]) = Done (st', Some (length (print_structs [ex_struct])))
     \<and> map (struct_data \<circ> snd) (structs (psr st')) = [(''base'', [\<lparr>pp_key = ''addr'', pp_val = ''0x5a''\<rparr>])]"
proof -
  have "\<forall>x \<in> set [ex_struct]. struct_ok x" "structs (psr ex_pstate) = []"
    by (auto simp: ex_struct_def ex_pstate_def parser_init_def struct_ok_def pair_ok_def is_word_def is_white_def is_nl_def is_space_def
        is_comment_def is_directive_def)
  moreover have "(\<Sum>x\<leftarrow>[ex_struct]. 2 + struct_mallocs x) \<le> length (mls ex_pstate)" "0 \<notin> set (mls ex_pstate)"
    "map struct_data [ex_struct] = [(''base'', [\<lparr>pp_key = ''addr'', pp_val = ''0x5a''\<rparr>])]"
    by (simp_all add: ex_struct_def ex_pstate_def struct_mallocs_def struct_data_def)
  ultimately show ?thesis
    using printed_configuration_is_read_back [of "[]" "[ex_struct]" 3 ex_pstate "\<lambda>_. None"] by simp
qed



text \<open>When the parser succeeds on a text it has consumed all of it, with or without included
  files.\<close>

theorem parser_consumes_everything:
  assumes "parse_buf fuel fs st s = Done (st', Some k)"
  shows "k = length s"
  by (rule parse_buf_consumes [OF assms])

theorem parser_consumes_everything_witness:
  "length (print_structs [ex_struct]) = length (print_structs [ex_struct]) \<and> parse_buf 1 (\<lambda>_. None) ex_pstate [] = Done (ex_pstate, Some 0)"
  using parser_consumes_everything [of 1 "\<lambda>_. None" ex_pstate "[]" ex_pstate 0] by simp

text \<open>C19: on a text whose first token is an unknown directive the parser never returns: no fuel is
  enough, because the directive is skipped by zero characters.\<close>

theorem unknown_directive_never_returns:
  assumes "next_token s = (t, n)" "n \<noteq> 0" "is_directive (s ! t)" "\<not> is_include_directive (drop t s) n"
  shows "parse_buf fuel fs st s = Running"
  by (rule parse_buf_unknown_directive [OF assms])

theorem unknown_directive_never_returns_witness:
  "parse_buf 100 (\<lambda>_. None) ex_pstate ''.set'' = Running"
proof -
  have "next_token ''.set'' = (0, 4)"
    by (simp add: next_token_def skip_comments_and_whites.simps token_size_def is_white_def is_nl_def is_space_def is_comment_def)
  then show ?thesis
    by (rule unknown_directive_never_returns) (simp_all add: is_directive_def is_include_directive_def)
qed

text \<open>C20: once the file is mapped and in the list of buffers, loading never returns its error
  code: on a parse error the buffer is released twice.\<close>

theorem load_file_never_reports_parse_error:
  assumes "get_dirname path = Some d" "fs path = Some data" "data \<noteq> []"
    and "malloc ms = (b, ms1)" "b \<noteq> 0" "malloc ms1 = (it, ms2)" "it \<noteq> 0"
  shows "bano_parser_load_file fuel fs ms lv path \<noteq> Done (Err, st)"
  using assms by (rule load_file_no_error_return)

theorem load_file_never_reports_parse_error_witness:
  "bano_parser_load_file 3 (\<lambda>_. Some ''base'') [60, 61, 62, 63] {} ''bano.conf'' \<noteq> Done (Err, ex_pstate)"
proof -
  have "get_dirname ''bano.conf'' = Some ''b''" by (simp add: get_dirname_def BANO_PARSER_PATHLEN_def)
  then show ?thesis
    by (rule load_file_never_reports_parse_error [where data = "''base''" and b = 60 and it = 61 and ?ms1.0 = "[61, 62, 63]" and ?ms2.0 = "[62, 63]"]) simp_all
qed

section \<open>The base and a node together\<close>





section \<open>The two threads of the web server\<close>

text \<open>C23: in every interleaving of the server's thread and the event loop, the event loop never
  writes a result through the pointer of a call of \<open>on_event\<close> that has returned, at most one message
  is between the threads, the result is not tested while it is written, the image of the
  camera is not read while a message, which may capture one, is handled, and the server is destroyed only
  after its thread has ended.\<close>

theorem completion_never_dangles:
  assumes "threads_reach W s"
  shows "lp_pc s \<noteq> Dangling \<and> length (outstanding s) \<le> 1
    \<and> \<not> (sv_pc s = Test_Compl \<and> (\<exists>m. lp_pc s = Set_Err m)) \<and> (outstanding s \<noteq> [] \<longrightarrow> sv_pc s \<noteq> In_Poll)
    \<and> (lp_pc s = Closed \<longrightarrow> sv_pc s = Exited)"
  using threads_safe [OF assms] test_excludes_write [OF assms] image_not_read_while_captured [OF assms] by blast

theorem completion_never_dangles_witness: "length (outstanding (loop_ended_in_flight 64)) \<le> 1"
  using completion_never_dangles [OF in_flight_reached [of 64]] by blast

text \<open>C24: once the event loop has ended, \<open>bano_httpd_fini\<close> can return exactly when no call of \<open>on_event\<close>
  waits for a request that is not completed: a request whose operation is in flight is completed by
  nobody any more, and the shutdown waits for the thread of the server for ever.\<close>

theorem shutdown_ends_iff:
  assumes "threads_reach W s" "lp_pc s = Fini_Start"
  shows "(\<exists>s'. (threads_step W)\<^sup>*\<^sup>* s s' \<and> lp_pc s' = Closed) \<longleftrightarrow> \<not> (waiting s \<and> sv_compl s = None)"
  using shutdown_ends [OF assms] stuck_never_closed [of s W] assms(2) unfolding stuck_def by blast

theorem shutdown_ends_iff_witness: "\<not> (\<exists>s'. (threads_step 64)\<^sup>*\<^sup>* (loop_ended_in_flight 64) s' \<and> lp_pc s' = Closed)"
  using shutdown_ends_iff [OF in_flight_reached [of 64] in_flight_stuck(1) [of 64]] in_flight_stuck [of 64]
  by (simp add: stuck_def)

section \<open>Opening and closing\<close>





text \<open>C27: the set command of the program, from its arguments to the node: the printed address, key
  and value are read back, and when a node with that address appears the handler posts one
  operation to it that sets that key to that value and asks for an answer.\<close>

theorem set_command_posts_operation:
  assumes "32 \<le> W" "node_at b na = Some nd" "n_addr nd = a" "b_mls b = p # it # ms" "p \<noteq> 0" "it \<noteq> 0"
    and "msg_wf (io_msg (io_junk lib))"
  shows "\<exists>ci li f nd' io. get_cmdline_info W [''-op_name'', ''set'', ''-node_addr'', hex8 a, ''-op_key'', hex8 k,
        ''-op_val'', hex8 v, ''-op_ack'', ''1''] = Some ci
    \<and> main_loop_info lib ci junk = Some li \<and> node_fn li = Some f
    \<and> node_at (f na BANO_NODE_REASON_NEW b) na = Some nd' \<and> posted_ios nd' = posted_ios nd @ [(it, p)]
    \<and> io_at (f na BANO_NODE_REASON_NEW b) p = Some io \<and> has_flag (io_flags io) BANO_IO_FLAG_REPLY
    \<and> op (io_msg io) = BANO_MSG_OP_SET \<and> set_key (io_msg io) = ucast k \<and> set_val (io_msg io) = v"
proof -
  let ?f = "on_node_set lib a (ucast k) v True"
  let ?ci = "\<lparr>ci_flags = 0x1f, op_name = Some ''set'', op_key = k, op_val = v, node_addr = a\<rparr>"
  have "main_loop_info lib ?ci junk = Some ((bano_init_loop_info junk)\<lparr>node_fn := Some ?f\<rparr>)"
    by (simp add: main_loop_info_def Let_def CMDLINE_FLAG_OP_NAME_def CMDLINE_FLAG_OP_ACK_def)
  with on_node_set_posts [OF assms(2-7), of "ucast k" v True] cmdline_read_back [OF assms(1), of "''set''" a k v]
  show ?thesis by fastforce
qed

theorem set_command_posts_operation_witness:
  "\<exists>ci li f nd'. get_cmdline_info 64 [''-op_name'', ''set'', ''-node_addr'', hex8 0xa1, ''-op_key'', hex8 5,
        ''-op_val'', hex8 9, ''-op_ack'', ''1''] = Some ci
     \<and> main_loop_info ex_main_lib ci ex_linfo = Some li \<and> node_fn li = Some f
     \<and> node_at (f 2 BANO_NODE_REASON_NEW ex_base) 2 = Some nd' \<and> posted_ios nd' = [(51, 50)]"
proof -
  have b: "node_at ex_base 2 = Some ex_node" "n_addr ex_node = 0xa1" "b_mls ex_base = 50 # 51 # [52, 53, 54, 55]"
    "posted_ios ex_node = []" "msg_wf (io_msg (io_junk ex_main_lib))"
    using ex_msg_wf(2) by (simp_all add: ex_base_def ex_node_def ex_main_lib_def base_lib.defs loop_lib.defs ex_lib_def)
  from set_command_posts_operation [of 64, OF _ b(1-3) _ _ b(5), of 5 9 ex_linfo] b(4) show ?thesis by fastforce
qed

section \<open>Descriptions of nodes\<close>

text \<open>An entry of a description file that is read is found under its key from then on, with its
  name, or the key in hexadecimal without one, and the entries under other keys are unchanged.\<close>

theorem configured_entry_is_found:
  assumes "nodl_wf nd" "keyvals nd = Some d" "ps_name x = ''keyval''"
    and "bano_parser_foreach_pair x (apply_nodl_keyval_pair W) bano_nodl_keyval_init = (Ok, kv)"
    and "bano_nodl_find_key nd (kv_key kv) = Some None" "ms = a # c # ms'" "a \<noteq> 0" "c \<noteq> 0"
  shows "\<exists>nd'. apply_nodl_struct W x (ms, nd) = Done (False, ms', nd') \<and> nodl_wf nd'
    \<and> (\<forall>k. bano_nodl_find_key nd' k = (if k = kv_key kv then Some (Some (default_name kv)) else bano_nodl_find_key nd k))"
  by (rule keyval_struct_found [OF assms])

theorem configured_entry_is_found_witness:
  "\<exists>nd' kv. apply_nodl_struct 64 \<lparr>ps_name = ''keyval'', ps_pairs = [(1, \<lparr>pp_key = ''name'', pp_val = ''led''\<rparr>), (2, \<lparr>pp_key = ''set'', pp_val = ''true''\<rparr>)]\<rparr>
       ([50, 51, 52], \<lparr>keyvals = Some ex_dict\<rparr>) = Done (False, [52], nd')
     \<and> bano_nodl_find_key nd' 0 = Some (Some kv) \<and> kv_name kv = ''led'' \<and> has_flag (kv_flags kv) BANO_NODL_FLAG_SET"
proof -
  let ?x = "\<lparr>ps_name = ''keyval'', ps_pairs = [(1 :: nat, \<lparr>pp_key = ''name'', pp_val = ''led''\<rparr>), (2, \<lparr>pp_key = ''set'', pp_val = ''true''\<rparr>)]\<rparr>"
  let ?nd = "\<lparr>keyvals = Some ex_dict\<rparr>" and ?kv = "\<lparr>kv_flags = BANO_NODL_FLAG_SET, kv_name = ''led'', kv_key = 0\<rparr>"
  have p: "bano_parser_foreach_pair ?x (apply_nodl_keyval_pair 64) bano_nodl_keyval_init = (Ok, ?kv)"
    by code_simp
  have wf: "nodl_wf ?nd" using ex_dict_wf by (simp add: nodl_wf_def dict_pairs_def) (simp add: ex_dict_def)
  have "bano_nodl_find_key ?nd 0 = Some None"
    by code_simp
  from configured_entry_is_found [OF wf _ _ p, of _ _ 50 51 "[52]"] this show ?thesis
    by (fastforce simp: default_name_def has_flag_def BANO_NODL_FLAG_SET_def)
qed

text \<open>Of the four formats of an entry only \<open>uint32\<close> and its prefixes are accepted: the second
  chain of tests refuses what the first one took.\<close>

theorem only_uint32_format_is_accepted:
  assumes "pp_key p = ''fmt''"
  shows "fst (apply_nodl_keyval_pair W p kv) \<longleftrightarrow> \<not> prefix (pp_val p) ''uint32''"
  by (rule nodl_fmt_accepted [OF assms])

theorem only_uint32_format_is_accepted_witness:
  "fst (apply_nodl_keyval_pair 64 \<lparr>pp_key = ''fmt'', pp_val = ''uint8''\<rparr> bano_nodl_keyval_init)
   \<and> \<not> fst (apply_nodl_keyval_pair 64 \<lparr>pp_key = ''fmt'', pp_val = ''uint32''\<rparr> bano_nodl_keyval_init)"
  by (simp add: only_uint32_format_is_accepted)

section \<open>The camera\<close>

text \<open>C28: the conversion of a packed frame, with its pointers and counters, is the reference that takes
  four bytes to two pixels: the first bytes of the output are the image, the others stay.\<close>

theorem yuyv_frame_is_converted:
  assumes "unat w = 2 * n" "2 * (unat w * unat h) \<le> length inp" "3 * (unat w * unat h) \<le> length dst"
  shows "trans_yuyv_to_rgb24 fp dst inp w h =
    Some (yuyv_pixels fp (take (2 * (unat w * unat h)) inp) @ drop (3 * (unat w * unat h)) dst)"
  by (rule trans_yuyv_pixels [OF assms])

theorem yuyv_frame_is_converted_witness:
  "trans_yuyv_to_rgb24 ex_fp [1, 1, 1, 1, 1, 1, 1, 1] [100, 128, 200, 128] 2 1 = Some [100, 100, 100, 200, 200, 200, 1, 1]"
  by (subst yuyv_frame_is_converted [of _ 1]) (simp_all add: yuv_to_rgb_def ex_fp_def saturate_def)






section \<open>Requests of the web server\<close>

text \<open>C32: the set button of the page, down to the node: what a browser posts for the form the station
  printed for a key of a node is taken apart by the server and handed to the handler, and handling
  the message it is decoded to posts one operation to the node of that address, which sets that key
  to the number in the text field and asks for an answer exactly when the key is described so.\<close>

theorem page_set_button_posts_operation:
  assumes "32 \<le> W" "plain_value v" "pair_html tm nd p = Some (form_text q # ts)"
    and "request_ok ''POST'' ''/'' (Some q) ver hs" "ver = ''1.0'' \<or> ver = ''1.1''" "endpoint conn = EP_NONE"
    and "body_len hs = int (length (form_data (form_body v ''set'')))"
    and "request_len conn = 0" "recv_iobuf conn = request_text ''POST'' ''/'' (Some q) ver hs @ form_data (form_body v ''set'')"
    and "bano_find_node_by_addr b (bano_node_get_addr nd) = Some (Ok, na)" "node_at b na = Some nd'"
    and "b_mls b = h # a # it # ms" "h \<noteq> 0" "a \<noteq> 0" "it \<noteq> 0" "msg_wf (io_msg (io_junk lib))"
  shows "process_verdict (try_parse W conn) = Open_local_endpoint \<and> data_is_buffered (try_parse W conn)
    \<and> (\<exists>b' nd'' io. handle_httpd_msg lib (decode_request W (request_var (request_handler_conn (try_parse W conn))) n) b = Some b'
      \<and> node_at b' na = Some nd'' \<and> posted_ios nd'' = posted_ios nd' @ [(it, a)]
      \<and> io_at b' a = Some io \<and> op (io_msg io) = BANO_MSG_OP_SET \<and> set_key (io_msg io) = kv_key (snd p)
      \<and> set_val (io_msg io) = str_to_uint32 W v
      \<and> has_flag (io_flags io) BANO_IO_FLAG_REPLY = has_flag (kv_flags (snd p)) BANO_NODL_FLAG_ACK)"
  by (rule form_set_posts [OF assms])

theorem page_set_button_posts_operation_witness:
  "process_verdict (try_parse 64 ex_conn) = Open_local_endpoint
    \<and> (\<exists>b' nd' io. handle_httpd_msg ex_lib (decode_request 64 (request_var (request_handler_conn (try_parse 64 ex_conn))) 9) ex_base = Some b'
      \<and> node_at b' 2 = Some nd' \<and> posted_ios nd' = [(52, 51)] \<and> io_at b' 51 = Some io
      \<and> set_key (io_msg io) = 5 \<and> set_val (io_msg io) = str_to_uint32 64 ''7'' \<and> \<not> has_flag (io_flags io) BANO_IO_FLAG_REPLY)"
proof -
  obtain ts where p: "pair_html 0 ex_node ex_row = Some (form_text ex_query # ts)" using ex_row_page by blast
  have b: "bano_find_node_by_addr ex_base (bano_node_get_addr ex_node) = Some (Ok, 2)" "node_at ex_base 2 = Some ex_node"
    "b_mls ex_base = 50 # 51 # 52 # [53, 54, 55]" "posted_ios ex_node = []" "msg_wf (io_msg (io_junk ex_lib))"
    using ex_msg_wf(2) by (simp_all add: ex_lib_def bano_find_node_by_addr_def ex_base_def ex_node_def bano_node_get_addr_def)
  have c: "endpoint ex_conn = EP_NONE" "request_len ex_conn = 0"
    "recv_iobuf ex_conn = request_text ''POST'' ''/'' (Some ex_query) ''1.1'' ex_headers @ form_data (form_body ''7'' ''set'')"
    "body_len ex_headers = int (length (form_data (form_body ''7'' ''set'')))"
    by (simp_all add: ex_conn_def ex_body)
  from page_set_button_posts_operation [OF _ ex_body(3) p ex_request_ok _ c(1,4,2,3) b(1-3) _ _ _ b(5), of 64 9] b(4)
  show ?thesis by (simp add: ex_row_def has_flag_def nodl_flag_defs) blast
qed

text \<open>C33: a request is handed over to the handlers only with a path that starts with a slash (or is an
  asterisk), and in which no slash or backslash is followed by another one or by two dots, whatever
  bytes the client sent and however they were encoded.\<close>

theorem served_path_is_confined:
  assumes "request_len conn = 0" "process_verdict (try_parse W conn) = Open_local_endpoint"
  shows "is_valid_uri (uri (mg_conn (try_parse W conn)))
    \<and> (\<forall>xs c ys. uri (mg_conn (try_parse W conn)) = xs @ c # ys \<and> is_slash c
         \<longrightarrow> \<not> (ys \<noteq> [] \<and> is_slash (hd ys)) \<and> take 2 ys \<noteq> ''..'')"
  using served_uri [OF assms] by blast

theorem served_path_is_confined_witness:
  "is_valid_uri (uri (mg_conn (try_parse 64 ex_conn)))
    \<and> uri (mg_conn (try_parse 64 (ex_conn\<lparr>recv_iobuf := request_text ''GET'' ''/..//%2e%2e/a'' None ''1.0'' ex_headers\<rparr>))) = ''/a''"
proof -
  have r: "request_ok ''GET'' ''/..//%2e%2e/a'' None ''1.0'' ex_headers" by code_simp
  have d: "decoded_uri ''/..//%2e%2e/a'' = ''/a''" by code_simp
  have c: "request_len (ex_conn\<lparr>recv_iobuf := x\<rparr>) = 0" "endpoint (ex_conn\<lparr>recv_iobuf := x\<rparr>) = EP_NONE" for x by (simp_all add: ex_conn_def)
  have "process_verdict (try_parse 64 ex_conn) = Open_local_endpoint"
    by (rule request_served [OF ex_request_ok, where body = "''val=7&op=set''"])
      (simp_all add: ex_conn_def decoded_uri_def mg_url_decode_def c_str_def is_valid_uri_def)
  from served_path_is_confined [OF _ this] show ?thesis
    using try_parse_request [OF r c(1), of _ "[]" 64] by (simp add: d ex_conn_def)
qed

text \<open>Decoding undoes encoding: with a destination of more than three times the length, an encoded
  text is decoded to itself, as a form or not, whatever its characters are.\<close>

theorem url_round_trip:
  assumes "3 * length s < elen" "elen \<le> length dst" "length s < dlen"
  shows "mg_url_decode (mg_url_encode s dst elen) dlen form = (int (length s), s)"
  by (rule mg_url_round_trip [OF assms])

theorem url_round_trip_witness:
  "mg_url_decode (mg_url_encode ''a+b %'' (replicate 20 CHR ''x'') 20) 7 True = (5, ''a+b %'')"
  using url_round_trip [of "''a+b %''" 20 "replicate 20 CHR ''x''" 7 True] by simp

section \<open>Packing an image\<close>

text \<open>C34: an image that was filtered for its compression is the image again after unfiltering, for every
  color type and depth that is allowed, with every strategy and whatever the heuristics choose: the
  filter never reads past the image, and its output has one byte more for each line.\<close>

theorem filtered_image_round_trip:
  assumes "checkColorValidity ct bd = 0" "bpp = lodepng_get_bpp_lct ct bd" "0 < w" "unat w * unat bpp + 7 < 2 ^ 32"
    and "unat h * linebytes w bpp \<le> length im" "filters_given (filter_strategy settings) (predefined_filters settings) (unat h)"
    and "\<And>a. pick a \<le> 4"
  shows "\<exists>out. png_filter pick im w h ct bd settings = Some (0, out) \<and> length out = unat h * (linebytes w bpp + 1)
    \<and> unfilter out w h bpp = Some (0, take (unat h * linebytes w bpp) im)"
  by (rule png_filter_round_trip [OF assms])

theorem filtered_image_round_trip_witness:
  "\<exists>out. png_filter (\<lambda>a. 0) [1, 2, 3, 4, 5, 6, 7, 8, 9, 10, 11, 12] 2 2 LCT_RGB 8 ex_settings = Some (0, out)
    \<and> unfilter out 2 2 24 = Some (0, [1, 2, 3, 4, 5, 6, 7, 8, 9, 10, 11, 12])"
  using filtered_image_round_trip [of LCT_RGB 8 24 2 2 "[1, 2, 3, 4, 5, 6, 7, 8, 9, 10, 11, 12]" ex_settings "\<lambda>a. 0"]
  by (simp add: checkColorValidity_def lodepng_get_bpp_lct_def linebytes_def filters_given_def ex_settings_def) blast

text \<open>C35: a chunk that was created passes its check, and one whose letters or data have a single byte changed,
  whichever and to whatever value, does not.\<close>

theorem corrupted_chunk_is_detected:
  assumes "lodepng_chunk_create W True buf len type data = Some (0, buf')" "unat len + 12 < 2 ^ 32"
    and "4 \<le> i" "i < unat len + 8" "b \<noteq> drop (length buf) buf' ! i"
  shows "lodepng_chunk_check_crc (drop (length buf) buf') = Some 0
    \<and> lodepng_chunk_check_crc ((drop (length buf) buf')[i := b]) = Some 1"
  using chunk_corrupted [OF assms] chunk_created [OF assms(1,2), of "[]"] by auto

theorem corrupted_chunk_is_detected_witness:
  "\<exists>out'. lodepng_chunk_create 64 True [7] 2 [0x49, 0x44, 0x41, 0x54] [1, 2] = Some (0, out')
    \<and> lodepng_chunk_check_crc ((drop 1 out')[8 := 5]) = Some 1"
proof -
  let ?c = "lodepng_chunk_create 64 True [7] 2 [0x49, 0x44, 0x41, 0x54] [1, 2]"
  have "\<exists>crc. ?c = Some (0, [7, 0, 0, 0, 2, 0x49, 0x44, 0x41, 0x54, 1, 2] @ lodepng_set32bitInt crc)"
    by (simp add: lodepng_chunk_create_def lodepng_chunk_generate_crc_def lodepng_chunk_length_def lodepng_read32bitInt_def
        lodepng_set32bitInt_def [of 2] Let_def) blast
  then obtain crc where c: "?c = Some (0, [7, 0, 0, 0, 2, 0x49, 0x44, 0x41, 0x54, 1, 2] @ lodepng_set32bitInt crc)" by blast
  from corrupted_chunk_is_detected [OF c, of 8 5] c show ?thesis by simp
qed

text \<open>C36: the check sums are the standard's: the loop over 5550 bytes at a time, whose sums are reduced late,
  computes the two sums modulo 65521, since they never overflow; and the loop over the table computes
  the shift register of the polynomial, bit by bit.\<close>

theorem check_sums_are_the_standards:
  "unat (adler32 ds) = (snd (adler_ref ds 1 0) mod 65521) * 65536 + fst (adler_ref ds 1 0) mod 65521
    \<and> lodepng_crc32 ds = crc_reference ds"
  by (simp only: adler32_correct crc32_correct)

section \<open>Text messages\<close>

text \<open>C37: the text \<open>sms_creds -e\<close> prints for a login and a password, without its newline, is taken by the
  \<open>https_creds\<close> pair of a configuration; a station opened with it under the same key holds that login
  and that password, and \<open>sms_creds -d\<close> prints them back.\<close>

theorem tool_credentials_log_in:
  assumes "8 \<le> ce_W env" "CHR 0x00 \<notin> set l" "CHR 0x00 \<notin> set p"
    and "sms_creds_main (matrix_aes lib) (ce_W env) h0 i0 [''-e'', l, p] s = Some (Ok, printed, s')"
    and "ce_after env (butlast printed) = [] \<or> 16 \<le> digit_val (hd (ce_after env (butlast printed)))"
    and "apply_sms_pair env \<lparr>pp_key = ''https_creds'', pp_val = butlast printed\<rparr> (si, ms) = (stop, si', ms')"
    and "bano_sms_open (matrix_aes lib) (ce_W env) g si' t = Some (Ok, h, t')"
  shows "\<not> stop \<and> bytes_str (sms_login h) = l \<and> bytes_str (sms_pass h) = p
    \<and> creds_command (matrix_aes lib) (ce_W env) h [''-d'', butlast printed] = Some (Ok, ''l='' @ l @ '', p='' @ p @ [newline])"
  by (rule printed_login [OF matrix_aes_ok assms])

theorem tool_credentials_log_in_witness:
  "\<exists>t si h. sms_creds_main ex_aes_ssl 64 ex_aes_sms ex_login_info [''-e'', ''12345678'', ''abcdefghijklmn''] 0 = Some (Ok, t, 0)
    \<and> apply_sms_pair ex_env \<lparr>pp_key = ''https_creds'', pp_val = butlast t\<rparr> (ex_login_info, []) = (False, si, [])
    \<and> bano_sms_open ex_aes_ssl 64 ex_aes_sms si 0 = Some (Ok, h, 0) \<and> bytes_str (sms_login h) = ''12345678''"
proof -
  have W: "ce_W ex_env = 64" "ce_after ex_env x = []" for x by (simp_all add: ex_env_def)
  obtain t where t: "sms_creds_main ex_aes_ssl 64 ex_aes_sms ex_login_info [''-e'', ''12345678'', ''abcdefghijklmn''] 0 = Some (Ok, t, 0)"
    using ex_tool_prints by blast
  obtain c where c: "bano_string_to_array 64 (butlast t) [] BANO_SMS_CREDS_SIZE = Some c"
    by (rule printed_credentials [OF ex_aes_ssl_ok _ t disjI1 [OF refl]]) simp_all
  then have a: "apply_sms_pair ex_env \<lparr>pp_key = ''https_creds'', pp_val = butlast t\<rparr> (ex_login_info, [])
      = (False, ex_login_info\<lparr>sms_creds := c\<rparr>, [])"
    by (simp add: apply_sms_pair_def W)
  have "length c = 32" using c by (auto simp: bano_string_to_array_def BANO_SMS_CREDS_SIZE_def split: if_splits)
  then obtain h where h: "bano_sms_open ex_aes_ssl 64 ex_aes_sms (ex_login_info\<lparr>sms_creds := c\<rparr>) 0 = Some (Ok, h, 0)"
    using ex_sms_opens by blast
  show ?thesis
    using tool_credentials_log_in [OF _ _ _ t [folded W(1), unfolded ex_aes_ssl_def] _ a h [folded W(1), unfolded ex_aes_ssl_def]] t a h
    by (auto simp: W)
qed

text \<open>C38: a key of 16, 24 or 32 bytes is accepted, and for an accepted key decryption undoes the encryption of
  every block of 16 bytes, which stays a block of 16 bytes.\<close>

theorem aes_round_trip:
  assumes "length k \<in> {16, 24, 32}" "length b = 16"
  shows "\<exists>sk. psAesInitKey k = Some sk \<and> length (psAesEncryptBlock sk b) = 16
    \<and> psAesDecryptBlock sk (psAesEncryptBlock sk b) = b"
proof -
  obtain sk where sk: "psAesInitKey k = Some sk" using psAesInitKey_accepts [OF assms(1)] by blast
  from psAes_round_trip [OF this assms(2)] show ?thesis unfolding sk by simp
qed

theorem aes_round_trip_witness:
  "\<exists>sk. psAesInitKey fips_key = Some sk \<and> psAesEncryptBlock sk fips_plain = fips_cipher
    \<and> psAesDecryptBlock sk fips_cipher = fips_plain"
proof -
  have "length fips_key \<in> {16, 24, 32}" "length fips_plain = 16" by (simp_all add: fips_key_def fips_plain_def)
  from aes_round_trip [OF this] obtain sk where sk: "psAesInitKey fips_key = Some sk"
    "psAesDecryptBlock sk (psAesEncryptBlock sk fips_plain) = fips_plain" by blast
  moreover have "psAesEncryptBlock sk fips_plain = fips_cipher"
    by (rule fips_encrypts) (use fips_initialised sk(1) in auto)
  ultimately show ?thesis by auto
qed

text \<open>Blocks that are chained: what is encrypted under a key and a vector is decrypted under them.\<close>

theorem chained_blocks_round_trip:
  assumes "psAesInit IV kb = Some ctx" "16 \<le> length IV" "length pt = len" "16 dvd len"
  shows "\<exists>ct ctx'. psAesEncrypt ctx pt len = Some (int len, ct, ctx') \<and> length ct = len
    \<and> psAesDecrypt ctx ct len = Some (int len, pt, ctx')"
  by (rule psAes_cbc_round_trip [OF assms])

text \<open>The check of the length is one of multiples of 8: half a block is encrypted past its end.\<close>

theorem half_block_is_read_past_its_end:
  assumes "psAesInit IV kb = Some ctx" "length pt = 8"
  shows "psAesEncrypt ctx pt 8 = None"
  using assms by (intro psAesEncrypt_half_block) (auto simp: psAesInit_def split: option.splits)

text \<open>Below the text: encrypted credentials are decrypted to the same bytes, with their terminators.\<close>

theorem credentials_round_trip:
  assumes "aes_ok lib" "sl_aes_init lib buf = Some k" "length l = BANO_SMS_LOGIN_SIZE" "length p = BANO_SMS_PASS_SIZE"
  shows "bano_sms_decrypt_creds lib k (bano_sms_encrypt_creds lib k l p) = (l @ [0], p @ [0])"
  by (rule creds_round_trip [OF assms])



text \<open>Any reply whose header is made of lines is a success: the status of the first line is never
  looked at, and the connection is closed after the first data.\<close>

theorem reply_status_is_ignored:
  assumes "parsebuf cp = None" "\<not> cp_complete cp" "\<forall>l \<in> set ls. LF \<notin> set l" "sd_bytes d = crlf_lines ls @ r" "LF \<notin> set r"
  shows "\<exists>x. app_data lib fd d cp s = Some x \<and> hs_pc x = Returned Ok"
  by (rule app_data_success [OF assms])

theorem reply_status_is_ignored_witness:
  "\<exists>x. app_data ex_ssl 4 ex_reply_data \<lparr>parsebuf = None, cp_complete = False, bytes_received = 0\<rparr> 0 = Some x \<and> hs_pc x = Returned Ok"
  by (rule reply_status_is_ignored [of _ "[str_bytes ''HTTP/1.0 500 Error'', []]" _ "[]"])
    (simp_all add: crlf_lines_def ex_reply_data_def str_bytes_def)

section \<open>The node\<close>

text \<open>C40: a node that sleeps has seen every event it waits for, in every interleaving of the program,
  the interrupts and the hardware: no flag it tests is set, and when the radio holds a message
  the interrupt that wakes the node is latched and enabled.\<close>

theorem asleep_no_event_is_lost:
  assumes "node_reach cl cfg nrf hs s" "peek_pure nrf" "w_pc s = Sleeping"
  shows "(wakes (BANO_WAKE_TIMER OR BANO_WAKE_POLL) s \<longrightarrow> \<not> timer_irq (w_hw s))
    \<and> (wakes BANO_WAKE_PCINT s \<longrightarrow> \<not> pcint_irq (w_hw s))
    \<and> (wakes BANO_WAKE_MSG s \<and> rx_pin nrf (w_radio s) \<longrightarrow>
        (\<exists>s'. node_step cl cfg nrf hs s s' \<and> w_pc s' = Top_Timer \<and> w_radio s' = w_radio s))"
  by (rule asleep_no_event_lost [OF assms])

theorem asleep_no_event_is_lost_witness:
  "\<exists>s. node_reach ex_crypto ex_node_config ex_nrf ex_handlers s \<and> w_pc s = Sleeping \<and> wakes BANO_WAKE_PCINT s \<and> \<not> pcint_irq (w_hw s)"
proof -
  let ?s = "ex_wait\<lparr>w_pc := Sleeping, w_ien := True\<rparr>"
  have "peek_pure ex_nrf" "w_pc ?s = Sleeping" "wakes BANO_WAKE_PCINT ?s"
    by (simp_all add: peek_pure_def ex_nrf_def ex_wait_def wakes_def has_flag_def wake_defs)
  with asleep_no_event_is_lost [OF ex_asleep_reach] ex_asleep_reach show ?thesis by blast
qed

text \<open>A node that only polls never returns from \<open>bano_wait_event\<close>, in no interleaving: the
  function that should read the answer is a stub.\<close>

theorem polling_node_stays_inside:
  assumes "node_reach cl cfg nrf hs s" "bano_wake_mask (w_hw s) = BANO_WAKE_POLL"
  shows "w_pc s \<noteq> wait_pc.Returned ev"
  using polling_node_never_returns [OF assms(1)] assms(2) by (simp add: polls_only_def poll_inv_def)

theorem polling_node_stays_inside_witness:
  "w_pc (ex_wait\<lparr>w_hw := (w_hw ex_wait)\<lparr>bano_wake_mask := BANO_WAKE_POLL\<rparr>\<rparr>) \<noteq> wait_pc.Returned BANO_EV_TIMER"
  by (rule polling_node_stays_inside [OF node_reach.start]) (simp_all add: ex_wait_def)

text \<open>The application of \<open>tx_profile\<close> waits for its timer only: in every state it reaches its LED is
  dark and its value 0, and each event it handles sends the magic value five times and increments it;
  the handlers it has for requests never run.\<close>

theorem burst_program_serves_no_request:
  assumes "(node_step cl cfg nrf (tx_handlers cl cfg junk))\<^sup>*\<^sup>* (tx_main nrf set_power cfg init) s"
  shows "led_value (w_user s) = 0 \<and> \<not> bit (led_port (w_user s)) 1
    \<and> (w_pc s = wait_pc.Returned ev \<longrightarrow> ev = BANO_EV_TIMER
       \<and> node_turn cl cfg (tx_handlers cl cfg junk) ev (w_msg s) (w_user s)
         = ((w_user s)\<lparr>magic_value := magic_value (w_user s) + 1\<rparr>, w_msg s,
            map (\<lambda>i. bano_send_set cl cfg (junk i) KEY_MAGIC_VALUE (magic_value (w_user s))) [0..<5]))"
  using tx_never_serves [OF assms] tx_timer_turn by blast

theorem burst_program_serves_no_request_witness:
  "led_value (w_user (tx_main ex_nrf (\<lambda>r. r) ex_node_config ex_burst)) = 0
    \<and> \<not> bit (led_port (w_user (tx_main ex_nrf (\<lambda>r. r) ex_node_config ex_burst))) 1"
  using burst_program_serves_no_request [OF rtranclp.rtrancl_refl, where cl = ex_crypto and junk = "\<lambda>_. io_msg ex_io"
    and nrf = ex_nrf and set_power = "\<lambda>r. r" and cfg = ex_node_config and init = ex_burst] by blast

text \<open>The counter of the timer is the product of the clock and the delay cut to 32 bits, divided by
  the prescalers; it is the delay asked for exactly when the product fits in 32 bits.\<close>

theorem timer_counter_wraps:
  "unat (timer_count fcpu t) = (unat fcpu * unat t mod 2 ^ 32) div 2621440
   \<and> (unat (timer_count fcpu t) = unat fcpu * unat t div 2621440 \<longleftrightarrow> unat fcpu * unat t < 2 ^ 32)"
proof -
  let ?x = "unat fcpu * unat t"
  have "?x mod 2 ^ 32 div 2621440 \<noteq> ?x div 2621440" if "2 ^ 32 \<le> ?x"
  proof -
    have "?x mod 2 ^ 32 + 2 ^ 32 \<le> ?x"
      using le_mod_geq [OF that] mod_less_eq_dividend [of "?x - 2 ^ 32" "2 ^ 32"] that by linarith
    then have "(?x mod 2 ^ 32 + 2621440) div 2621440 \<le> ?x div 2621440" by (intro div_le_mono) simp
    then show ?thesis by simp
  qed
  then show ?thesis unfolding timer_count_value using mod_less [of ?x "2 ^ 32"] by (metis not_less)
qed

end
